(* ===== verification/Prelude.thy ===== *)
theory Prelude
  imports Main "HOL-Library.Word" "HOL-Library.Multiset"
begin

unbundle bit_operations_syntax

text \<open>
  Shared vocabulary of the development: the machine integer types of the C sources, the
  collections of rewrite rules the component theories add to, and generic facts on lists, options
  and words that several components use.

  Conventions.  A C \<open>uintN_t\<close> is an \<open>N word\<close>, so its arithmetic wraps as in C.  A \<open>size_t\<close> that
  only counts or indexes objects in memory is a \<open>nat\<close> (it cannot wrap, since the objects exist).
  A pointer to an object that other structures also point to is an \<open>addr\<close>, and the object's fields
  are read from a store indexed by addresses.
\<close>

type_synonym u8 = "8 word"
type_synonym u16 = "16 word"
type_synonym u32 = "32 word"
type_synonym u64 = "64 word"
type_synonym addr = nat

named_theorems frame_simps \<open>what an operation leaves unchanged\<close>
named_theorems inv_intros \<open>operations that keep their component's invariant\<close>

section \<open>Lists\<close>

lemma nth_list_update_if:
  "i < length xs \<Longrightarrow> xs[i := x] ! j = (if i = j then x else xs ! j)"
  by (simp add: nth_list_update)

lemma nth_list_update_at:
  "j < length xs \<Longrightarrow> xs[i := x] ! j = (if i = j then x else xs ! j)"
  by (simp add: nth_list_update)

lemma image_fun_swap:
  assumes "i \<in> A" "j \<in> A"
  shows "(\<lambda>k. if k = i then f j else if k = j then f i else f k) ` A = f ` A"
  using assms by (auto simp: image_iff)

lemma inj_on_fun_swap:
  assumes "i \<in> A" "j \<in> A" "inj_on f A"
  shows "inj_on (\<lambda>k. if k = i then f j else if k = j then f i else f k) A"
  using assms unfolding inj_on_def by metis

section \<open>Blocks of equal size\<close>

text \<open>The block and the position in it after a step by \<open>c\<close>, inside the block and into the next one.\<close>

lemma div_mod_add_same:
  fixes k c m :: nat
  assumes "k mod m + c < m"
  shows "(k + c) div m = k div m" "(k + c) mod m = k mod m + c"
proof -
  have k: "k + c = (k mod m + c) + k div m * m" by simp
  have m: "m \<noteq> 0" using assms by auto
  show "(k + c) div m = k div m" unfolding k div_mult_self1 [OF m] using assms by simp
  show "(k + c) mod m = k mod m + c" unfolding k mod_mult_self1 using assms by simp
qed

lemma div_mod_add_next:
  fixes k c m :: nat
  assumes "m \<le> k mod m + c" "k mod m + c < 2 * m"
  shows "(k + c) div m = Suc (k div m)" "(k + c) mod m = k mod m + c - m"
proof -
  have k: "k + c = (k mod m + c - m) + Suc (k div m) * m" using assms(1) by simp
  have m: "m \<noteq> 0" "k mod m + c - m < m" using assms by auto
  show "(k + c) div m = Suc (k div m)" unfolding k div_mult_self1 [OF m(1)] using m(2) by simp
  show "(k + c) mod m = k mod m + c - m" unfolding k mod_mult_self1 using m(2) by simp
qed

section \<open>Words\<close>

lemma word_nonzero_bit:
  fixes x :: "'a::len word"
  assumes "x \<noteq> 0"
  shows "\<exists>i<LENGTH('a). bit x i"
proof (rule ccontr)
  assume "\<not> ?thesis"
  then have "x = 0" by (intro bit_word_eqI) auto
  with assms show False by simp
qed

lemma word_zero_iff_bits:
  fixes x :: "'a::len word"
  shows "x = 0 \<longleftrightarrow> (\<forall>i<LENGTH('a). \<not> bit x i)"
  using word_nonzero_bit [of x] by auto

section \<open>C integer arithmetic\<close>

text \<open>
  A C \<open>int\<close> whose arithmetic cannot overflow is an \<open>int\<close>; where it can, \<open>int32\<close> reduces the result
  to 32 bits in two's complement, as the compilers of the supported platforms do.  C division
  truncates toward zero.
\<close>

definition LLONG_MAX :: int where "LLONG_MAX = 2 ^ 63 - 1"

definition int32 :: "int \<Rightarrow> int" where
  "int32 x = (x + 2147483648) mod 4294967296 - 2147483648"

definition c_div :: "int \<Rightarrow> int \<Rightarrow> int" where
  "c_div x y = sgn x * sgn y * (\<bar>x\<bar> div \<bar>y\<bar>)"

lemma int32_id: "- 2147483648 \<le> x \<Longrightarrow> x \<le> 2147483647 \<Longrightarrow> int32 x = x"
  by (simp add: int32_def)

lemma c_div_nonneg: "0 \<le> x \<Longrightarrow> 0 < y \<Longrightarrow> c_div x y = x div y"
  by (cases "x = 0") (simp_all add: c_div_def sgn_if)

section \<open>Integers in network byte order\<close>

text \<open>The \<open>n\<close> bytes of a word in memory in network byte order, and the word that such bytes hold.\<close>

definition to_be :: "nat \<Rightarrow> 'a::len word \<Rightarrow> u8 list" where
  "to_be n v = map (\<lambda>i. ucast (drop_bit (8 * i) v)) (rev [0..<n])"

definition of_be :: "u8 list \<Rightarrow> 'a::len word" where
  "of_be p = foldl (\<lambda>v b. push_bit 8 v OR ucast b) 0 p"

lemma length_to_be [simp]: "length (to_be n v) = n"
  by (simp add: to_be_def)

lemma to_be_Suc: "to_be (Suc n) v = to_be n (drop_bit 8 v) @ [ucast v]"
proof -
  have u: "[0..<Suc n] = 0 # map Suc [0..<n]" by (simp add: upt_conv_Cons map_Suc_upt del: upt_Suc)
  have "rev [0..<Suc n] = map Suc (rev [0..<n]) @ [0]" unfolding u by (simp add: rev_map)
  then show ?thesis by (simp add: to_be_def add.commute del: upt_Suc)
qed

lemma of_be_snoc: "of_be (p @ [b]) = push_bit 8 (of_be p) OR ucast b"
  by (simp add: of_be_def)

lemma of_be_to_be: "of_be (to_be n v) = take_bit (8 * n) v"
proof (induction n arbitrary: v)
  case 0
  then show ?case by (simp add: to_be_def of_be_def)
next
  case (Suc n)
  show ?case unfolding to_be_Suc of_be_snoc Suc
  proof (rule bit_word_eqI)
    fix i assume i: "i < LENGTH('a)"
    have u: "bit (ucast (ucast v :: u8) :: 'a word) i \<longleftrightarrow> i < 8 \<and> bit v i"
      using i by (auto simp: bit_ucast_iff dest: bit_imp_le_length)
    show "bit (push_bit 8 (take_bit (8 * n) (drop_bit 8 v)) OR ucast (ucast v :: u8)) i \<longleftrightarrow> bit (take_bit (8 * Suc n) v) i"
      using i by (cases "i < 8") (auto simp: bit_or_iff u bit_push_bit_iff bit_take_bit_iff bit_drop_bit_eq)
  qed
qed

lemma of_be_to_be_full: "LENGTH('a::len) \<le> 8 * n \<Longrightarrow> of_be (to_be n v) = (v :: 'a word)"
  by (simp add: of_be_to_be take_bit_word_eq_self)

end
