(* ===== verification/Heap.thy ===== *)
theory Heap
  imports Prelude
begin

text \<open>
  The max-heap of \<open>lib/heap.c\<close> and \<open>lib/heap.h\<close>: an array of pointers to nodes embedded in the
  client's objects, each node recording its own index.  Elements 1 to \<open>n\<close> of the array hold the
  data; element 0 is unused.  The array is modelled as a list of \<open>allocated + 1\<close> addresses (empty
  while nothing is allocated), the nodes' fields as a store from addresses to \<open>heap_node\<close> records,
  so that the index stored in a node and the array can disagree, as they can in memory.
\<close>

section \<open>State\<close>

record heap_node =
  hn_idx :: nat
  hn_priority :: u64

record heap =
  h_array :: "addr list"
  h_n :: nat
  h_allocated :: nat
  h_mem :: "addr \<Rightarrow> heap_node"

section \<open>Index arithmetic and queries\<close>

definition heap_parent :: "nat \<Rightarrow> nat" where
  "heap_parent idx = idx div 2"

definition heap_left :: "nat \<Rightarrow> nat" where
  "heap_left idx = idx * 2"

definition heap_right :: "nat \<Rightarrow> nat" where
  "heap_right idx = idx * 2 + 1"

definition heap_is_leaf :: "heap \<Rightarrow> nat \<Rightarrow> bool" where
  "heap_is_leaf h idx \<longleftrightarrow> heap_left idx > h_n h"

definition heap_count :: "heap \<Rightarrow> nat" where
  "heap_count h = h_n h"

definition heap_is_empty :: "heap \<Rightarrow> bool" where
  "heap_is_empty h \<longleftrightarrow> h_n h = 0"

definition heap_max :: "heap \<Rightarrow> addr" where
  "heap_max h = h_array h ! 1"

text \<open>\<open>heap->array[i]->priority\<close>.\<close>

definition heap_key :: "heap \<Rightarrow> nat \<Rightarrow> u64" where
  "heap_key h i = hn_priority (h_mem h (h_array h ! i))"

section \<open>Operations\<close>

definition heap_init :: "(addr \<Rightarrow> heap_node) \<Rightarrow> heap" where
  "heap_init mem = \<lparr>h_array = [], h_n = 0, h_allocated = 0, h_mem = mem\<rparr>"

definition heap_clear :: "heap \<Rightarrow> heap" where
  "heap_clear h = h\<lparr>h_n := 0\<rparr>"

text \<open>The exchange of two heaps; each takes its nodes along.\<close>

definition heap_swap :: "heap \<Rightarrow> heap \<Rightarrow> heap \<times> heap" where
  "heap_swap a b = (b, a)"

definition put_node :: "heap \<Rightarrow> addr \<Rightarrow> nat \<Rightarrow> heap" where
  "put_node h x i =
     h\<lparr>h_array := (h_array h)[i := x],
       h_mem := (h_mem h)(x := (h_mem h x)\<lparr>hn_idx := i\<rparr>)\<rparr>"

definition swap_nodes :: "heap \<Rightarrow> nat \<Rightarrow> nat \<Rightarrow> heap" where
  "swap_nodes h i j =
     (let old_i = h_array h ! i;
          old_j = h_array h ! j
      in put_node (put_node h old_j i) old_i j)"

text \<open>The two loops.  \<open>float_up\<close> also returns whether it moved the node.\<close>

function float_up_loop :: "heap \<Rightarrow> nat \<Rightarrow> bool \<Rightarrow> bool \<times> heap" where
  "float_up_loop h i moved =
     (if i > 1 then
        let parent = heap_parent i
        in if heap_key h parent \<ge> heap_key h i then (moved, h)
           else float_up_loop (swap_nodes h parent i) parent True
      else (moved, h))"
  by pat_completeness auto
termination
  by (relation "measure (\<lambda>(h, i, moved). i)") (auto simp: heap_parent_def)

definition float_up :: "heap \<Rightarrow> nat \<Rightarrow> bool \<times> heap" where
  "float_up h i = float_up_loop h i False"

definition float_down_max :: "heap \<Rightarrow> nat \<Rightarrow> nat" where
  "float_down_max h i =
     (let left = heap_left i;
          right = heap_right i;
          max1 = (if heap_key h left > heap_key h i then left else i)
      in if right \<le> h_n h \<and> heap_key h right > heap_key h max1 then right else max1)"

lemma float_down_max_cases:
  assumes "\<not> heap_is_leaf h i" "float_down_max h i \<noteq> i"
  shows "i < float_down_max h i" "float_down_max h i \<le> h_n h"
    "float_down_max h i \<in> {2 * i, 2 * i + 1}"
  using assms
  by (cases i; auto simp: float_down_max_def heap_is_leaf_def heap_left_def heap_right_def Let_def
      split: if_splits)+

lemma h_n_swap_nodes [simp, frame_simps]: "h_n (swap_nodes h i j) = h_n h"
  by (simp add: swap_nodes_def put_node_def Let_def)

function float_down :: "heap \<Rightarrow> nat \<Rightarrow> heap" where
  "float_down h i =
     (if heap_is_leaf h i then h
      else let max = float_down_max h i
           in if max = i then h else float_down (swap_nodes h max i) max)"
  by pat_completeness auto
termination
proof (relation "measure (\<lambda>(h, i). h_n h - i)", goal_cases)
  case (2 h i m)
  then show ?case using float_down_max_cases [of h i] by (auto intro: diff_less_mono2)
qed simp

definition float_up_or_down :: "heap \<Rightarrow> nat \<Rightarrow> heap" where
  "float_up_or_down h i =
     (case float_up h i of (moved, h') \<Rightarrow> if \<not> moved then float_down h' i else h')"

text \<open>
  \<open>xrealloc\<close> keeps the old cells and appends unspecified ones; the filler address 0 below stands
  for them, and nothing reads a cell beyond \<open>n\<close>.
\<close>

definition heap_grow :: "heap \<Rightarrow> heap" where
  "heap_grow h =
     (if h_n h \<ge> h_allocated h then
        let a = (if h_n h = 0 then 1 else 2 * h_n h)
        in h\<lparr>h_allocated := a,
             h_array := take (a + 1) (h_array h) @ replicate (a + 1 - length (h_array h)) 0\<rparr>
      else h)"

definition heap_raw_change :: "heap \<Rightarrow> addr \<Rightarrow> u64 \<Rightarrow> heap" where
  "heap_raw_change h x p = h\<lparr>h_mem := (h_mem h)(x := (h_mem h x)\<lparr>hn_priority := p\<rparr>)\<rparr>"

definition heap_raw_insert :: "heap \<Rightarrow> addr \<Rightarrow> u64 \<Rightarrow> heap" where
  "heap_raw_insert h x p =
     (let h1 = heap_grow h;
          h2 = h1\<lparr>h_n := h_n h1 + 1\<rparr>;
          h3 = put_node h2 x (h_n h2)
      in h3\<lparr>h_mem := (h_mem h3)(x := (h_mem h3 x)\<lparr>hn_priority := p\<rparr>)\<rparr>)"

definition heap_raw_remove :: "heap \<Rightarrow> addr \<Rightarrow> heap" where
  "heap_raw_remove h x =
     (let i = hn_idx (h_mem h x);
          h1 = (if i < h_n h then put_node h (h_array h ! h_n h) i else h)
      in h1\<lparr>h_n := h_n h1 - 1\<rparr>)"

definition heap_insert :: "heap \<Rightarrow> addr \<Rightarrow> u64 \<Rightarrow> heap" where
  "heap_insert h x p =
     (let h1 = heap_raw_insert h x p in snd (float_up h1 (hn_idx (h_mem h1 x))))"

definition heap_remove :: "heap \<Rightarrow> addr \<Rightarrow> heap" where
  "heap_remove h x =
     (let i = hn_idx (h_mem h x);
          h1 = heap_raw_remove h x
      in if i \<le> h_n h1 then float_up_or_down h1 i else h1)"

definition heap_change :: "heap \<Rightarrow> addr \<Rightarrow> u64 \<Rightarrow> heap" where
  "heap_change h x p =
     (let h1 = heap_raw_change h x p in float_up_or_down h1 (hn_idx (h_mem h1 x)))"

fun heap_rebuild_loop :: "heap \<Rightarrow> nat \<Rightarrow> heap" where
  "heap_rebuild_loop h 0 = h"
| "heap_rebuild_loop h (Suc i) = heap_rebuild_loop (float_down h (Suc i)) i"

definition heap_rebuild :: "heap \<Rightarrow> heap" where
  "heap_rebuild h = heap_rebuild_loop h (h_n h div 2)"

definition heap_pop :: "heap \<Rightarrow> addr \<times> heap" where
  "heap_pop h = (h_array h ! h_n h, h\<lparr>h_n := h_n h - 1\<rparr>)"


declare float_up_loop.simps [simp del] float_down.simps [simp del]

section \<open>Invariants and abstraction\<close>

text \<open>
  \<open>heap_wf\<close>: the array is large enough and every node in it records its own position.
  \<open>heap_ordered_from m\<close>: no node below a parent of index at least \<open>m\<close> outranks that parent; the
  heap property proper is \<open>m = 1\<close>.  \<open>heap_contents\<close> is what the heap holds: the priority of each
  of its nodes.
\<close>

definition heap_wf :: "heap \<Rightarrow> bool" where
  "heap_wf h \<longleftrightarrow>
     h_n h \<le> h_allocated h \<and>
     length (h_array h) = (if h_allocated h = 0 then 0 else h_allocated h + 1) \<and>
     (\<forall>i\<in>{1..h_n h}. hn_idx (h_mem h (h_array h ! i)) = i)"

definition heap_ordered_from :: "nat \<Rightarrow> heap \<Rightarrow> bool" where
  "heap_ordered_from m h \<longleftrightarrow>
     (\<forall>k\<in>{2..h_n h}. m \<le> k div 2 \<longrightarrow> heap_key h k \<le> heap_key h (k div 2))"

definition heap_inv :: "heap \<Rightarrow> bool" where
  "heap_inv h \<longleftrightarrow> heap_wf h \<and> heap_ordered_from 1 h"

definition heap_nodes :: "heap \<Rightarrow> addr set" where
  "heap_nodes h = (\<lambda>i. h_array h ! i) ` {1..h_n h}"

definition heap_contents :: "heap \<Rightarrow> addr \<rightharpoonup> u64" where
  "heap_contents h x = (if x \<in> heap_nodes h then Some (hn_priority (h_mem h x)) else None)"

text \<open>\<open>heap_perm h h'\<close>: \<open>h'\<close> holds the same nodes with the same priorities, perhaps elsewhere.\<close>

definition heap_perm :: "heap \<Rightarrow> heap \<Rightarrow> bool" where
  "heap_perm h h' \<longleftrightarrow>
     h_n h' = h_n h \<and> h_allocated h' = h_allocated h \<and> length (h_array h') = length (h_array h) \<and>
     heap_nodes h' = heap_nodes h \<and>
     (\<forall>x. hn_priority (h_mem h' x) = hn_priority (h_mem h x)) \<and> heap_wf h'"

section \<open>Swapping two nodes\<close>

lemma heap_wf_index:
  "heap_wf h \<Longrightarrow> 1 \<le> i \<Longrightarrow> i \<le> h_n h \<Longrightarrow> i < length (h_array h)"
  by (auto simp: heap_wf_def)

lemma heap_wf_idx:
  "heap_wf h \<Longrightarrow> 1 \<le> i \<Longrightarrow> i \<le> h_n h \<Longrightarrow> hn_idx (h_mem h (h_array h ! i)) = i"
  by (simp add: heap_wf_def)

lemma heap_wf_inj:
  "heap_wf h \<Longrightarrow> 1 \<le> i \<Longrightarrow> i \<le> h_n h \<Longrightarrow> 1 \<le> j \<Longrightarrow> j \<le> h_n h \<Longrightarrow>
    h_array h ! i = h_array h ! j \<longleftrightarrow> i = j"
  by (metis heap_wf_idx)

lemma heap_wf_node:
  assumes "heap_wf h" "x \<in> heap_nodes h"
  shows "1 \<le> hn_idx (h_mem h x)" "hn_idx (h_mem h x) \<le> h_n h"
    "h_array h ! hn_idx (h_mem h x) = x"
  using assms by (auto simp: heap_nodes_def heap_wf_idx)

lemma swap_nodes_array [simp]:
  "h_array (swap_nodes h i j) = (h_array h)[i := h_array h ! j, j := h_array h ! i]"
  by (simp add: swap_nodes_def put_node_def Let_def)

lemma swap_nodes_allocated [simp, frame_simps]: "h_allocated (swap_nodes h i j) = h_allocated h"
  by (simp add: swap_nodes_def put_node_def Let_def)

lemma swap_nodes_priority [simp, frame_simps]:
  "hn_priority (h_mem (swap_nodes h i j) x) = hn_priority (h_mem h x)"
  by (simp add: swap_nodes_def put_node_def Let_def)

lemma swap_nodes_idx:
  "hn_idx (h_mem (swap_nodes h i j) x) =
     (if x = h_array h ! i then j else if x = h_array h ! j then i else hn_idx (h_mem h x))"
  by (simp add: swap_nodes_def put_node_def Let_def)

lemma swap_nodes_key:
  assumes "i < length (h_array h)" "j < length (h_array h)"
  shows "heap_key (swap_nodes h i j) k =
     (if k = i then heap_key h j else if k = j then heap_key h i else heap_key h k)"
  using assms by (auto simp: heap_key_def nth_list_update_if)

lemma swap_nodes_perm:
  assumes "heap_wf h" "1 \<le> i" "i \<le> h_n h" "1 \<le> j" "j \<le> h_n h"
  shows "heap_perm h (swap_nodes h i j)"
proof -
  have len: "i < length (h_array h)" "j < length (h_array h)"
    using assms by (auto intro: heap_wf_index)
  then have nth: "h_array (swap_nodes h i j) ! k =
      (if k = i then h_array h ! j else if k = j then h_array h ! i else h_array h ! k)" for k
    by (auto simp: nth_list_update_if)
  have "heap_nodes (swap_nodes h i j) = heap_nodes h"
    unfolding heap_nodes_def nth using assms image_fun_swap [of i "{1..h_n h}" j] by simp
  moreover have "heap_wf (swap_nodes h i j)"
    unfolding heap_wf_def
  proof (intro conjI ballI)
    fix k assume k: "k \<in> {1..h_n (swap_nodes h i j)}"
    then show "hn_idx (h_mem (swap_nodes h i j) (h_array (swap_nodes h i j) ! k)) = k"
      using assms by (auto simp: nth swap_nodes_idx heap_wf_inj heap_wf_idx simp del: swap_nodes_array)
  qed (use assms in \<open>simp_all add: heap_wf_def\<close>)
  ultimately show ?thesis by (simp add: heap_perm_def)
qed

lemma heap_perm_refl: "heap_wf h \<Longrightarrow> heap_perm h h"
  by (simp add: heap_perm_def)

lemma heap_perm_trans: "heap_perm h h' \<Longrightarrow> heap_perm h' h'' \<Longrightarrow> heap_perm h h''"
  by (simp add: heap_perm_def)

lemma heap_perm_wf: "heap_perm h h' \<Longrightarrow> heap_wf h'"
  by (simp add: heap_perm_def)

lemma heap_perm_n: "heap_perm h h' \<Longrightarrow> h_n h' = h_n h"
  by (simp add: heap_perm_def)

lemma heap_perm_contents: "heap_perm h h' \<Longrightarrow> heap_contents h' = heap_contents h"
  by (auto simp: heap_perm_def heap_contents_def)

section \<open>The two loops\<close>

lemma float_up_loop_perm:
  "heap_wf h \<Longrightarrow> 1 \<le> i \<Longrightarrow> i \<le> h_n h \<Longrightarrow> heap_perm h (snd (float_up_loop h i moved))"
proof (induction h i moved rule: float_up_loop.induct)
  case (1 h i moved)
  show ?case
  proof (cases "1 < i \<and> \<not> heap_key h (heap_parent i) \<ge> heap_key h i")
    case True
    have p: "1 \<le> heap_parent i" "heap_parent i \<le> h_n h"
      using True 1(4) by (auto simp: heap_parent_def)
    then have sw: "heap_perm h (swap_nodes h (heap_parent i) i)"
      using 1 by (intro swap_nodes_perm) auto
    have "heap_perm (swap_nodes h (heap_parent i) i)
        (snd (float_up_loop (swap_nodes h (heap_parent i) i) (heap_parent i) True))"
      using True p 1(1) [OF _ refl] heap_perm_wf [OF sw] by auto
    with sw True show ?thesis
      by (subst float_up_loop.simps) (auto simp: Let_def intro: heap_perm_trans)
  next
    case False
    then show ?thesis using 1(2) by (subst float_up_loop.simps) (auto simp: Let_def heap_perm_refl)
  qed
qed

text \<open>Before \<open>float_up\<close>, only the edge from \<open>i\<close> to its parent may be out of order.\<close>

definition up_ready :: "heap \<Rightarrow> nat \<Rightarrow> bool" where
  "up_ready h i \<longleftrightarrow>
     (\<forall>k. 2 \<le> k \<and> k \<le> h_n h \<and> k \<noteq> i \<longrightarrow> heap_key h k \<le> heap_key h (k div 2)) \<and>
     (\<forall>k. 2 \<le> k \<and> k \<le> h_n h \<and> k div 2 = i \<and> 2 \<le> i \<longrightarrow> heap_key h k \<le> heap_key h (i div 2))"

lemma up_ready_swap:
  assumes wf: "heap_wf h" and i: "1 < i" "i \<le> h_n h" and ready: "up_ready h i"
    and less: "heap_key h (i div 2) < heap_key h i"
  shows "up_ready (swap_nodes h (i div 2) i) (i div 2)"
proof -
  define p where "p = i div 2"
  have p: "1 \<le> p" "p < i" "p \<le> h_n h" using i by (auto simp: p_def)
  have len: "p < length (h_array h)" "i < length (h_array h)"
    using wf i p heap_wf_index [of h] by auto
  note key = swap_nodes_key [OF len]
  have up: "heap_key h k \<le> heap_key h (k div 2)" if "2 \<le> k" "k \<le> h_n h" "k \<noteq> i" for k
    using ready that by (auto simp: up_ready_def)
  have down: "heap_key h k \<le> heap_key h p" if "2 \<le> k" "k \<le> h_n h" "k div 2 = i" for k
    using ready that i by (auto simp: up_ready_def p_def)
  have "heap_key (swap_nodes h p i) k \<le> heap_key (swap_nodes h p i) (k div 2)"
    if k: "2 \<le> k" "k \<le> h_n h" "k \<noteq> p" for k
  proof -
    consider "k = i" | "k \<noteq> i" "k div 2 = i" | "k \<noteq> i" "k div 2 = p" | "k \<noteq> i" "k div 2 \<noteq> i" "k div 2 \<noteq> p"
      by blast
    then show ?thesis
    proof cases
      case 1 then show ?thesis using less p by (auto simp: key p_def [symmetric])
    next
      case 2 then show ?thesis using down [of k] k p by (auto simp: key)
    next
      case 3 then show ?thesis using up [of k] k p less by (auto simp: key p_def [symmetric])
    next
      case 4 then show ?thesis using up [of k] k p by (auto simp: key)
    qed
  qed
  moreover have "heap_key (swap_nodes h p i) k \<le> heap_key (swap_nodes h p i) (p div 2)"
    if k: "2 \<le> k" "k \<le> h_n h" "k div 2 = p" "2 \<le> p" for k
  proof -
    have "p div 2 \<noteq> p" "p div 2 \<noteq> i" "k \<noteq> p" using k p by auto
    moreover have "heap_key h p \<le> heap_key h (p div 2)" using up [of p] k p by simp
    ultimately show ?thesis using up [of k] k p by (auto simp: key)
  qed
  ultimately show ?thesis by (auto simp: up_ready_def p_def)
qed

lemma float_up_loop_ordered:
  "heap_wf h \<Longrightarrow> 1 \<le> i \<Longrightarrow> i \<le> h_n h \<Longrightarrow> up_ready h i \<Longrightarrow>
    heap_ordered_from 1 (snd (float_up_loop h i moved))"
proof (induction h i moved rule: float_up_loop.induct)
  case (1 h i moved)
  show ?case
  proof (cases "1 < i \<and> \<not> heap_key h (heap_parent i) \<ge> heap_key h i")
    case True
    have p: "1 \<le> heap_parent i" "heap_parent i \<le> h_n h"
      using True 1(4) by (auto simp: heap_parent_def)
    then have "heap_wf (swap_nodes h (heap_parent i) i)"
      using 1 by (intro heap_perm_wf [OF swap_nodes_perm]) auto
    moreover have "up_ready (swap_nodes h (heap_parent i) i) (heap_parent i)"
      using True 1 up_ready_swap [of h i] by (auto simp: heap_parent_def)
    ultimately show ?thesis
      using True p 1(1) [OF _ refl] by (subst float_up_loop.simps) (auto simp: Let_def)
  next
    case False
    then have "heap_ordered_from 1 h"
      using 1 by (auto simp: heap_ordered_from_def up_ready_def heap_parent_def)
    with False show ?thesis by (subst float_up_loop.simps) (auto simp: Let_def)
  qed
qed

text \<open>
  Before \<open>float_down\<close>, only the edges from \<open>i\<close> to its children may be out of order among those
  below parents of index at least \<open>m\<close>.
\<close>

definition down_ready :: "nat \<Rightarrow> heap \<Rightarrow> nat \<Rightarrow> bool" where
  "down_ready m h i \<longleftrightarrow>
     (\<forall>k. 2 \<le> k \<and> k \<le> h_n h \<and> m \<le> k div 2 \<and> k div 2 \<noteq> i \<longrightarrow> heap_key h k \<le> heap_key h (k div 2)) \<and>
     (\<forall>k. 2 \<le> k \<and> k \<le> h_n h \<and> k div 2 = i \<and> 2 \<le> i \<and> m \<le> i div 2 \<longrightarrow>
        heap_key h k \<le> heap_key h (i div 2))"

lemma float_down_max_key:
  assumes "1 \<le> i" "\<not> heap_is_leaf h i" "2 \<le> k" "k \<le> h_n h" "k div 2 = i"
  shows "heap_key h k \<le> heap_key h (float_down_max h i)"
proof -
  have "k = 2 * i \<or> k = 2 * i + 1" using assms by auto
  then show ?thesis using assms
    by (auto simp: float_down_max_def heap_left_def heap_right_def Let_def not_less mult.commute
        dest: order.strict_implies_order)
qed

lemma float_down_max_ge: "heap_key h i \<le> heap_key h (float_down_max h i)"
  by (auto simp: float_down_max_def Let_def)

lemma down_ready_stop:
  assumes "1 \<le> i" "down_ready m h i" "heap_is_leaf h i \<or> float_down_max h i = i"
  shows "heap_ordered_from m h"
  unfolding heap_ordered_from_def
proof (intro ballI impI)
  fix k assume "k \<in> {2..h_n h}" "m \<le> k div 2"
  then have k: "2 \<le> k \<and> k \<le> h_n h \<and> m \<le> k div 2" by simp
  show "heap_key h k \<le> heap_key h (k div 2)"
  proof (cases "k div 2 = i")
    case True
    then have "\<not> heap_is_leaf h i" using k by (auto simp: heap_is_leaf_def heap_left_def)
    with True k assms show ?thesis using float_down_max_key [of i h k] by auto
  next
    case False
    with k assms show ?thesis by (auto simp: down_ready_def)
  qed
qed

lemma down_ready_swap:
  assumes wf: "heap_wf h" and i: "1 \<le> i" "i \<le> h_n h" and leaf: "\<not> heap_is_leaf h i"
    and ready: "down_ready m h i" and ne: "float_down_max h i \<noteq> i" and mi: "m \<le> i"
  shows "down_ready m (swap_nodes h (float_down_max h i) i) (float_down_max h i)"
proof -
  define c where "c = float_down_max h i"
  have c: "i < c" "c \<le> h_n h" "c div 2 = i"
    using float_down_max_cases [OF leaf ne] i by (auto simp: c_def)
  have len: "c < length (h_array h)" "i < length (h_array h)"
    using wf i c heap_wf_index [of h] by auto
  note key = swap_nodes_key [OF len]
  have ok: "heap_key h k \<le> heap_key h (k div 2)"
    if "2 \<le> k" "k \<le> h_n h" "m \<le> k div 2" "k div 2 \<noteq> i" for k
    using ready that by (auto simp: down_ready_def)
  have top: "heap_key h k \<le> heap_key h c" if "2 \<le> k" "k \<le> h_n h" "k div 2 = i" for k
    using float_down_max_key [OF i(1) leaf that] by (simp add: c_def)
  have "heap_key (swap_nodes h c i) k \<le> heap_key (swap_nodes h c i) (k div 2)"
    if k: "2 \<le> k" "k \<le> h_n h" "m \<le> k div 2" "k div 2 \<noteq> c" for k
  proof (cases "k div 2 = i")
    case True
    then show ?thesis
      using top [of k] float_down_max_ge [of h i] k c by (auto simp: key c_def [symmetric])
  next
    case False
    have "k \<noteq> c" using False c by auto
    show ?thesis
    proof (cases "k = i")
      case True
      then have "heap_key h c \<le> heap_key h (i div 2)"
        using ready k c by (auto simp: down_ready_def)
      then show ?thesis using True k c by (auto simp: key)
    next
      case False
      then show ?thesis using ok [of k] k \<open>k div 2 \<noteq> i\<close> \<open>k \<noteq> c\<close> by (auto simp: key)
    qed
  qed
  moreover have "heap_key (swap_nodes h c i) k \<le> heap_key (swap_nodes h c i) (c div 2)"
    if k: "2 \<le> k" "k \<le> h_n h" "k div 2 = c" for k
  proof -
    have "heap_key h k \<le> heap_key h c" using ok [of k] k c mi by auto
    moreover have "k \<noteq> c" "k \<noteq> i" using k c by auto
    ultimately show ?thesis using c by (auto simp: key)
  qed
  ultimately show ?thesis by (auto simp: down_ready_def c_def)
qed

lemma float_down_perm:
  "heap_wf h \<Longrightarrow> 1 \<le> i \<Longrightarrow> i \<le> h_n h \<Longrightarrow> heap_perm h (float_down h i)"
proof (induction h i rule: float_down.induct)
  case (1 h i)
  show ?case
  proof (cases "heap_is_leaf h i \<or> float_down_max h i = i")
    case True
    then show ?thesis using 1(2) by (subst float_down.simps) (auto simp: Let_def heap_perm_refl)
  next
    case False
    then have c: "i < float_down_max h i" "float_down_max h i \<le> h_n h"
      using float_down_max_cases by auto
    then have sw: "heap_perm h (swap_nodes h (float_down_max h i) i)"
      using 1 by (intro swap_nodes_perm) auto
    have "heap_perm (swap_nodes h (float_down_max h i) i)
        (float_down (swap_nodes h (float_down_max h i) i) (float_down_max h i))"
      using False c 1 heap_perm_wf [OF sw] by auto
    with sw False show ?thesis
      by (subst float_down.simps) (auto simp: Let_def intro: heap_perm_trans)
  qed
qed

lemma float_down_ordered:
  "heap_wf h \<Longrightarrow> 1 \<le> i \<Longrightarrow> i \<le> h_n h \<Longrightarrow> m \<le> i \<Longrightarrow> down_ready m h i \<Longrightarrow>
    heap_ordered_from m (float_down h i)"
proof (induction h i rule: float_down.induct)
  case (1 h i)
  show ?case
  proof (cases "heap_is_leaf h i \<or> float_down_max h i = i")
    case True
    then show ?thesis using 1 down_ready_stop by (subst float_down.simps) (auto simp: Let_def)
  next
    case False
    then have c: "i < float_down_max h i" "float_down_max h i \<le> h_n h"
      using float_down_max_cases by auto
    then have "heap_wf (swap_nodes h (float_down_max h i) i)"
      using 1 by (intro heap_perm_wf [OF swap_nodes_perm]) auto
    moreover have "down_ready m (swap_nodes h (float_down_max h i) i) (float_down_max h i)"
      using False 1 by (intro down_ready_swap) auto
    ultimately show ?thesis using False c 1 by (subst float_down.simps) (auto simp: Let_def)
  qed
qed

section \<open>Repairing the order around one index\<close>

definition fix_ready :: "heap \<Rightarrow> nat \<Rightarrow> bool" where
  "fix_ready h i \<longleftrightarrow>
     (\<forall>k. 2 \<le> k \<and> k \<le> h_n h \<and> k \<noteq> i \<and> k div 2 \<noteq> i \<longrightarrow> heap_key h k \<le> heap_key h (k div 2)) \<and>
     (\<forall>k. 2 \<le> k \<and> k \<le> h_n h \<and> k div 2 = i \<and> 2 \<le> i \<longrightarrow> heap_key h k \<le> heap_key h (i div 2))"

lemma float_up_loop_True: "fst (float_up_loop h i True)"
  by (induction h i "True" rule: float_up_loop.induct)
    (subst float_up_loop.simps, auto simp: Let_def)

lemma float_up_moved_iff:
  "fst (float_up h i) \<longleftrightarrow> 1 < i \<and> heap_key h (i div 2) < heap_key h i"
  unfolding float_up_def
  by (subst float_up_loop.simps) (auto simp: Let_def float_up_loop_True heap_parent_def)

lemma float_up_not_moved: "\<not> fst (float_up h i) \<Longrightarrow> float_up h i = (False, h)"
  using float_up_moved_iff [of h i] float_up_loop.simps [of h i False]
  by (auto simp: float_up_def Let_def heap_parent_def)

lemma float_up_or_down_correct:
  assumes wf: "heap_wf h" and i: "1 \<le> i" "i \<le> h_n h" and ready: "fix_ready h i"
  shows "heap_perm h (float_up_or_down h i)" "heap_ordered_from 1 (float_up_or_down h i)"
proof -
  have "heap_perm h (float_up_or_down h i) \<and> heap_ordered_from 1 (float_up_or_down h i)"
  proof (cases "fst (float_up h i)")
    case True
    then have "1 < i" and less: "heap_key h (i div 2) < heap_key h i"
      by (auto simp: float_up_moved_iff)
    have "heap_key h k \<le> heap_key h (k div 2)" if "2 \<le> k" "k \<le> h_n h" "k \<noteq> i" for k
      using ready that less \<open>1 < i\<close>
      by (cases "k div 2 = i") (auto simp: fix_ready_def intro: order.trans less_imp_le)
    then have "up_ready h i" using ready by (auto simp: up_ready_def fix_ready_def)
    moreover have "float_up_or_down h i = snd (float_up_loop h i False)"
      using True by (auto simp: float_up_or_down_def float_up_def split: prod.splits)
    ultimately show ?thesis
      using float_up_loop_perm [OF wf i] float_up_loop_ordered [OF wf i] by simp
  next
    case False
    then have "i \<le> 1 \<or> heap_key h i \<le> heap_key h (i div 2)"
      by (auto simp: float_up_moved_iff)
    then have "down_ready 1 h i"
      using ready unfolding down_ready_def fix_ready_def
      by (metis One_nat_def Suc_1 not_less_eq_eq)
    moreover have "float_up_or_down h i = float_down h i"
      using float_up_not_moved [OF False] by (simp add: float_up_or_down_def)
    ultimately show ?thesis
      using float_down_perm [OF wf i] float_down_ordered [OF wf i] i by simp
  qed
  then show "heap_perm h (float_up_or_down h i)" "heap_ordered_from 1 (float_up_or_down h i)"
    by auto
qed

section \<open>The raw operations\<close>

lemma heap_nodes_finite: "finite (heap_nodes h)"
  by (simp add: heap_nodes_def)

lemma heap_contents_eq_None: "heap_contents h x = None \<longleftrightarrow> x \<notin> heap_nodes h"
  by (simp add: heap_contents_def)

lemma heap_contents_nth:
  "1 \<le> i \<Longrightarrow> i \<le> h_n h \<Longrightarrow> heap_contents h (h_array h ! i) = Some (heap_key h i)"
  by (auto simp: heap_contents_def heap_nodes_def heap_key_def)

lemma heap_grow_frame [simp]:
  "h_n (heap_grow h) = h_n h" "h_mem (heap_grow h) = h_mem h"
  by (simp_all add: heap_grow_def Let_def)

lemma heap_grow_nth:
  "heap_wf h \<Longrightarrow> i \<le> h_n h \<Longrightarrow> 1 \<le> i \<Longrightarrow> h_array (heap_grow h) ! i = h_array h ! i"
  using heap_wf_index [of h i] by (auto simp: heap_grow_def Let_def nth_append)

lemma heap_grow_length:
  "heap_wf h \<Longrightarrow> length (h_array (heap_grow h)) = h_allocated (heap_grow h) + 1"
  "heap_wf h \<Longrightarrow> h_n h < h_allocated (heap_grow h)"
  by (auto simp: heap_grow_def heap_wf_def Let_def)

lemma heap_raw_insert_correct:
  fixes p :: u64
  assumes wf: "heap_wf h" and x: "x \<notin> heap_nodes h"
  defines "h' \<equiv> heap_raw_insert h x p"
  shows "heap_wf h'" "h_n h' = h_n h + 1" "hn_idx (h_mem h' x) = h_n h + 1"
    "heap_contents h' = (heap_contents h)(x \<mapsto> p)"
    "\<And>k. 1 \<le> k \<Longrightarrow> k \<le> h_n h \<Longrightarrow> heap_key h' k = heap_key h k"
proof -
  note len = heap_grow_length [OF wf]
  have arr: "h_array h' ! k = (if k = h_n h + 1 then x else h_array h ! k)"
    if "1 \<le> k" "k \<le> h_n h + 1" for k
    using that wf len
    by (auto simp: h'_def heap_raw_insert_def put_node_def Let_def nth_list_update_if heap_grow_nth)
  have mem: "h_mem h' y = (if y = x then \<lparr>hn_idx = h_n h + 1, hn_priority = p, \<dots> = heap_node.more (h_mem h x)\<rparr>
      else h_mem h y)" for y
    by (auto simp: h'_def heap_raw_insert_def put_node_def Let_def)
  show n: "h_n h' = h_n h + 1"
    by (simp add: h'_def heap_raw_insert_def put_node_def Let_def)
  show "hn_idx (h_mem h' x) = h_n h + 1" by (simp add: mem)
  have alloc: "h_allocated h' = h_allocated (heap_grow h)" "length (h_array h') = length (h_array (heap_grow h))"
    by (simp_all add: h'_def heap_raw_insert_def put_node_def Let_def)
  have notx: "h_array h ! k \<noteq> x" "x \<noteq> h_array h ! k" if "1 \<le> k" "k \<le> h_n h" for k
    using x that by (auto simp: heap_nodes_def)
  show "heap_wf h'"
    unfolding heap_wf_def using len
    by (auto simp: n alloc arr mem notx heap_wf_idx [OF wf] le_Suc_eq)
  have "{1..h_n h + 1} = insert (h_n h + 1) {1..h_n h}" by auto
  then have "heap_nodes h' = insert x (heap_nodes h)"
    unfolding heap_nodes_def n using arr by (auto simp: image_iff)
  then show "heap_contents h' = (heap_contents h)(x \<mapsto> p)"
    by (auto simp: heap_contents_def mem)
  show "heap_key h' k = heap_key h k" if "1 \<le> k" "k \<le> h_n h" for k
    using that notx by (auto simp: heap_key_def arr mem)
qed

lemma heap_raw_remove_correct:
  assumes wf: "heap_wf h" and x: "x \<in> heap_nodes h"
  defines "h' \<equiv> heap_raw_remove h x" and "i \<equiv> hn_idx (h_mem h x)"
  shows "heap_wf h'" "h_n h' = h_n h - 1" "heap_contents h' = (heap_contents h)(x := None)"
    "\<And>k. 1 \<le> k \<Longrightarrow> k < h_n h \<Longrightarrow> heap_key h' k = heap_key h (if k = i then h_n h else k)"
proof -
  note xi = heap_wf_node [OF wf x, folded i_def]
  have len: "i < length (h_array h)" using xi by (auto intro: heap_wf_index [OF wf])
  show n: "h_n h' = h_n h - 1"
    by (simp add: h'_def heap_raw_remove_def put_node_def Let_def)
  have arr: "h_array h' ! k = h_array h ! (if k = i then h_n h else k)" if "1 \<le> k" "k < h_n h" for k
    using that len
    by (auto simp: h'_def heap_raw_remove_def put_node_def Let_def nth_list_update_if i_def)
  have prio: "hn_priority (h_mem h' y) = hn_priority (h_mem h y)" for y
    by (simp add: h'_def heap_raw_remove_def put_node_def Let_def)
  have idx: "hn_idx (h_mem h' (h_array h' ! k)) = k" if k: "1 \<le> k" "k < h_n h" for k
  proof (cases "k = i")
    case True
    then show ?thesis using k len
      by (simp add: h'_def heap_raw_remove_def put_node_def Let_def i_def)
  next
    case False
    then show ?thesis using k heap_wf_inj [OF wf, of k "h_n h"] heap_wf_idx [OF wf, of k]
      by (simp add: arr) (simp add: h'_def heap_raw_remove_def put_node_def Let_def)
  qed
  have "h_allocated h' = h_allocated h" "length (h_array h') = length (h_array h)"
    by (simp_all add: h'_def heap_raw_remove_def put_node_def Let_def)
  then show "heap_wf h'"
    unfolding heap_wf_def using wf idx xi by (auto simp: n heap_wf_def)
  have "heap_nodes h' = heap_nodes h - {x}"
  proof -
    have "(\<lambda>k. h_array h' ! k) ` {1..h_n h - 1} = (\<lambda>k. h_array h ! (if k = i then h_n h else k)) ` {1..h_n h - 1}"
      using arr by (intro image_cong) auto
    also have "\<dots> = (\<lambda>k. h_array h ! k) ` ((\<lambda>k. if k = i then h_n h else k) ` {1..h_n h - 1})"
      by (simp only: image_image)
    also have "(\<lambda>k. if k = i then h_n h else k) ` {1..h_n h - 1} = {1..h_n h} - {i}"
      using xi by (auto simp: image_iff)
    also have "(\<lambda>k. h_array h ! k) ` ({1..h_n h} - {i}) = heap_nodes h - {x}"
      using xi heap_wf_inj [OF wf] by (auto simp: heap_nodes_def)
    finally show ?thesis by (simp add: heap_nodes_def n)
  qed
  then show "heap_contents h' = (heap_contents h)(x := None)"
    by (simp add: fun_eq_iff heap_contents_def prio)
  show "heap_key h' k = heap_key h (if k = i then h_n h else k)" if "1 \<le> k" "k < h_n h" for k
    using that by (simp add: heap_key_def arr prio)
qed

section \<open>The client operations\<close>

lemma heap_inv_perm:
  "heap_perm h h' \<Longrightarrow> heap_ordered_from 1 h' \<Longrightarrow> heap_inv h'"
  by (simp add: heap_inv_def heap_perm_wf)

lemma heap_orderedD:
  "heap_inv h \<Longrightarrow> 2 \<le> k \<Longrightarrow> k \<le> h_n h \<Longrightarrow> heap_key h k \<le> heap_key h (k div 2)"
  by (auto simp: heap_inv_def heap_ordered_from_def)

lemma heap_key_le_root: "heap_inv h \<Longrightarrow> 1 \<le> k \<Longrightarrow> k \<le> h_n h \<Longrightarrow> heap_key h k \<le> heap_key h 1"
proof (induction k rule: less_induct)
  case (less k)
  show ?case
  proof (cases "k = 1")
    case False
    then have "heap_key h k \<le> heap_key h (k div 2)" using less by (intro heap_orderedD) auto
    also have "\<dots> \<le> heap_key h 1" using less False by (intro less.IH) auto
    finally show ?thesis .
  qed simp
qed

lemma heap_key_grandparent:
  assumes "heap_inv h" "2 \<le> k" "k \<le> h_n h" "2 \<le> k div 2"
  shows "heap_key h k \<le> heap_key h (k div 2 div 2)"
  using assms heap_orderedD [of h k] heap_orderedD [of h "k div 2"] by force

lemma heap_init_correct: "heap_inv (heap_init mem)" "heap_contents (heap_init mem) = Map.empty"
  by (auto simp: heap_init_def heap_inv_def heap_wf_def heap_ordered_from_def heap_contents_def
      heap_nodes_def fun_eq_iff)

lemma heap_clear_correct:
  "heap_inv h \<Longrightarrow> heap_inv (heap_clear h)" "heap_contents (heap_clear h) = Map.empty"
  by (auto simp: heap_clear_def heap_inv_def heap_wf_def heap_ordered_from_def heap_contents_def
      heap_nodes_def fun_eq_iff)

lemma heap_insert_correct:
  assumes inv: "heap_inv h" and x: "heap_contents h x = None"
  shows "heap_inv (heap_insert h x p)"
    "heap_contents (heap_insert h x p) = (heap_contents h)(x \<mapsto> p)"
proof -
  define h1 where "h1 = heap_raw_insert h x p"
  have wf: "heap_wf h" using inv by (simp add: heap_inv_def)
  note raw = heap_raw_insert_correct [OF wf, where x = x and p = p, folded h1_def]
  have x': "x \<notin> heap_nodes h" using x by (simp add: heap_contents_eq_None)
  have "up_ready h1 (h_n h1)"
    using raw(2,5) [OF x'] heap_orderedD [OF inv] by (auto simp: up_ready_def)
  then have "heap_perm h1 (heap_insert h x p)" "heap_ordered_from 1 (heap_insert h x p)"
    using raw [OF x'] float_up_loop_perm [of h1 "h_n h1"] float_up_loop_ordered [of h1 "h_n h1"]
    by (auto simp: heap_insert_def h1_def [symmetric] Let_def float_up_def)
  then show "heap_inv (heap_insert h x p)"
    "heap_contents (heap_insert h x p) = (heap_contents h)(x \<mapsto> p)"
    using raw(4) [OF x'] by (auto simp: heap_inv_perm heap_perm_contents)
qed

lemma heap_remove_correct:
  assumes inv: "heap_inv h" and x: "heap_contents h x \<noteq> None"
  shows "heap_inv (heap_remove h x)"
    "heap_contents (heap_remove h x) = (heap_contents h)(x := None)"
proof -
  define h1 where "h1 = heap_raw_remove h x"
  define i where "i = hn_idx (h_mem h x)"
  have wf: "heap_wf h" using inv by (simp add: heap_inv_def)
  have x': "x \<in> heap_nodes h" using x by (simp add: heap_contents_eq_None)
  note raw = heap_raw_remove_correct [OF wf x', folded h1_def i_def]
  note i = heap_wf_node [OF wf x', folded i_def]
  have "heap_perm h1 (heap_remove h x) \<and> heap_ordered_from 1 (heap_remove h x)"
  proof (cases "i \<le> h_n h1")
    case True
    have "fix_ready h1 i"
      using raw(2,4) heap_orderedD [OF inv] heap_key_grandparent [OF inv]
      by (auto simp: fix_ready_def)
    with True i raw(1) show ?thesis
      using float_up_or_down_correct [of h1 i]
      by (simp add: heap_remove_def h1_def [symmetric] i_def [symmetric] Let_def)
  next
    case False
    then have "heap_ordered_from 1 h1"
      using raw(2,4) heap_orderedD [OF inv] by (auto simp: heap_ordered_from_def)
    with False show ?thesis
      by (simp add: heap_remove_def h1_def [symmetric] i_def [symmetric] Let_def heap_perm_refl raw(1))
  qed
  then show "heap_inv (heap_remove h x)"
    "heap_contents (heap_remove h x) = (heap_contents h)(x := None)"
    using raw(3) by (auto simp: heap_inv_perm heap_perm_contents)
qed

lemma heap_change_correct:
  assumes inv: "heap_inv h" and x: "heap_contents h x \<noteq> None"
  shows "heap_inv (heap_change h x p)"
    "heap_contents (heap_change h x p) = (heap_contents h)(x \<mapsto> p)"
proof -
  define h1 where "h1 = heap_raw_change h x p"
  define i where "i = hn_idx (h_mem h x)"
  have wf: "heap_wf h" using inv by (simp add: heap_inv_def)
  have x': "x \<in> heap_nodes h" using x by (simp add: heap_contents_eq_None)
  note i = heap_wf_node [OF wf x', folded i_def]
  have n: "h_n h1 = h_n h" "h_array h1 = h_array h" "heap_nodes h1 = heap_nodes h"
    by (simp_all add: h1_def heap_raw_change_def heap_nodes_def)
  have wf1: "heap_wf h1" using wf by (auto simp: h1_def heap_raw_change_def heap_wf_def)
  have idx: "hn_idx (h_mem h1 x) = i" by (simp add: h1_def heap_raw_change_def i_def)
  have "h_array h ! k = x \<longleftrightarrow> k = i" if "1 \<le> k" "k \<le> h_n h" for k
    using i heap_wf_inj [OF wf, of k i] that by auto
  then have key: "heap_key h1 k = heap_key h k" if "1 \<le> k" "k \<le> h_n h" "k \<noteq> i" for k
    using that by (simp add: heap_key_def n) (simp add: h1_def heap_raw_change_def)
  have contents: "heap_contents h1 = (heap_contents h)(x \<mapsto> p)"
    using x' by (simp add: fun_eq_iff heap_contents_def n) (simp add: h1_def heap_raw_change_def)
  have "fix_ready h1 i"
    using n(1) key heap_orderedD [OF inv] heap_key_grandparent [OF inv]
    by (auto simp: fix_ready_def)
  then have "heap_perm h1 (heap_change h x p)" "heap_ordered_from 1 (heap_change h x p)"
    using float_up_or_down_correct [OF wf1, of i] i
    by (simp_all add: heap_change_def h1_def [symmetric] Let_def idx n)
  then show "heap_inv (heap_change h x p)"
    "heap_contents (heap_change h x p) = (heap_contents h)(x \<mapsto> p)"
    using contents by (auto simp: heap_inv_perm heap_perm_contents)
qed

lemma heap_rebuild_loop_correct:
  "heap_wf h \<Longrightarrow> heap_ordered_from (Suc i) h \<Longrightarrow> i \<le> h_n h \<Longrightarrow>
    heap_perm h (heap_rebuild_loop h i) \<and> heap_ordered_from 1 (heap_rebuild_loop h i)"
proof (induction h i rule: heap_rebuild_loop.induct)
  case (1 h)
  then show ?case by (simp add: heap_perm_refl)
next
  case (2 h i)
  have "down_ready (Suc i) h (Suc i)"
    using 2(3) by (auto simp: down_ready_def heap_ordered_from_def)
  then have *: "heap_perm h (float_down h (Suc i))" "heap_ordered_from (Suc i) (float_down h (Suc i))"
    using 2 float_down_perm [of h "Suc i"] float_down_ordered [of h "Suc i" "Suc i"] by auto
  with 2 have "heap_perm (float_down h (Suc i)) (heap_rebuild_loop (float_down h (Suc i)) i) \<and>
      heap_ordered_from 1 (heap_rebuild_loop (float_down h (Suc i)) i)"
    by (simp add: heap_perm_wf heap_perm_n)
  with * show ?case by (auto intro: heap_perm_trans)
qed

lemma heap_rebuild_correct:
  assumes "heap_wf h"
  shows "heap_inv (heap_rebuild h)" "heap_contents (heap_rebuild h) = heap_contents h"
proof -
  have "heap_ordered_from (Suc (h_n h div 2)) h" by (auto simp: heap_ordered_from_def)
  then have "heap_perm h (heap_rebuild h) \<and> heap_ordered_from 1 (heap_rebuild h)"
    unfolding heap_rebuild_def using assms by (intro heap_rebuild_loop_correct) auto
  then show "heap_inv (heap_rebuild h)" "heap_contents (heap_rebuild h) = heap_contents h"
    by (auto simp: heap_inv_perm heap_perm_contents)
qed

lemma heap_max_correct:
  assumes inv: "heap_inv h" and ne: "heap_contents h \<noteq> Map.empty"
  shows "\<exists>p. heap_contents h (heap_max h) = Some p \<and> (\<forall>x q. heap_contents h x = Some q \<longrightarrow> q \<le> p)"
proof -
  obtain y where "y \<in> heap_nodes h" using ne by (auto simp: fun_eq_iff heap_contents_eq_None)
  then have n: "1 \<le> h_n h" by (auto simp: heap_nodes_def)
  have "q \<le> heap_key h 1" if "heap_contents h x = Some q" for x q
  proof -
    have "x \<in> heap_nodes h" using that by (auto simp: heap_contents_def split: if_splits)
    then obtain k where "1 \<le> k" "k \<le> h_n h" "x = h_array h ! k" by (auto simp: heap_nodes_def)
    then show ?thesis using that heap_contents_nth [of k h] heap_key_le_root [OF inv, of k] by simp
  qed
  then show ?thesis using n heap_contents_nth [of 1 h] by (auto simp: heap_max_def)
qed

lemma heap_pop_correct:
  assumes inv: "heap_inv h" and ne: "\<not> heap_is_empty h" and pop: "heap_pop h = (x, h')"
  shows "heap_inv h'" "heap_contents h x \<noteq> None" "heap_contents h' = (heap_contents h)(x := None)"
proof -
  have h': "h' = h\<lparr>h_n := h_n h - 1\<rparr>" "x = h_array h ! h_n h"
    using pop by (auto simp: heap_pop_def)
  have wf: "heap_wf h" using inv by (simp add: heap_inv_def)
  have n: "1 \<le> h_n h" using ne by (simp add: heap_is_empty_def)
  show "heap_inv h'" using inv
    by (auto simp: h' heap_inv_def heap_wf_def heap_ordered_from_def heap_key_def)
  show "heap_contents h x \<noteq> None" using heap_contents_nth [of "h_n h" h] n by (simp add: h')
  have "{1..h_n h} = insert (h_n h) {1..h_n h - 1}" using n by auto
  then have "heap_nodes h' = heap_nodes h - {x}"
    using n heap_wf_inj [OF wf, of _ "h_n h"] by (auto simp: heap_nodes_def h')
  then show "heap_contents h' = (heap_contents h)(x := None)"
    by (simp add: fun_eq_iff heap_contents_def h')
qed

section \<open>The interface\<close>

text \<open>
  What clients (the eviction groups of \<open>ofproto\<close>) rely on: a finite map from elements to
  priorities, and the element of largest priority.
\<close>

locale max_priority_queue =
  fixes pq_insert :: "'h \<Rightarrow> 'x \<Rightarrow> 'p::linorder \<Rightarrow> 'h"
    and pq_remove :: "'h \<Rightarrow> 'x \<Rightarrow> 'h"
    and pq_change :: "'h \<Rightarrow> 'x \<Rightarrow> 'p \<Rightarrow> 'h"
    and pq_max :: "'h \<Rightarrow> 'x"
    and contents :: "'h \<Rightarrow> 'x \<rightharpoonup> 'p"
    and inv :: "'h \<Rightarrow> bool"
  assumes insert_inv: "inv h \<Longrightarrow> contents h x = None \<Longrightarrow> inv (pq_insert h x p)"
    and insert_contents:
      "inv h \<Longrightarrow> contents h x = None \<Longrightarrow> contents (pq_insert h x p) = (contents h)(x \<mapsto> p)"
    and remove_inv: "inv h \<Longrightarrow> contents h x \<noteq> None \<Longrightarrow> inv (pq_remove h x)"
    and remove_contents:
      "inv h \<Longrightarrow> contents h x \<noteq> None \<Longrightarrow> contents (pq_remove h x) = (contents h)(x := None)"
    and change_inv: "inv h \<Longrightarrow> contents h x \<noteq> None \<Longrightarrow> inv (pq_change h x p)"
    and change_contents:
      "inv h \<Longrightarrow> contents h x \<noteq> None \<Longrightarrow> contents (pq_change h x p) = (contents h)(x \<mapsto> p)"
    and max_contents:
      "inv h \<Longrightarrow> contents h \<noteq> Map.empty \<Longrightarrow>
        \<exists>p. contents h (pq_max h) = Some p \<and> (\<forall>x q. contents h x = Some q \<longrightarrow> q \<le> p)"
begin

lemma max_in: "inv h \<Longrightarrow> contents h \<noteq> Map.empty \<Longrightarrow> contents h (pq_max h) \<noteq> None"
  using max_contents by force

lemma insert_remove: "inv h \<Longrightarrow> contents h x = None \<Longrightarrow>
    contents (pq_remove (pq_insert h x p) x) = contents h"
  by (simp add: insert_inv insert_contents remove_contents fun_upd_idem)

lemma change_eq_remove_insert: "inv h \<Longrightarrow> contents h x \<noteq> None \<Longrightarrow>
    contents (pq_change h x p) = contents (pq_insert (pq_remove h x) x p)"
  by (simp add: remove_inv remove_contents insert_contents change_contents)

text \<open>Evicting the maximum twice never meets a larger priority the second time.\<close>

lemma successive_max:
  assumes "inv h" "contents h \<noteq> Map.empty"
    and "contents h (pq_max h) = Some p" and h': "h' = pq_remove h (pq_max h)"
    and "contents h' \<noteq> Map.empty" "contents h' (pq_max h') = Some q"
  shows "q \<le> p \<and> pq_max h' \<noteq> pq_max h"
proof -
  have "contents h' = (contents h)(pq_max h := None)"
    using assms by (simp add: remove_contents)
  with assms show ?thesis using max_contents [of h] by (auto split: if_splits)
qed

end

interpretation heap_pq: max_priority_queue heap_insert heap_remove heap_change heap_max heap_contents heap_inv
  by unfold_locales
    (simp_all add: heap_insert_correct heap_remove_correct heap_change_correct heap_max_correct)

section \<open>Properties\<close>

text \<open>A concrete heap for the witnesses: three nodes, inserted in ascending order of priority.\<close>

definition sample_heap :: heap where
  "sample_heap =
     heap_insert (heap_insert (heap_insert (heap_init (\<lambda>_. \<lparr>hn_idx = 0, hn_priority = 0\<rparr>))
       11 5) 12 7) 13 9"

lemma sample_heap_correct:
  "heap_inv sample_heap" "heap_contents sample_heap = [11 \<mapsto> 5, 12 \<mapsto> 7, 13 \<mapsto> 9]"
  by (simp_all add: sample_heap_def heap_insert_correct heap_init_correct)

lemma sample_heap_max: "heap_max sample_heap = 13"
  by code_simp

text \<open>
  C1.  \<open>heap_insert\<close>, \<open>heap_remove\<close> and \<open>heap_change\<close> keep the heap invariant (every node records
  its own index, no node outranks its parent) and change the contents exactly as a map update,
  deletion and update do; \<open>heap_pop\<close> removes one node and keeps the invariant too.
\<close>

theorem heap_operations_refine_map:
  assumes "heap_inv h"
  shows "(heap_contents h x = None \<longrightarrow>
      heap_inv (heap_insert h x p) \<and> heap_contents (heap_insert h x p) = (heap_contents h)(x \<mapsto> p)) \<and>
    (heap_contents h y \<noteq> None \<longrightarrow>
      heap_inv (heap_remove h y) \<and> heap_contents (heap_remove h y) = (heap_contents h)(y := None)) \<and>
    (heap_contents h y \<noteq> None \<longrightarrow>
      heap_inv (heap_change h y p) \<and> heap_contents (heap_change h y p) = (heap_contents h)(y \<mapsto> p)) \<and>
    (\<not> heap_is_empty h \<longrightarrow>
      heap_inv (snd (heap_pop h)) \<and>
      heap_contents (snd (heap_pop h)) = (heap_contents h)(fst (heap_pop h) := None))"
  using assms heap_pop_correct [of h "fst (heap_pop h)" "snd (heap_pop h)"]
  by (simp add: heap_pq.insert_inv heap_pq.insert_contents heap_pq.remove_inv
      heap_pq.remove_contents heap_pq.change_inv heap_pq.change_contents)

theorem heap_operations_refine_map_witness:
  "heap_contents (heap_remove sample_heap 12) = [11 \<mapsto> 5, 13 \<mapsto> 9] \<and>
   heap_contents (heap_change sample_heap 12 20) = [11 \<mapsto> 5, 13 \<mapsto> 9, 12 \<mapsto> 20] \<and>
   heap_inv (heap_insert sample_heap 14 1)"
  using heap_operations_refine_map [OF sample_heap_correct(1), of 14 1 12]
    heap_operations_refine_map [OF sample_heap_correct(1), of 14 20 12]
  by (simp add: sample_heap_correct fun_upd_twist)

text \<open>
  C2.  In a non-empty heap \<open>heap_max\<close> returns a node of the heap whose priority no other node
  exceeds, and after that node is removed the next maximum is a different node of no larger
  priority: evicting in \<open>heap_max\<close> order visits priorities in descending order.
\<close>

theorem heap_max_is_maximum:
  assumes "heap_inv h" "heap_contents h \<noteq> Map.empty"
  shows "\<exists>p. heap_contents h (heap_max h) = Some p \<and>
    (\<forall>x q. heap_contents h x = Some q \<longrightarrow> q \<le> p) \<and>
    (\<forall>q. heap_contents (heap_remove h (heap_max h)) \<noteq> Map.empty \<and>
      heap_contents (heap_remove h (heap_max h)) (heap_max (heap_remove h (heap_max h))) = Some q \<longrightarrow>
      q \<le> p \<and> heap_max (heap_remove h (heap_max h)) \<noteq> heap_max h)"
  using heap_pq.max_contents [OF assms] heap_pq.successive_max [OF assms _ refl] by blast

theorem heap_max_is_maximum_witness:
  "\<exists>p. heap_contents sample_heap 13 = Some p \<and> 7 \<le> p \<and> 5 \<le> p"
proof -
  have "heap_contents sample_heap \<noteq> Map.empty" by (simp add: sample_heap_correct(2))
  from heap_max_is_maximum [OF sample_heap_correct(1) this] obtain p
    where "heap_contents sample_heap 13 = Some p" "\<forall>x q. heap_contents sample_heap x = Some q \<longrightarrow> q \<le> p"
    by (auto simp: sample_heap_max)
  moreover have "heap_contents sample_heap 12 = Some 7" "heap_contents sample_heap 11 = Some 5"
    by (simp_all add: sample_heap_correct(2))
  ultimately show ?thesis by blast
qed

text \<open>
  C3.  From any array whose nodes record their own indexes, in whatever order the raw operations
  left it, \<open>heap_rebuild\<close> restores the heap property and keeps exactly the nodes and priorities it
  found.
\<close>

theorem heap_rebuild_restores:
  assumes "heap_wf h"
  shows "heap_inv (heap_rebuild h) \<and> heap_contents (heap_rebuild h) = heap_contents h"
  using assms by (simp add: heap_rebuild_correct)

text \<open>Raising a leaf's priority in place leaves a well-formed array that is not a heap.\<close>

lemma raw_change_wf: "heap_wf h \<Longrightarrow> heap_wf (heap_raw_change h x p)"
  by (auto simp: heap_raw_change_def heap_wf_def)

theorem heap_rebuild_restores_witness:
  "heap_inv (heap_rebuild (heap_raw_change sample_heap 11 50)) \<and>
   heap_max (heap_rebuild (heap_raw_change sample_heap 11 50)) = 11"
proof -
  have "heap_wf (heap_raw_change sample_heap 11 50)"
    using sample_heap_correct(1) by (simp add: raw_change_wf heap_inv_def)
  then have "heap_inv (heap_rebuild (heap_raw_change sample_heap 11 50))"
    using heap_rebuild_restores by blast
  moreover have "heap_max (heap_rebuild (heap_raw_change sample_heap 11 50)) = 11"
    by code_simp
  ultimately show ?thesis by simp
qed

end
