(* ===== verification/Reconnect.thy ===== *)
theory Reconnect
  imports Prelude
begin

text \<open>
  The reconnection state machine of \<open>lib/reconnect.c\<close>, which every OpenFlow and OVSDB session of
  the switch runs on: when to connect, when to probe an idle peer, how long to back off.

  \<open>struct reconnect\<close> is the record \<open>reconnect\<close>, its \<open>enum state\<close> the datatype \<open>state\<close> (the C
  enumerators are distinct single bits, so a test \<open>state & (S_A | S_B)\<close> is membership in
  \<open>{S_A, S_B}\<close>).  Times and durations in milliseconds are \<open>int\<close>; \<open>LLONG_MAX\<close>, which the code uses
  for "never", is the constant of that value.  The statistics counters are \<open>u32\<close> and wrap.  The
  log messages are left out; nothing depends on them.
\<close>

section \<open>State\<close>

datatype state = S_VOID | S_BACKOFF | S_CONNECTING | S_ACTIVE | S_IDLE | S_RECONNECT | S_LISTENING

datatype reconnect_action = RECONNECT_CONNECT | RECONNECT_DISCONNECT | RECONNECT_PROBE

datatype vlog_level = VLL_INFO | VLL_DBG

definition INT_MAX :: int where "INT_MAX = 2 ^ 31 - 1"
definition UINT_MAX :: u32 where "UINT_MAX = - 1"

definition RECONNECT_DEFAULT_MIN_BACKOFF :: int where "RECONNECT_DEFAULT_MIN_BACKOFF = 1000"
definition RECONNECT_DEFAULT_MAX_BACKOFF :: int where "RECONNECT_DEFAULT_MAX_BACKOFF = 8000"
definition RECONNECT_DEFAULT_PROBE_INTERVAL :: int where "RECONNECT_DEFAULT_PROBE_INTERVAL = 5000"

record reconnect =
  rc_name :: string
  rc_min_backoff :: int
  rc_max_backoff :: int
  rc_probe_interval :: int
  rc_passive :: bool
  rc_info :: vlog_level
  rc_state :: state
  rc_state_entered :: int
  rc_backoff :: int
  rc_last_activity :: int
  rc_last_connected :: int
  rc_last_disconnected :: int
  rc_max_tries :: u32
  rc_creation_time :: int
  rc_n_attempted_connections :: u32
  rc_n_successful_connections :: u32
  rc_total_connected_duration :: u32
  rc_seqno :: u32

definition is_connected_state :: "state \<Rightarrow> bool" where
  "is_connected_state s \<longleftrightarrow> s \<in> {S_ACTIVE, S_IDLE}"

fun reconnect_state_name :: "state \<Rightarrow> string" where
  "reconnect_state_name S_VOID = ''VOID''"
| "reconnect_state_name S_BACKOFF = ''BACKOFF''"
| "reconnect_state_name S_CONNECTING = ''CONNECTING''"
| "reconnect_state_name S_ACTIVE = ''ACTIVE''"
| "reconnect_state_name S_IDLE = ''IDLE''"
| "reconnect_state_name S_RECONNECT = ''RECONNECT''"
| "reconnect_state_name S_LISTENING = ''LISTENING''"

section \<open>Operations\<close>

definition reconnect_create :: "int \<Rightarrow> reconnect" where
  "reconnect_create now =
     \<lparr>rc_name = ''void'',
      rc_min_backoff = RECONNECT_DEFAULT_MIN_BACKOFF,
      rc_max_backoff = RECONNECT_DEFAULT_MAX_BACKOFF,
      rc_probe_interval = RECONNECT_DEFAULT_PROBE_INTERVAL,
      rc_passive = False,
      rc_info = VLL_INFO,
      rc_state = S_VOID,
      rc_state_entered = now,
      rc_backoff = 0,
      rc_last_activity = now,
      rc_last_connected = LLONG_MAX,
      rc_last_disconnected = LLONG_MAX,
      rc_max_tries = UINT_MAX,
      rc_creation_time = now,
      rc_n_attempted_connections = 0,
      rc_n_successful_connections = 0,
      rc_total_connected_duration = 0,
      rc_seqno = 0\<rparr>"

definition reconnect_set_quiet :: "reconnect \<Rightarrow> bool \<Rightarrow> reconnect" where
  "reconnect_set_quiet fsm quiet = fsm\<lparr>rc_info := (if quiet then VLL_DBG else VLL_INFO)\<rparr>"

definition reconnect_set_name :: "reconnect \<Rightarrow> string option \<Rightarrow> reconnect" where
  "reconnect_set_name fsm name = fsm\<lparr>rc_name := (case name of None \<Rightarrow> ''void'' | Some s \<Rightarrow> s)\<rparr>"

definition reconnect_set_max_tries :: "reconnect \<Rightarrow> u32 \<Rightarrow> reconnect" where
  "reconnect_set_max_tries fsm m = fsm\<lparr>rc_max_tries := m\<rparr>"

definition reconnect_set_backoff :: "reconnect \<Rightarrow> int \<Rightarrow> int \<Rightarrow> reconnect" where
  "reconnect_set_backoff fsm min_backoff max_backoff =
     (let min' = max min_backoff 1000;
          max1 = (if max_backoff \<noteq> 0 then max max_backoff 1000 else RECONNECT_DEFAULT_MAX_BACKOFF);
          max' = (if min' > max1 then min' else max1);
          fsm1 = fsm\<lparr>rc_min_backoff := min', rc_max_backoff := max'\<rparr>
      in if rc_state fsm1 = S_BACKOFF \<and> rc_backoff fsm1 > max_backoff
         then fsm1\<lparr>rc_backoff := max_backoff\<rparr> else fsm1)"

definition reconnect_set_probe_interval :: "reconnect \<Rightarrow> int \<Rightarrow> reconnect" where
  "reconnect_set_probe_interval fsm probe_interval =
     fsm\<lparr>rc_probe_interval := (if probe_interval \<noteq> 0 then max 1000 probe_interval else 0)\<rparr>"

definition reconnect_transition :: "reconnect \<Rightarrow> int \<Rightarrow> state \<Rightarrow> reconnect" where
  "reconnect_transition fsm now s =
     (let fsm1 =
            (if rc_state fsm = S_CONNECTING then
               let f = fsm\<lparr>rc_n_attempted_connections := rc_n_attempted_connections fsm + 1\<rparr>
               in if s = S_ACTIVE
                  then f\<lparr>rc_n_successful_connections := rc_n_successful_connections f + 1\<rparr> else f
             else fsm);
          fsm2 =
            (if is_connected_state (rc_state fsm1) \<noteq> is_connected_state s then
               let f = (if is_connected_state (rc_state fsm1)
                        then fsm1\<lparr>rc_total_connected_duration := rc_total_connected_duration fsm1 +
                               word_of_int (now - rc_last_connected fsm1)\<rparr>
                        else fsm1)
               in f\<lparr>rc_seqno := rc_seqno f + 1\<rparr>
             else fsm1)
      in fsm2\<lparr>rc_state := s, rc_state_entered := now\<rparr>)"

definition reconnect_may_retry :: "reconnect \<Rightarrow> bool \<times> reconnect" where
  "reconnect_may_retry fsm =
     (let may_retry = rc_max_tries fsm > 0
      in (may_retry,
          if may_retry \<and> rc_max_tries fsm \<noteq> UINT_MAX
          then fsm\<lparr>rc_max_tries := rc_max_tries fsm - 1\<rparr> else fsm))"

definition reconnect_set_passive :: "reconnect \<Rightarrow> bool \<Rightarrow> int \<Rightarrow> reconnect" where
  "reconnect_set_passive fsm passive now =
     (if rc_passive fsm \<noteq> passive then
        let fsm1 = fsm\<lparr>rc_passive := passive\<rparr>;
            (c, fsm2) =
              (if passive then (rc_state fsm1 \<in> {S_CONNECTING, S_RECONNECT}, fsm1)
               else if rc_state fsm1 = S_LISTENING then reconnect_may_retry fsm1
               else (False, fsm1))
        in if c then (reconnect_transition fsm2 now S_BACKOFF)\<lparr>rc_backoff := 0\<rparr> else fsm2
      else fsm)"

definition reconnect_is_enabled :: "reconnect \<Rightarrow> bool" where
  "reconnect_is_enabled fsm \<longleftrightarrow> rc_state fsm \<noteq> S_VOID"

definition reconnect_enable :: "reconnect \<Rightarrow> int \<Rightarrow> reconnect" where
  "reconnect_enable fsm now =
     (if rc_state fsm = S_VOID then
        let (c, fsm1) = reconnect_may_retry fsm
        in if c then (reconnect_transition fsm1 now S_BACKOFF)\<lparr>rc_backoff := 0\<rparr> else fsm1
      else fsm)"

definition reconnect_disable :: "reconnect \<Rightarrow> int \<Rightarrow> reconnect" where
  "reconnect_disable fsm now =
     (if rc_state fsm \<noteq> S_VOID then reconnect_transition fsm now S_VOID else fsm)"

definition reconnect_force_reconnect :: "reconnect \<Rightarrow> int \<Rightarrow> reconnect" where
  "reconnect_force_reconnect fsm now =
     (if rc_state fsm \<in> {S_CONNECTING, S_ACTIVE, S_IDLE}
      then reconnect_transition fsm now S_RECONNECT else fsm)"

text \<open>The "Back off." block of \<open>reconnect_disconnected\<close>.\<close>

definition reconnect_back_off :: "reconnect \<Rightarrow> reconnect" where
  "reconnect_back_off fsm =
     (if rc_state fsm \<in> {S_ACTIVE, S_IDLE} \<and>
         (rc_last_activity fsm - rc_last_connected fsm \<ge> rc_backoff fsm \<or> rc_passive fsm)
      then fsm\<lparr>rc_backoff := (if rc_passive fsm then 0 else rc_min_backoff fsm)\<rparr>
      else if rc_backoff fsm < rc_min_backoff fsm
      then fsm\<lparr>rc_backoff := rc_min_backoff fsm\<rparr>
      else if rc_backoff fsm \<ge> rc_max_backoff fsm div 2
      then fsm\<lparr>rc_backoff := rc_max_backoff fsm\<rparr>
      else fsm\<lparr>rc_backoff := rc_backoff fsm * 2\<rparr>)"

text \<open>\<open>error\<close> only selects the log message.\<close>

definition reconnect_disconnected :: "reconnect \<Rightarrow> int \<Rightarrow> int \<Rightarrow> reconnect" where
  "reconnect_disconnected fsm now error =
     (if rc_state fsm \<notin> {S_BACKOFF, S_VOID} then
        let fsm1 = (if rc_state fsm \<in> {S_ACTIVE, S_IDLE}
                    then fsm\<lparr>rc_last_disconnected := now\<rparr> else fsm);
            fsm2 = reconnect_back_off fsm1;
            (c, fsm3) = reconnect_may_retry fsm2
        in reconnect_transition fsm3 now (if c then S_BACKOFF else S_VOID)
      else fsm)"

definition reconnect_connecting :: "reconnect \<Rightarrow> int \<Rightarrow> reconnect" where
  "reconnect_connecting fsm now =
     (if rc_state fsm \<noteq> S_CONNECTING then reconnect_transition fsm now S_CONNECTING else fsm)"

definition reconnect_listening :: "reconnect \<Rightarrow> int \<Rightarrow> reconnect" where
  "reconnect_listening fsm now =
     (if rc_state fsm \<noteq> S_LISTENING then reconnect_transition fsm now S_LISTENING else fsm)"

definition reconnect_listen_error :: "reconnect \<Rightarrow> int \<Rightarrow> int \<Rightarrow> reconnect" where
  "reconnect_listen_error fsm now error =
     (if rc_state fsm = S_LISTENING then reconnect_disconnected fsm now error else fsm)"

definition reconnect_connected :: "reconnect \<Rightarrow> int \<Rightarrow> reconnect" where
  "reconnect_connected fsm now =
     (if \<not> is_connected_state (rc_state fsm) then
        let fsm1 = reconnect_connecting fsm now;
            fsm2 = reconnect_transition fsm1 now S_ACTIVE
        in fsm2\<lparr>rc_last_connected := now\<rparr>
      else fsm)"

definition reconnect_connect_failed :: "reconnect \<Rightarrow> int \<Rightarrow> int \<Rightarrow> reconnect" where
  "reconnect_connect_failed fsm now error =
     reconnect_disconnected (reconnect_connecting fsm now) now error"

definition reconnect_activity :: "reconnect \<Rightarrow> int \<Rightarrow> reconnect" where
  "reconnect_activity fsm now =
     (let fsm1 = (if rc_state fsm \<noteq> S_ACTIVE then reconnect_transition fsm now S_ACTIVE else fsm)
      in fsm1\<lparr>rc_last_activity := now\<rparr>)"

definition reconnect_deadline :: "reconnect \<Rightarrow> int" where
  "reconnect_deadline fsm =
     (case rc_state fsm of
        S_VOID \<Rightarrow> LLONG_MAX
      | S_LISTENING \<Rightarrow> LLONG_MAX
      | S_BACKOFF \<Rightarrow> rc_state_entered fsm + rc_backoff fsm
      | S_CONNECTING \<Rightarrow> rc_state_entered fsm + max 1000 (rc_backoff fsm)
      | S_ACTIVE \<Rightarrow>
          (if rc_probe_interval fsm \<noteq> 0
           then max (rc_last_activity fsm) (rc_state_entered fsm) + rc_probe_interval fsm
           else LLONG_MAX)
      | S_IDLE \<Rightarrow>
          (if rc_probe_interval fsm \<noteq> 0
           then rc_state_entered fsm + rc_probe_interval fsm else LLONG_MAX)
      | S_RECONNECT \<Rightarrow> rc_state_entered fsm)"

text \<open>A result of \<open>None\<close> is the C function's 0: nothing to do.\<close>

definition reconnect_run :: "reconnect \<Rightarrow> int \<Rightarrow> reconnect_action option \<times> reconnect" where
  "reconnect_run fsm now =
     (if now \<ge> reconnect_deadline fsm then
        (case rc_state fsm of
           S_VOID \<Rightarrow> (None, fsm)
         | S_BACKOFF \<Rightarrow> (Some RECONNECT_CONNECT, fsm)
         | S_CONNECTING \<Rightarrow> (Some RECONNECT_DISCONNECT, fsm)
         | S_ACTIVE \<Rightarrow> (Some RECONNECT_PROBE, reconnect_transition fsm now S_IDLE)
         | S_IDLE \<Rightarrow> (Some RECONNECT_DISCONNECT, fsm)
         | S_RECONNECT \<Rightarrow> (Some RECONNECT_DISCONNECT, fsm)
         | S_LISTENING \<Rightarrow> (None, fsm))
      else (None, fsm))"

definition reconnect_timeout :: "reconnect \<Rightarrow> int \<Rightarrow> int" where
  "reconnect_timeout fsm now =
     (let deadline = reconnect_deadline fsm
      in if deadline \<noteq> LLONG_MAX
         then let remaining = deadline - now in max 0 (min INT_MAX remaining)
         else - 1)"

definition reconnect_is_connected :: "reconnect \<Rightarrow> bool" where
  "reconnect_is_connected fsm \<longleftrightarrow> is_connected_state (rc_state fsm)"

definition reconnect_get_last_connect_elapsed :: "reconnect \<Rightarrow> int \<Rightarrow> u32" where
  "reconnect_get_last_connect_elapsed fsm now =
     (if rc_last_connected fsm = LLONG_MAX then UINT_MAX
      else word_of_int (now - rc_last_connected fsm))"

definition reconnect_get_last_disconnect_elapsed :: "reconnect \<Rightarrow> int \<Rightarrow> u32" where
  "reconnect_get_last_disconnect_elapsed fsm now =
     (if rc_last_disconnected fsm = LLONG_MAX then UINT_MAX
      else word_of_int (now - rc_last_disconnected fsm))"

record reconnect_stats =
  rs_creation_time :: int
  rs_last_activity :: int
  rs_last_connected :: int
  rs_last_disconnected :: int
  rs_backoff :: int
  rs_seqno :: u32
  rs_is_connected :: bool
  rs_msec_since_connect :: u32
  rs_msec_since_disconnect :: u32
  rs_total_connected_duration :: u32
  rs_n_attempted_connections :: u32
  rs_n_successful_connections :: u32
  rs_state :: string
  rs_state_elapsed :: u32

definition reconnect_get_stats :: "reconnect \<Rightarrow> int \<Rightarrow> reconnect_stats" where
  "reconnect_get_stats fsm now =
     \<lparr>rs_creation_time = rc_creation_time fsm,
      rs_last_activity = rc_last_activity fsm,
      rs_last_connected = rc_last_connected fsm,
      rs_last_disconnected = rc_last_disconnected fsm,
      rs_backoff = rc_backoff fsm,
      rs_seqno = rc_seqno fsm,
      rs_is_connected = reconnect_is_connected fsm,
      rs_msec_since_connect = reconnect_get_last_connect_elapsed fsm now,
      rs_msec_since_disconnect = reconnect_get_last_disconnect_elapsed fsm now,
      rs_total_connected_duration = rc_total_connected_duration fsm +
        (if is_connected_state (rc_state fsm)
         then reconnect_get_last_connect_elapsed fsm now else 0),
      rs_n_attempted_connections = rc_n_attempted_connections fsm,
      rs_n_successful_connections = rc_n_successful_connections fsm,
      rs_state = reconnect_state_name (rc_state fsm),
      rs_state_elapsed = word_of_int (now - rc_state_entered fsm)\<rparr>"

section \<open>Histories\<close>

text \<open>The calls a client can make, in any order, and the machines they can produce.\<close>

datatype reconnect_call =
    Set_quiet bool | Set_name "string option" | Set_max_tries u32 | Set_backoff int int
  | Set_probe_interval int | Set_passive bool int | Enable int | Disable int
  | Force_reconnect int | Disconnected int int | Connecting int | Listening int
  | Listen_error int int | Connected int | Connect_failed int int | Activity int | Run int

fun reconnect_apply :: "reconnect_call \<Rightarrow> reconnect \<Rightarrow> reconnect" where
  "reconnect_apply (Set_quiet b) f = reconnect_set_quiet f b"
| "reconnect_apply (Set_name s) f = reconnect_set_name f s"
| "reconnect_apply (Set_max_tries m) f = reconnect_set_max_tries f m"
| "reconnect_apply (Set_backoff a b) f = reconnect_set_backoff f a b"
| "reconnect_apply (Set_probe_interval i) f = reconnect_set_probe_interval f i"
| "reconnect_apply (Set_passive b now) f = reconnect_set_passive f b now"
| "reconnect_apply (Enable now) f = reconnect_enable f now"
| "reconnect_apply (Disable now) f = reconnect_disable f now"
| "reconnect_apply (Force_reconnect now) f = reconnect_force_reconnect f now"
| "reconnect_apply (Disconnected now e) f = reconnect_disconnected f now e"
| "reconnect_apply (Connecting now) f = reconnect_connecting f now"
| "reconnect_apply (Listening now) f = reconnect_listening f now"
| "reconnect_apply (Listen_error now e) f = reconnect_listen_error f now e"
| "reconnect_apply (Connected now) f = reconnect_connected f now"
| "reconnect_apply (Connect_failed now e) f = reconnect_connect_failed f now e"
| "reconnect_apply (Activity now) f = reconnect_activity f now"
| "reconnect_apply (Run now) f = snd (reconnect_run f now)"

inductive reconnect_reachable :: "reconnect \<Rightarrow> bool" where
  created: "reconnect_reachable (reconnect_create now)"
| called: "reconnect_reachable f \<Longrightarrow> reconnect_reachable (reconnect_apply c f)"

section \<open>Transitions\<close>

lemma transition_state [simp]:
  "rc_state (reconnect_transition f now s) = s"
  "rc_state_entered (reconnect_transition f now s) = now"
  by (simp_all add: reconnect_transition_def Let_def)

lemma transition_frame [simp, frame_simps]:
  "rc_min_backoff (reconnect_transition f now s) = rc_min_backoff f"
  "rc_max_backoff (reconnect_transition f now s) = rc_max_backoff f"
  "rc_probe_interval (reconnect_transition f now s) = rc_probe_interval f"
  "rc_passive (reconnect_transition f now s) = rc_passive f"
  "rc_backoff (reconnect_transition f now s) = rc_backoff f"
  "rc_last_activity (reconnect_transition f now s) = rc_last_activity f"
  "rc_last_connected (reconnect_transition f now s) = rc_last_connected f"
  "rc_last_disconnected (reconnect_transition f now s) = rc_last_disconnected f"
  "rc_max_tries (reconnect_transition f now s) = rc_max_tries f"
  by (simp_all add: reconnect_transition_def Let_def)

lemma transition_seqno:
  "rc_seqno (reconnect_transition f now s) =
     rc_seqno f + (if is_connected_state (rc_state f) \<noteq> is_connected_state s then 1 else 0)"
  by (simp add: reconnect_transition_def Let_def)

lemma may_retry_frame [simp, frame_simps]:
  "rc_min_backoff (snd (reconnect_may_retry f)) = rc_min_backoff f"
  "rc_max_backoff (snd (reconnect_may_retry f)) = rc_max_backoff f"
  "rc_probe_interval (snd (reconnect_may_retry f)) = rc_probe_interval f"
  "rc_state (snd (reconnect_may_retry f)) = rc_state f"
  "rc_backoff (snd (reconnect_may_retry f)) = rc_backoff f"
  "rc_seqno (snd (reconnect_may_retry f)) = rc_seqno f"
  "rc_passive (snd (reconnect_may_retry f)) = rc_passive f"
  by (simp_all add: reconnect_may_retry_def Let_def)

lemma back_off_frame [simp, frame_simps]:
  "rc_min_backoff (reconnect_back_off f) = rc_min_backoff f"
  "rc_max_backoff (reconnect_back_off f) = rc_max_backoff f"
  "rc_probe_interval (reconnect_back_off f) = rc_probe_interval f"
  "rc_state (reconnect_back_off f) = rc_state f"
  "rc_seqno (reconnect_back_off f) = rc_seqno f"
  "rc_passive (reconnect_back_off f) = rc_passive f"
  "rc_max_tries (reconnect_back_off f) = rc_max_tries f"
  by (simp_all add: reconnect_back_off_def)

section \<open>The invariant\<close>

definition reconnect_inv :: "reconnect \<Rightarrow> bool" where
  "reconnect_inv f \<longleftrightarrow>
     1000 \<le> rc_min_backoff f \<and> rc_min_backoff f \<le> rc_max_backoff f \<and>
     (rc_probe_interval f = 0 \<or> 1000 \<le> rc_probe_interval f) \<and>
     (odd (rc_seqno f) \<longleftrightarrow> is_connected_state (rc_state f))"

lemma transition_inv [inv_intros]: "reconnect_inv f \<Longrightarrow> reconnect_inv (reconnect_transition f now s)"
  by (auto simp: reconnect_inv_def transition_seqno)

lemma inv_update [simp]:
  "reconnect_inv (f\<lparr>rc_backoff := b\<rparr>) = reconnect_inv f"
  "reconnect_inv (f\<lparr>rc_passive := p\<rparr>) = reconnect_inv f"
  "reconnect_inv (f\<lparr>rc_last_activity := t\<rparr>) = reconnect_inv f"
  "reconnect_inv (f\<lparr>rc_last_connected := t\<rparr>) = reconnect_inv f"
  "reconnect_inv (f\<lparr>rc_last_disconnected := t\<rparr>) = reconnect_inv f"
  "reconnect_inv (f\<lparr>rc_max_tries := m\<rparr>) = reconnect_inv f"
  "reconnect_inv (f\<lparr>rc_name := n\<rparr>) = reconnect_inv f"
  "reconnect_inv (f\<lparr>rc_info := i\<rparr>) = reconnect_inv f"
  by (simp_all add: reconnect_inv_def)

lemma helpers_inv [inv_intros]:
  "reconnect_inv f \<Longrightarrow> reconnect_inv (snd (reconnect_may_retry f))"
  "reconnect_inv f \<Longrightarrow> reconnect_inv (reconnect_back_off f)"
  "reconnect_inv f \<Longrightarrow> reconnect_inv (reconnect_connecting f now)"
  by (simp_all add: reconnect_may_retry_def Let_def reconnect_back_off_def reconnect_connecting_def
      transition_inv)

lemma disconnected_inv [inv_intros]:
  "reconnect_inv f \<Longrightarrow> reconnect_inv (reconnect_disconnected f now e)"
  by (simp add: reconnect_disconnected_def Let_def case_prod_beta inv_intros)

lemma reconnect_apply_inv: "reconnect_inv f \<Longrightarrow> reconnect_inv (reconnect_apply c f)"
proof (cases c)
  case (Set_backoff a b)
  then show "reconnect_inv f \<Longrightarrow> ?thesis"
    by (auto simp: reconnect_set_backoff_def Let_def)
      (auto simp: reconnect_inv_def RECONNECT_DEFAULT_MAX_BACKOFF_def)
next
  case (Set_probe_interval i)
  then show "reconnect_inv f \<Longrightarrow> ?thesis"
    by (auto simp: reconnect_set_probe_interval_def reconnect_inv_def)
next
  case (Set_passive b now)
  then show "reconnect_inv f \<Longrightarrow> ?thesis"
    using helpers_inv(1) [of "f\<lparr>rc_passive := b\<rparr>"]
    by (auto simp: reconnect_set_passive_def Let_def transition_inv split: prod.split)
next
  case (Enable now)
  then show "reconnect_inv f \<Longrightarrow> ?thesis"
    using helpers_inv(1) [of f]
    by (auto simp: reconnect_enable_def Let_def transition_inv split: prod.split)
next
  case (Run now)
  then show "reconnect_inv f \<Longrightarrow> ?thesis"
    by (auto simp: reconnect_run_def transition_inv split: state.split)
qed (simp_all add: reconnect_set_quiet_def reconnect_set_name_def reconnect_set_max_tries_def
    reconnect_disable_def reconnect_force_reconnect_def reconnect_listening_def
    reconnect_listen_error_def reconnect_connected_def reconnect_connect_failed_def
    reconnect_activity_def Let_def inv_intros)

lemma reachable_inv: "reconnect_reachable f \<Longrightarrow> reconnect_inv f"
proof (induction rule: reconnect_reachable.induct)
  case (created now)
  show ?case
    by (simp add: reconnect_create_def reconnect_inv_def is_connected_state_def
        RECONNECT_DEFAULT_MIN_BACKOFF_def RECONNECT_DEFAULT_MAX_BACKOFF_def
        RECONNECT_DEFAULT_PROBE_INTERVAL_def)
next
  case (called f c)
  then show ?case by (simp add: reconnect_apply_inv)
qed

section \<open>Backing off\<close>

text \<open>A session in which every attempt fails, at the given times with the given errors.\<close>

definition reconnect_fail_all :: "reconnect \<Rightarrow> (int \<times> int) list \<Rightarrow> reconnect" where
  "reconnect_fail_all f ts = foldl (\<lambda>f (now, e). reconnect_connect_failed f now e) f ts"

lemma fail_all_snoc:
  "reconnect_fail_all f [] = f"
  "reconnect_fail_all f (ts @ [(now, e)]) = reconnect_connect_failed (reconnect_fail_all f ts) now e"
  by (simp_all add: reconnect_fail_all_def)

lemma connecting_frame [simp, frame_simps]:
  "rc_state (reconnect_connecting f now) = S_CONNECTING"
  "rc_min_backoff (reconnect_connecting f now) = rc_min_backoff f"
  "rc_max_backoff (reconnect_connecting f now) = rc_max_backoff f"
  "rc_backoff (reconnect_connecting f now) = rc_backoff f"
  "rc_max_tries (reconnect_connecting f now) = rc_max_tries f"
  by (simp_all add: reconnect_connecting_def)

lemma connect_failed_effect:
  "rc_min_backoff (reconnect_connect_failed f now e) = rc_min_backoff f"
  "rc_max_backoff (reconnect_connect_failed f now e) = rc_max_backoff f"
  "rc_state (reconnect_connect_failed f now e) = (if rc_max_tries f > 0 then S_BACKOFF else S_VOID)"
  "rc_state_entered (reconnect_connect_failed f now e) = now"
  "rc_backoff (reconnect_connect_failed f now e) =
     (if rc_backoff f < rc_min_backoff f then rc_min_backoff f
      else if rc_backoff f \<ge> rc_max_backoff f div 2 then rc_max_backoff f
      else rc_backoff f * 2)"
  "rc_max_tries (reconnect_connect_failed f now e) =
     (if rc_max_tries f > 0 \<and> rc_max_tries f \<noteq> UINT_MAX then rc_max_tries f - 1 else rc_max_tries f)"
  by (simp_all add: reconnect_connect_failed_def reconnect_disconnected_def Let_def
      reconnect_may_retry_def reconnect_back_off_def)

lemma fail_all_frame:
  "rc_min_backoff (reconnect_fail_all f ts) = rc_min_backoff f"
  "rc_max_backoff (reconnect_fail_all f ts) = rc_max_backoff f"
  by (induction ts rule: rev_induct) (auto simp: fail_all_snoc connect_failed_effect)

definition nth_backoff :: "int \<Rightarrow> int \<Rightarrow> nat \<Rightarrow> int" where
  "nth_backoff mn mx n = (if n = 0 \<or> mn * 2 ^ (n - 1) < mx div 2 then mn * 2 ^ n else mx)"

lemma nth_backoff_Suc:
  assumes "0 < mn" "mn \<le> mx"
  shows "nth_backoff mn mx (Suc n) =
    (if nth_backoff mn mx n < mn then mn
     else if nth_backoff mn mx n \<ge> mx div 2 then mx else nth_backoff mn mx n * 2)"
proof (cases "n = 0 \<or> mn * 2 ^ (n - 1) < mx div 2")
  case True
  have "mn \<le> mn * 2 ^ n" using assms by simp
  with True show ?thesis by (auto simp: nth_backoff_def)
next
  case False
  then have "mx div 2 \<le> mn * 2 ^ (n - 1)" "mn * 2 ^ n = 2 * (mn * 2 ^ (n - 1))"
    by (simp_all add: power_eq_if)
  moreover have "0 < mn * 2 ^ (n - 1)" using assms by simp
  ultimately have "\<not> mn * 2 ^ n < mx div 2" by linarith
  with False assms show ?thesis by (auto simp: nth_backoff_def)
qed

lemma nth_backoff_bounds:
  assumes "0 < mn" "mn \<le> mx"
  shows "mn \<le> nth_backoff mn mx n" "nth_backoff mn mx n \<le> mx"
proof -
  show "mn \<le> nth_backoff mn mx n" using assms by (auto simp: nth_backoff_def)
  show "nth_backoff mn mx n \<le> mx"
  proof (cases n)
    case (Suc m)
    then show ?thesis by (auto simp: nth_backoff_def)
  qed (use assms in \<open>simp add: nth_backoff_def\<close>)
qed

lemma fail_all_backoff:
  assumes "reconnect_inv f" "rc_backoff f < rc_min_backoff f"
  shows "rc_backoff (reconnect_fail_all f (ts @ [t])) =
    nth_backoff (rc_min_backoff f) (rc_max_backoff f) (length ts)"
proof (induction ts arbitrary: t rule: rev_induct)
  case Nil
  then show ?case
    using assms fail_all_snoc(2) [of f "[]"]
    by (cases t) (simp add: connect_failed_effect fail_all_snoc(1) nth_backoff_def)
next
  case (snoc u ts)
  have "0 < rc_min_backoff f" "rc_min_backoff f \<le> rc_max_backoff f"
    using assms by (auto simp: reconnect_inv_def)
  with snoc [of u] show ?case
    by (cases t) (simp add: fail_all_snoc connect_failed_effect fail_all_frame nth_backoff_Suc
        del: append_assoc)
qed

lemma fail_all_tries:
  assumes "rc_max_tries f \<noteq> UINT_MAX"
  shows "unat (rc_max_tries (reconnect_fail_all f ts)) = unat (rc_max_tries f) - length ts \<and>
    rc_max_tries (reconnect_fail_all f ts) \<noteq> UINT_MAX"
proof (induction ts rule: rev_induct)
  case Nil
  then show ?case using assms by (simp add: fail_all_snoc)
next
  case (snoc t ts)
  let ?m = "rc_max_tries (reconnect_fail_all f ts)"
  have "unat (?m - 1) = unat ?m - 1" if "?m > 0"
    using that by (simp add: unat_sub word_gt_0 word_le_nat_alt unat_gt_0 Suc_leI)
  moreover have "?m - 1 \<noteq> UINT_MAX" if "?m > 0"
    using that by (simp add: UINT_MAX_def word_gt_0)
  moreover have "unat ?m = 0" if "\<not> ?m > 0"
    using that by (simp add: word_gt_0)
  ultimately show ?case using snoc
    by (cases t) (auto simp: fail_all_snoc connect_failed_effect)
qed

section \<open>Deadlines\<close>

text \<open>
  The times and durations a machine holds are far from the ends of their C types: times below
  \<open>2^62\<close> ms, durations at most \<open>INT_MAX\<close>.
\<close>

definition times_in_range :: "reconnect \<Rightarrow> bool" where
  "times_in_range f \<longleftrightarrow>
     0 \<le> rc_state_entered f \<and> rc_state_entered f \<le> 2 ^ 62 \<and>
     0 \<le> rc_last_activity f \<and> rc_last_activity f \<le> 2 ^ 62 \<and>
     0 \<le> rc_backoff f \<and> rc_backoff f \<le> INT_MAX \<and>
     0 \<le> rc_probe_interval f \<and> rc_probe_interval f \<le> INT_MAX"

lemma deadline_in_range:
  "times_in_range f \<Longrightarrow> 0 \<le> reconnect_deadline f \<and> reconnect_deadline f \<le> LLONG_MAX"
  by (auto simp: times_in_range_def reconnect_deadline_def LLONG_MAX_def INT_MAX_def
      split: state.split)

lemma run_before_deadline: "t < reconnect_deadline f \<Longrightarrow> reconnect_run f t = (None, f)"
  by (simp add: reconnect_run_def)

lemma run_at_deadline:
  "reconnect_deadline f \<noteq> LLONG_MAX \<Longrightarrow> t \<ge> reconnect_deadline f \<Longrightarrow> fst (reconnect_run f t) \<noteq> None"
  by (auto simp: reconnect_run_def reconnect_deadline_def split: state.splits)

section \<open>Properties\<close>

text \<open>A machine for the witnesses: created and enabled at time 0, then connected at time 500.\<close>

definition sample_fsm :: reconnect where
  "sample_fsm = reconnect_connected (reconnect_enable (reconnect_create 0) 0) 500"

lemma sample_fsm_reachable: "reconnect_reachable sample_fsm"
  using called [OF called [OF created [of 0], of "Enable 0"], of "Connected 500"]
  by (simp add: sample_fsm_def)

lemma enabled_reachable: "reconnect_reachable (reconnect_enable (reconnect_create 0) 0)"
  using called [OF created [of 0], of "Enable 0"] by simp

text \<open>
  C4.  Whatever calls a client makes, in whatever order, the configured backoff range stays
  non-empty and at least one second, the probe interval stays 0 or at least one second, and the
  sequence number is odd exactly while the session is connected: it counts every connection and
  disconnection, even across wrap-around.
\<close>

theorem reconnect_reachable_invariant:
  assumes "reconnect_reachable f"
  shows "1000 \<le> rc_min_backoff f \<and> rc_min_backoff f \<le> rc_max_backoff f \<and>
    (rc_probe_interval f = 0 \<or> 1000 \<le> rc_probe_interval f) \<and>
    (odd (rc_seqno f) \<longleftrightarrow> reconnect_is_connected f)"
  using reachable_inv [OF assms] by (simp add: reconnect_inv_def reconnect_is_connected_def)

theorem reconnect_reachable_invariant_witness:
  "reconnect_is_connected sample_fsm \<and> odd (rc_seqno sample_fsm)"
proof -
  have "reconnect_is_connected sample_fsm" by code_simp
  with reconnect_reachable_invariant [OF sample_fsm_reachable] show ?thesis by blast
qed

text \<open>
  C5.  Exponential backoff.  From a machine whose current backoff is below the minimum (a freshly
  enabled one has 0), the \<open>n+1\<close>-st consecutive failed attempt sets the backoff to \<open>min * 2^n\<close>, or
  to the maximum once doubling has reached half of it; it always lies between minimum and maximum.
\<close>

theorem reconnect_exponential_backoff:
  assumes "reconnect_inv f" "rc_backoff f < rc_min_backoff f"
  shows "rc_backoff (reconnect_fail_all f (ts @ [t])) =
      (if ts = [] \<or> rc_min_backoff f * 2 ^ (length ts - 1) < rc_max_backoff f div 2
       then rc_min_backoff f * 2 ^ length ts else rc_max_backoff f) \<and>
    rc_min_backoff f \<le> rc_backoff (reconnect_fail_all f (ts @ [t])) \<and>
    rc_backoff (reconnect_fail_all f (ts @ [t])) \<le> rc_max_backoff f"
proof -
  have "0 < rc_min_backoff f" "rc_min_backoff f \<le> rc_max_backoff f"
    using assms by (auto simp: reconnect_inv_def)
  then have "rc_min_backoff f \<le> nth_backoff (rc_min_backoff f) (rc_max_backoff f) (length ts)"
    "nth_backoff (rc_min_backoff f) (rc_max_backoff f) (length ts) \<le> rc_max_backoff f"
    by (rule nth_backoff_bounds)+
  then show ?thesis by (simp add: fail_all_backoff [OF assms]) (simp add: nth_backoff_def)
qed

theorem reconnect_exponential_backoff_witness:
  "rc_backoff (reconnect_fail_all (reconnect_enable (reconnect_create 0) 0)
     ([(0, 0), (1000, 0)] @ [(3000, 0)])) = 4000"
proof -
  have "rc_backoff (reconnect_enable (reconnect_create 0) 0) <
      rc_min_backoff (reconnect_enable (reconnect_create 0) 0)"
    by code_simp
  moreover have "rc_min_backoff (reconnect_enable (reconnect_create 0) 0) = 1000"
    "rc_max_backoff (reconnect_enable (reconnect_create 0) 0) = 8000"
    by code_simp+
  ultimately show ?thesis
    using reconnect_exponential_backoff [OF reachable_inv [OF enabled_reachable],
        of "[(0, 0), (1000, 0)]" "(3000, 0)"]
    by simp
qed

text \<open>
  C6.  The retry limit.  With a limit of \<open>k\<close> tries, the machine keeps backing off after each of
  the first \<open>k\<close> failed attempts and is disabled by every later one; a disabled machine's
  \<open>reconnect_run\<close> never asks for anything.
\<close>

theorem reconnect_retry_limit:
  assumes "rc_max_tries f \<noteq> UINT_MAX"
  shows "rc_state (reconnect_fail_all f (ts @ [t])) =
      (if length ts < unat (rc_max_tries f) then S_BACKOFF else S_VOID) \<and>
    (length ts \<ge> unat (rc_max_tries f) \<longrightarrow>
      \<not> reconnect_is_enabled (reconnect_fail_all f (ts @ [t])) \<and>
      reconnect_run (reconnect_fail_all f (ts @ [t])) now = (None, reconnect_fail_all f (ts @ [t])))"
proof -
  have "rc_max_tries (reconnect_fail_all f ts) > 0 \<longleftrightarrow> length ts < unat (rc_max_tries f)"
    using fail_all_tries [OF assms, of ts] by (metis unat_gt_0 word_gt_0 zero_less_diff)
  then show ?thesis
    by (cases t) (simp add: fail_all_snoc connect_failed_effect reconnect_is_enabled_def
        reconnect_run_def)
qed

theorem reconnect_retry_limit_witness:
  "rc_state (reconnect_fail_all (reconnect_set_max_tries (reconnect_create 0) 2)
     ([(0, 0), (0, 0)] @ [(0, 0)])) = S_VOID"
proof -
  have "rc_max_tries (reconnect_set_max_tries (reconnect_create 0) 2) = 2"
    by (simp add: reconnect_set_max_tries_def)
  then show ?thesis
    using reconnect_retry_limit [of "reconnect_set_max_tries (reconnect_create 0) 2"
        "[(0, 0), (0, 0)]" "(0, 0)" 0]
    by (simp add: UINT_MAX_def)
qed

text \<open>
  C7.  \<open>reconnect_timeout\<close> is exact, for a machine whose times are in the range of their C types.  It returns -1
  exactly when \<open>reconnect_run\<close> never acts by itself; otherwise \<open>reconnect_run\<close> does nothing before that many
  milliseconds have passed and, unless the value was clamped to \<open>INT_MAX\<close>, acts as soon as they have.  The
  deadline it is computed from fits its C type.
\<close>

theorem reconnect_timeout_exact:
  assumes "times_in_range f"
  shows "0 \<le> reconnect_deadline f \<and> reconnect_deadline f \<le> LLONG_MAX \<and>
    (reconnect_timeout f now = - 1 \<longleftrightarrow>
      (\<forall>t. t < LLONG_MAX \<longrightarrow> reconnect_run f t = (None, f))) \<and>
    (reconnect_timeout f now \<noteq> - 1 \<longrightarrow>
      0 \<le> reconnect_timeout f now \<and> reconnect_timeout f now \<le> INT_MAX \<and>
      (\<forall>t. now \<le> t \<and> t < now + reconnect_timeout f now \<longrightarrow> reconnect_run f t = (None, f)) \<and>
      (reconnect_timeout f now < INT_MAX \<longrightarrow>
        fst (reconnect_run f (now + reconnect_timeout f now)) \<noteq> None))"
proof (cases "reconnect_deadline f = LLONG_MAX")
  case True
  then show ?thesis
    using deadline_in_range [OF assms] by (auto simp: reconnect_timeout_def run_before_deadline)
next
  case False
  then have timeout: "reconnect_timeout f now = max 0 (min INT_MAX (reconnect_deadline f - now))"
    by (simp add: reconnect_timeout_def Let_def)
  have "(0::int) \<le> INT_MAX" by (simp add: INT_MAX_def)
  then have rest: "0 \<le> reconnect_timeout f now \<and> reconnect_timeout f now \<le> INT_MAX \<and>
      (\<forall>t. now \<le> t \<and> t < now + reconnect_timeout f now \<longrightarrow> reconnect_run f t = (None, f)) \<and>
      (reconnect_timeout f now < INT_MAX \<longrightarrow> fst (reconnect_run f (now + reconnect_timeout f now)) \<noteq> None)"
    unfolding timeout by (auto intro!: run_before_deadline run_at_deadline [OF False] simp del: not_None_eq)
  have "reconnect_deadline f < LLONG_MAX" "fst (reconnect_run f (reconnect_deadline f)) \<noteq> None"
    using deadline_in_range [OF assms] False run_at_deadline [OF False] by auto
  then have "\<not> (\<forall>t. t < LLONG_MAX \<longrightarrow> reconnect_run f t = (None, f))" by (metis fst_conv)
  then show ?thesis using deadline_in_range [OF assms] rest by auto
qed

theorem reconnect_timeout_exact_witness:
  "reconnect_timeout sample_fsm 600 = 4900 \<and> fst (reconnect_run sample_fsm (600 + 4900)) \<noteq> None"
proof -
  have "times_in_range sample_fsm" by code_simp
  moreover have "reconnect_timeout sample_fsm 600 = 4900" by code_simp
  ultimately show ?thesis
    using reconnect_timeout_exact [of sample_fsm 600] by (simp add: INT_MAX_def)
qed

text \<open>
  C8.  Keepalive.  When a connection has been idle for the probe interval, \<open>reconnect_run\<close> asks
  for a probe exactly once and stays connected; if a further interval passes in silence it asks to
  disconnect; any activity in between makes the connection active again and restarts the interval.
\<close>

theorem reconnect_keepalive:
  assumes "rc_state f = S_ACTIVE" "0 < rc_probe_interval f"
    and "max (rc_last_activity f) (rc_state_entered f) + rc_probe_interval f \<le> t1"
  defines "g \<equiv> snd (reconnect_run f t1)"
  shows "fst (reconnect_run f t1) = Some RECONNECT_PROBE \<and> reconnect_is_connected g \<and>
    rc_seqno g = rc_seqno f \<and>
    (\<forall>t2. reconnect_run g t2 =
       (if t2 < t1 + rc_probe_interval f then None else Some RECONNECT_DISCONNECT, g)) \<and>
    (\<forall>ta t2. ta \<ge> t1 \<and> t2 < ta + rc_probe_interval f \<longrightarrow>
       rc_state (reconnect_activity g ta) = S_ACTIVE \<and>
       reconnect_run (reconnect_activity g ta) t2 = (None, reconnect_activity g ta))"
proof -
  have run: "reconnect_run f t1 = (Some RECONNECT_PROBE, reconnect_transition f t1 S_IDLE)"
    using assms by (simp add: reconnect_run_def reconnect_deadline_def)
  then have g: "g = reconnect_transition f t1 S_IDLE" by (simp add: g_def)
  have "reconnect_deadline (reconnect_activity g ta) = ta + rc_probe_interval f" for ta
    using assms(2) by (simp add: g reconnect_activity_def reconnect_deadline_def)
  then have act: "reconnect_run (reconnect_activity g ta) t2 = (None, reconnect_activity g ta)"
    if "t2 < ta + rc_probe_interval f" for ta t2
    using that by (simp add: run_before_deadline)
  have "rc_state (reconnect_activity g ta) = S_ACTIVE" for ta
    by (simp add: g reconnect_activity_def)
  moreover have "reconnect_run g t2 =
      (if t2 < t1 + rc_probe_interval f then None else Some RECONNECT_DISCONNECT, g)" for t2
    using assms(2) by (simp add: g reconnect_run_def reconnect_deadline_def)
  moreover have "reconnect_is_connected g" "rc_seqno g = rc_seqno f"
    using assms(1) by (simp_all add: g reconnect_is_connected_def transition_seqno is_connected_state_def)
  ultimately show ?thesis using run act by simp
qed

theorem reconnect_keepalive_witness:
  "fst (reconnect_run sample_fsm 5500) = Some RECONNECT_PROBE \<and>
   reconnect_run (snd (reconnect_run sample_fsm 5500)) 10500 =
     (Some RECONNECT_DISCONNECT, snd (reconnect_run sample_fsm 5500))"
proof -
  have "rc_state sample_fsm = S_ACTIVE" "rc_probe_interval sample_fsm = 5000"
    "max (rc_last_activity sample_fsm) (rc_state_entered sample_fsm) = 500"
    by code_simp+
  then show ?thesis using reconnect_keepalive [of sample_fsm 5500] by simp
qed

text \<open>
  C9.  \<open>reconnect_set_backoff\<close> compares the pending backoff with the caller's argument instead of
  the value it has just stored: passing 0 for "use the default maximum" while the machine is
  backing off drops the wait to 0, below the configured minimum, and the next \<open>reconnect_run\<close> asks
  to connect at once.
\<close>

theorem reconnect_set_backoff_zero_cancels_wait:
  assumes "rc_state f = S_BACKOFF" "0 < rc_backoff f"
  shows "rc_backoff (reconnect_set_backoff f mn 0) = 0 \<and>
    rc_backoff (reconnect_set_backoff f mn 0) < rc_min_backoff (reconnect_set_backoff f mn 0) \<and>
    fst (reconnect_run (reconnect_set_backoff f mn 0) (rc_state_entered f)) = Some RECONNECT_CONNECT"
  using assms
  by (simp add: reconnect_set_backoff_def Let_def reconnect_run_def reconnect_deadline_def)

theorem reconnect_set_backoff_zero_cancels_wait_witness:
  "rc_backoff (reconnect_set_backoff
     (reconnect_fail_all (reconnect_enable (reconnect_create 0) 0) [(0, 0), (1000, 0)]) 0 0) = 0"
proof -
  let ?f = "reconnect_fail_all (reconnect_enable (reconnect_create 0) 0) [(0, 0), (1000, 0)]"
  have "rc_state ?f = S_BACKOFF" "rc_backoff ?f = 2000" by code_simp+
  then show ?thesis using reconnect_set_backoff_zero_cancels_wait [of ?f 0] by simp
qed

end
