(* ===== verification/Bits.thy ===== *)
theory Bits
  imports Prelude
begin

text \<open>
  The bit-level helpers of \<open>lib/util.h\<close> and \<open>lib/util.c\<close> and the saturating arithmetic of
  \<open>lib/sat-math.h\<close>.  The portable versions of \<open>raw_ctz\<close>, \<open>raw_clz64\<close> and \<open>count_1bits\<close> are the ones
  translated.  A buffer is a list of bytes; a C pointer into it is an \<open>int\<close> index, because the
  loops move it one element in front of the buffer before they stop.

  The loops of the flow code that visit the 1-bits of a map from the rightmost on are described by
  \<open>one_bits\<close>, the increasing list of those bits.
\<close>

section \<open>Counting zeros: util.c\<close>

definition CTZ_STEP :: "nat \<Rightarrow> u64 \<times> nat \<Rightarrow> u64 \<times> nat" where
  "CTZ_STEP X s = (let (n, count) = s; k = push_bit X n
                   in if k \<noteq> 0 then (k, count - X) else (n, count))"

definition raw_ctz :: "u64 \<Rightarrow> nat" where
  "raw_ctz n = snd (CTZ_STEP 1 (CTZ_STEP 2 (CTZ_STEP 4 (CTZ_STEP 8 (CTZ_STEP 16 (CTZ_STEP 32 (n, 63)))))))"

definition CLZ_STEP :: "nat \<Rightarrow> u64 \<times> nat \<Rightarrow> u64 \<times> nat" where
  "CLZ_STEP X s = (let (n, count) = s; k = drop_bit X n
                   in if k \<noteq> 0 then (k, count - X) else (n, count))"

definition raw_clz64 :: "u64 \<Rightarrow> nat" where
  "raw_clz64 n = snd (CLZ_STEP 1 (CLZ_STEP 2 (CLZ_STEP 4 (CLZ_STEP 8 (CLZ_STEP 16 (CLZ_STEP 32 (n, 63)))))))"

section \<open>Inline helpers: util.h\<close>

definition is_pow2 :: "u64 \<Rightarrow> bool" where
  "is_pow2 x \<longleftrightarrow> x \<noteq> 0 \<and> (x AND (x - 1)) = 0"

definition ctz32 :: "u32 \<Rightarrow> nat" where
  "ctz32 n = (if n \<noteq> 0 then raw_ctz (ucast n) else 32)"

definition ctz64 :: "u64 \<Rightarrow> nat" where
  "ctz64 n = (if n \<noteq> 0 then raw_ctz n else 64)"

definition clz32 :: "u32 \<Rightarrow> nat" where
  "clz32 n = (if n \<noteq> 0 then raw_clz64 (ucast n) - 32 else 32)"

definition clz64 :: "u64 \<Rightarrow> nat" where
  "clz64 n = (if n \<noteq> 0 then raw_clz64 n else 64)"

definition log_2_floor :: "u64 \<Rightarrow> nat" where
  "log_2_floor n = 63 - raw_clz64 n"

definition log_2_ceil :: "u64 \<Rightarrow> nat" where
  "log_2_ceil n = log_2_floor n + (if is_pow2 n then 0 else 1)"

definition count_1bits :: "u64 \<Rightarrow> u64" where
  "count_1bits x0 =
    (let h55 = 0x5555555555555555;
         h33 = 0x3333333333333333;
         h0F = 0x0F0F0F0F0F0F0F0F;
         h01 = 0x0101010101010101;
         x1 = x0 - (drop_bit 1 x0 AND h55);
         x2 = (x1 AND h33) + (drop_bit 2 x1 AND h33);
         x3 = (x2 + drop_bit 4 x2) AND h0F
     in drop_bit 56 (x3 * h01))"

definition rightmost_1bit :: "u64 \<Rightarrow> u64" where
  "rightmost_1bit x = x AND (- x)"

definition zero_rightmost_1bit :: "u64 \<Rightarrow> u64" where
  "zero_rightmost_1bit x = x AND (x - 1)"

definition rightmost_1bit_idx :: "u32 \<Rightarrow> nat" where
  "rightmost_1bit_idx x = ctz32 x"

definition leftmost_1bit_idx :: "u32 \<Rightarrow> nat" where
  "leftmost_1bit_idx x = (if x \<noteq> 0 then log_2_floor (ucast x) else 32)"

section \<open>Saturating arithmetic: sat-math.h\<close>

definition sat_add :: "u32 \<Rightarrow> u32 \<Rightarrow> u32" where
  "sat_add x y = (if x + y \<ge> x then x + y else - 1)"

definition sat_sub :: "u32 \<Rightarrow> u32 \<Rightarrow> u32" where
  "sat_sub x y = (if x \<ge> y then x - y else 0)"

definition sat_mul :: "u32 \<Rightarrow> u32 \<Rightarrow> u32" where
  "sat_mul x y = (if y = 0 then 0 else if x \<le> (- 1) div y then x * y else - 1)"

section \<open>Correctness of the counting helpers\<close>

text \<open>The position of the lowest and of the highest 1-bit.\<close>

definition lowest_bit :: "'a::len word \<Rightarrow> nat \<Rightarrow> bool" where
  "lowest_bit n c \<longleftrightarrow> bit n c \<and> (\<forall>i<c. \<not> bit n i)"

definition highest_bit :: "'a::len word \<Rightarrow> nat \<Rightarrow> bool" where
  "highest_bit n c \<longleftrightarrow> bit n c \<and> (\<forall>i>c. \<not> bit n i)"

text \<open>The 1-bits of a word, in the order in which the loops over \<open>zero_rightmost_1bit\<close> visit them.\<close>

definition one_bits :: "'a::len word \<Rightarrow> nat list" where
  "one_bits x = filter (bit x) [0..<LENGTH('a)]"

lemma lowest_bit_unique: "lowest_bit n c \<Longrightarrow> lowest_bit n d \<Longrightarrow> c = d"
  unfolding lowest_bit_def by (meson nat_neq_iff)

lemma highest_bit_unique: "highest_bit n c \<Longrightarrow> highest_bit n d \<Longrightarrow> c = d"
  unfolding highest_bit_def by (meson nat_neq_iff)

text \<open>
  What the steps of \<open>raw_ctz\<close> keep, when the next step shifts by at most \<open>X div 2\<close>: the current
  word is the original one shifted left as often as \<open>count\<close> was decremented, and its lowest
  1-bit is among its top \<open>X\<close> bits.
\<close>

definition ctz_inv :: "u64 \<Rightarrow> nat \<Rightarrow> u64 \<times> nat \<Rightarrow> bool" where
  "ctz_inv m X s \<longleftrightarrow> fst s \<noteq> 0 \<and> (\<forall>i. i + X < 64 \<longrightarrow> \<not> bit (fst s) i) \<and>
     fst s = push_bit (63 - snd s) m \<and> snd s \<le> 63 \<and> X \<le> snd s + 1"

lemma CTZ_STEP_inv:
  assumes "ctz_inv m (2 * X) s" "X \<ge> 1"
  shows "ctz_inv m X (CTZ_STEP X s)"
proof -
  obtain n c where s: "s = (n, c)" by (cases s)
  show ?thesis
  proof (cases "push_bit X n = 0")
    case True
    have "\<not> bit n i" if "i + X < 64" for i
    proof -
      have "\<not> bit (push_bit X n) (i + X)" using True by simp
      then show ?thesis using that by (simp add: bit_push_bit_iff)
    qed
    then show ?thesis using True assms s by (auto simp: CTZ_STEP_def ctz_inv_def)
  next
    case False
    have "\<forall>i. i + 2 * X < 64 \<longrightarrow> \<not> bit n i" using assms s unfolding ctz_inv_def by auto
    then have "\<not> bit (push_bit X n) i" if "i + X < 64" for i
      using that by (auto simp: bit_push_bit_iff dest!: spec [of _ "i - X"])
    moreover have e: "63 - (c - X) = X + (63 - c)" using assms s by (simp add: ctz_inv_def)
    have "push_bit X n = push_bit (63 - (c - X)) m"
      using assms s unfolding e ctz_inv_def by (simp add: push_bit_push_bit del: add_diff_assoc)
    ultimately show ?thesis using False assms s
      unfolding CTZ_STEP_def ctz_inv_def by auto
  qed
qed

lemma raw_ctz_lowest:
  assumes "n \<noteq> 0"
  shows "lowest_bit n (raw_ctz n)"
proof -
  define s where "s = CTZ_STEP 1 (CTZ_STEP 2 (CTZ_STEP 4 (CTZ_STEP 8 (CTZ_STEP 16 (CTZ_STEP 32 (n, 63))))))"
  have "ctz_inv n 1 s" unfolding s_def
    by (intro CTZ_STEP_inv; simp; intro CTZ_STEP_inv; simp; intro CTZ_STEP_inv; simp;
        intro CTZ_STEP_inv; simp; intro CTZ_STEP_inv; simp; intro CTZ_STEP_inv;
        simp add: ctz_inv_def assms)
  then have s: "fst s \<noteq> 0" "\<And>i. i < 63 \<Longrightarrow> \<not> bit (fst s) i" "fst s = push_bit (63 - snd s) n" "snd s \<le> 63"
    unfolding ctz_inv_def by auto
  obtain i where i: "i < 64" "bit (fst s) i" using word_nonzero_bit [OF s(1)] by auto
  with s(2) have "i = 63" by (cases "i < 63") auto
  then have b: "bit n (snd s)" using i s(3,4) by (simp add: bit_push_bit_iff)
  have "\<not> bit n j" if "j < snd s" for j
  proof
    assume "bit n j"
    moreover have "j + 63 - snd s = j + (63 - snd s)" "j + (63 - snd s) < 64" using s(4) that by linarith+
    ultimately have "bit (fst s) (j + (63 - snd s))" unfolding s(3) bit_push_bit_iff by simp
    then show False using s(2,4) that by auto
  qed
  then show ?thesis using b by (simp add: lowest_bit_def raw_ctz_def s_def)
qed

definition clz_inv :: "u64 \<Rightarrow> nat \<Rightarrow> u64 \<times> nat \<Rightarrow> bool" where
  "clz_inv m X s \<longleftrightarrow> fst s \<noteq> 0 \<and> (\<forall>i\<ge>X. \<not> bit (fst s) i) \<and>
     fst s = drop_bit (63 - snd s) m \<and> snd s \<le> 63 \<and> X \<le> snd s + 1"

lemma CLZ_STEP_inv:
  assumes "clz_inv m (2 * X) s" "X \<ge> 1"
  shows "clz_inv m X (CLZ_STEP X s)"
proof -
  obtain n c where s: "s = (n, c)" by (cases s)
  show ?thesis
  proof (cases "drop_bit X n = 0")
    case True
    have "\<not> bit n i" if "i \<ge> X" for i
    proof -
      have "\<not> bit (drop_bit X n) (i - X)" using True by simp
      then show ?thesis using that by (simp add: bit_drop_bit_eq)
    qed
    then show ?thesis using True assms s by (auto simp: CLZ_STEP_def clz_inv_def)
  next
    case False
    have "\<forall>i\<ge>2 * X. \<not> bit n i" using assms s unfolding clz_inv_def by auto
    then have "\<not> bit (drop_bit X n) i" if "i \<ge> X" for i
      using that by (auto simp: bit_drop_bit_eq dest!: spec [of _ "i + X"])
    moreover have e: "63 - (c - X) = X + (63 - c)" using assms s by (simp add: clz_inv_def)
    have "drop_bit X n = drop_bit (63 - (c - X)) m"
      using assms s unfolding e clz_inv_def by (simp add: drop_bit_drop_bit del: add_diff_assoc)
    ultimately show ?thesis using False assms s
      unfolding CLZ_STEP_def clz_inv_def by auto
  qed
qed

lemma raw_clz64_highest:
  assumes "n \<noteq> 0"
  shows "raw_clz64 n \<le> 63 \<and> highest_bit n (63 - raw_clz64 n)"
proof -
  define s where "s = CLZ_STEP 1 (CLZ_STEP 2 (CLZ_STEP 4 (CLZ_STEP 8 (CLZ_STEP 16 (CLZ_STEP 32 (n, 63))))))"
  have "clz_inv n 1 s" unfolding s_def
    by (intro CLZ_STEP_inv; simp; intro CLZ_STEP_inv; simp; intro CLZ_STEP_inv; simp;
        intro CLZ_STEP_inv; simp; intro CLZ_STEP_inv; simp; intro CLZ_STEP_inv;
        auto simp: clz_inv_def assms dest: bit_imp_le_length)
  then have s: "fst s \<noteq> 0" "\<And>i. i \<ge> 1 \<Longrightarrow> \<not> bit (fst s) i" "fst s = drop_bit (63 - snd s) n" "snd s \<le> 63"
    unfolding clz_inv_def by auto
  obtain i where i: "i < 64" "bit (fst s) i" using word_nonzero_bit [OF s(1)] by auto
  with s(2) have "i = 0" by (cases "i \<ge> 1") auto
  then have b: "bit n (63 - snd s)" using i s(3,4) by (simp add: bit_drop_bit_eq)
  have "\<not> bit n j" if "j > 63 - snd s" for j
    using s(2) [of "j - (63 - snd s)"] s(3) that by (simp add: bit_drop_bit_eq)
  then show ?thesis using b s(4) by (simp add: highest_bit_def raw_clz64_def s_def)
qed

lemma lowest_bit_unset_minus_1:
  fixes x :: "'a::len word"
  assumes "lowest_bit x c"
  shows "x - 1 = unset_bit c x OR mask c"
proof -
  have c: "c < LENGTH('a)" using assms by (auto simp: lowest_bit_def dest: bit_imp_le_length)
  have "x = unset_bit c x OR 2 ^ c"
    using assms c by (intro bit_word_eqI) (auto simp: lowest_bit_def bit_simps)
  also have "\<dots> = unset_bit c x + 2 ^ c"
    by (rule disjunctive_add [symmetric]) (auto simp: bit_simps)
  finally have "x - 1 = unset_bit c x + mask c" by (simp add: mask_eq_exp_minus_1)
  also have "\<dots> = unset_bit c x OR mask c"
    using assms by (intro disjunctive_add) (auto simp: lowest_bit_def bit_simps)
  finally show ?thesis .
qed

lemma zero_rightmost_bit:
  fixes x :: "'a::len word"
  assumes "lowest_bit x c"
  shows "x AND (x - 1) = unset_bit c x"
  unfolding lowest_bit_unset_minus_1 [OF assms]
  using assms by (intro bit_word_eqI) (auto simp: lowest_bit_def bit_simps)

lemma rightmost_bit:
  fixes x :: "'a::len word"
  assumes "lowest_bit x c"
  shows "x AND (- x) = 2 ^ c"
proof -
  have c: "c < LENGTH('a)" using assms by (auto simp: lowest_bit_def dest: bit_imp_le_length)
  have "- x = NOT (x - 1)" by (simp add: minus_eq_not_minus_1 not_diff_distrib)
  also have "\<dots> = NOT (unset_bit c x OR mask c)" by (simp only: lowest_bit_unset_minus_1 [OF assms])
  finally show ?thesis
    using assms c by (intro bit_word_eqI) (auto simp: lowest_bit_def bit_simps)
qed

lemma one_bits_Cons:
  assumes "lowest_bit x c"
  shows "one_bits x = c # one_bits (unset_bit c x)"
proof -
  let ?n = "LENGTH('a)"
  have c: "c < ?n" using assms by (auto simp: lowest_bit_def dest: bit_imp_le_length)
  then have split: "[0..<?n] = [0..<c] @ c # [Suc c..<?n]"
    by (metis less_imp_le_nat upt_add_eq_append upt_conv_Cons le_add_diff_inverse zero_le)
  have "filter (bit x) [0..<c] = []" using assms by (auto simp: lowest_bit_def)
  moreover have "filter (bit (unset_bit c x)) [0..<c] = []"
    using assms by (auto simp: lowest_bit_def bit_simps)
  moreover have "filter (bit x) [Suc c..<?n] = filter (bit (unset_bit c x)) [Suc c..<?n]"
    by (rule filter_cong) (auto simp: bit_simps)
  moreover have "bit x c" "\<not> bit (unset_bit c x) c" using assms by (auto simp: lowest_bit_def bit_simps)
  ultimately show ?thesis unfolding one_bits_def split by simp
qed

lemma one_bits_simps [simp]:
  "set (one_bits x) = {i. bit x i}" "distinct (one_bits x)" "sorted (one_bits x)" "one_bits 0 = []"
  unfolding one_bits_def
  by (auto simp: sorted_wrt_filter dest: bit_imp_le_length)

lemma one_bits_eq_iff: "one_bits x = one_bits y \<longleftrightarrow> x = y"
proof
  assume "one_bits x = one_bits y"
  then have "{i. bit x i} = {i. bit y i}" by (metis one_bits_simps(1))
  then show "x = y" by (intro bit_word_eqI) auto
qed simp

text \<open>One iteration of a loop that visits the 1-bits of a map from the rightmost on.\<close>

lemma one_bits_step:
  fixes x :: u64
  assumes "x \<noteq> 0"
  shows "one_bits x = raw_ctz x # one_bits (zero_rightmost_1bit x)"
  using one_bits_Cons [OF raw_ctz_lowest [OF assms]] zero_rightmost_bit [OF raw_ctz_lowest [OF assms]]
  by (simp add: zero_rightmost_1bit_def)

lemma rightmost_1bit_eq: "x \<noteq> 0 \<Longrightarrow> rightmost_1bit x = 2 ^ raw_ctz x"
  by (simp add: rightmost_1bit_def rightmost_bit raw_ctz_lowest)

lemma lowest_bit_ucast: "lowest_bit (ucast (x :: u32) :: u64) c \<longleftrightarrow> lowest_bit x c"
  by (auto simp: lowest_bit_def bit_ucast_iff dest: bit_imp_le_length)

lemma ucast_u32_u64_eq_0: "(ucast (x :: u32) :: u64) = 0 \<longleftrightarrow> x = 0"
proof
  assume *: "(ucast x :: u64) = 0"
  have "\<not> bit x i" if "i < 32" for i
  proof -
    have "\<not> bit (ucast x :: u64) i" using * by simp
    then show ?thesis using that by (simp add: bit_ucast_iff)
  qed
  then show "x = 0" by (simp add: word_zero_iff_bits)
qed simp

lemma ctz32_lowest: "x \<noteq> 0 \<Longrightarrow> lowest_bit x (ctz32 x)"
  using raw_ctz_lowest [of "ucast x"] lowest_bit_ucast [of x] ucast_u32_u64_eq_0 [of x]
  by (simp add: ctz32_def)

lemma highest_bit_bounds:
  fixes n :: "'a::len word"
  assumes "highest_bit n c"
  shows "2 ^ c \<le> unat n \<and> unat n < 2 ^ Suc c"
proof -
  have b: "bit (unat n) c" "\<And>i. i > c \<Longrightarrow> \<not> bit (unat n) i"
    using assms by (simp_all add: highest_bit_def bit_unsigned_iff)
  have "take_bit (Suc c) (unat n) = unat n"
    by (rule bit_eqI) (use b(2) in \<open>auto simp: bit_take_bit_iff less_Suc_eq_le linorder_not_less [symmetric]\<close>)
  then have "unat n < 2 ^ Suc c" by (metis take_bit_nat_less_exp)
  moreover have "2 ^ c \<le> unat n"
  proof (rule ccontr)
    assume "\<not> 2 ^ c \<le> unat n"
    then have "take_bit c (unat n) = unat n" by (simp add: take_bit_nat_eq_self)
    then show False using b(1) by (metis bit_take_bit_iff less_irrefl)
  qed
  ultimately show ?thesis by blast
qed

lemma is_pow2_iff: "is_pow2 x \<longleftrightarrow> (\<exists>k<64. x = 2 ^ k)"
proof
  assume a: "is_pow2 x"
  then have nz: "x \<noteq> 0" "zero_rightmost_1bit x = 0" by (simp_all add: is_pow2_def zero_rightmost_1bit_def)
  have "raw_ctz x < 64" using raw_ctz_lowest [OF nz(1)] by (auto simp: lowest_bit_def dest: bit_imp_le_length)
  moreover have "x = 2 ^ raw_ctz x"
  proof -
    have "{i. bit x i} = {raw_ctz x}"
      using one_bits_step [OF nz(1)] nz(2) one_bits_simps(1) [of x] by simp
    then show ?thesis using \<open>raw_ctz x < 64\<close> by (intro bit_word_eqI) (auto simp: bit_simps)
  qed
  ultimately show "\<exists>k<64. x = 2 ^ k" by blast
next
  assume "\<exists>k<64. x = 2 ^ k"
  then obtain k where k: "k < 64" "x = 2 ^ k" by blast
  then have "lowest_bit x k" by (auto simp: lowest_bit_def bit_simps)
  then have "x AND (x - 1) = unset_bit k x" by (rule zero_rightmost_bit)
  also have "\<dots> = 0" using k by (intro bit_word_eqI) (auto simp: bit_simps)
  finally show "is_pow2 x" using k by (simp add: is_pow2_def word_zero_iff_bits) (auto simp: bit_simps)
qed

lemma log_2_floor_bounds:
  assumes "n \<noteq> 0"
  shows "2 ^ log_2_floor n \<le> unat n \<and> unat n < 2 ^ Suc (log_2_floor n)"
  using highest_bit_bounds [OF conjunct2 [OF raw_clz64_highest [OF assms]]] by (simp add: log_2_floor_def)

lemma log_2_ceil_bounds:
  assumes "n \<noteq> 0"
  shows "unat n \<le> 2 ^ log_2_ceil n \<and> (\<forall>k. unat n \<le> 2 ^ k \<longrightarrow> log_2_ceil n \<le> k)"
proof (cases "is_pow2 n")
  case True
  then obtain k where k: "k < 64" "n = 2 ^ k" using is_pow2_iff by blast
  then have "unat n = 2 ^ k" by (intro bit_eqI) (auto simp: bit_simps)
  then have e: "(2::nat) ^ log_2_floor n \<le> 2 ^ k" "(2::nat) ^ k < 2 ^ Suc (log_2_floor n)"
    using log_2_floor_bounds [OF assms] by simp_all
  have "log_2_floor n \<le> k" "k < Suc (log_2_floor n)"
    using power_le_imp_le_exp [OF _ e(1)] power_less_imp_less_exp [OF _ e(2)] by simp_all
  then show ?thesis using True \<open>unat n = 2 ^ k\<close> by (simp add: log_2_ceil_def)
next
  case False
  have b: "2 ^ log_2_floor n \<le> unat n" "unat n < 2 ^ Suc (log_2_floor n)"
    using log_2_floor_bounds [OF assms] by auto
  have "Suc (log_2_floor n) \<le> k" if "unat n \<le> 2 ^ k" for k
  proof (rule ccontr)
    assume "\<not> ?thesis"
    then have kl: "k \<le> log_2_floor n" by simp
    then have "(2::nat) ^ k \<le> 2 ^ log_2_floor n" by simp
    with that b have "unat n = 2 ^ log_2_floor n" by linarith
    then have "n = 2 ^ log_2_floor n" by (metis of_nat_numeral of_nat_power of_nat_unat ucast_id)
    moreover have "log_2_floor n < 64" by (simp add: log_2_floor_def)
    ultimately show False using False is_pow2_iff by blast
  qed
  then show ?thesis using False b by (simp add: log_2_ceil_def)
qed

lemma sat_arith_exact:
  "unat (sat_add x y) = min (unat x + unat y) (2 ^ 32 - 1)" (is ?add)
  "unat (sat_sub x y) = unat x - unat y" (is ?sub)
  "unat (sat_mul x y) = min (unat x * unat y) (2 ^ 32 - 1)" (is ?mul)
proof -
  have m: "unat (- 1 :: u32) = 2 ^ 32 - 1" by (simp add: unsigned_minus_1_eq_mask mask_eq_exp_minus_1)
  show ?sub by (simp add: sat_sub_def word_le_nat_alt unat_sub)
  show ?add
  proof (cases "unat x + unat y < 2 ^ 32")
    case True
    then show ?thesis by (simp add: sat_add_def word_le_nat_alt unat_word_ariths)
  next
    case False
    have "unat (x + y) = unat x + unat y - 2 ^ 32"
      using False unsigned_less [of x, where ?'a = nat] unsigned_less [of y, where ?'a = nat]
      by (simp add: unat_word_ariths le_mod_geq mod_less)
    then have "\<not> x \<le> x + y" using unsigned_less [of y, where ?'a = nat] False by (simp add: word_le_nat_alt)
    then show ?thesis using False m by (simp add: sat_add_def)
  qed
  show ?mul
  proof (cases "y = 0")
    case False
    then have y: "unat y > 0" by (simp add: unat_gt_0)
    have d: "x \<le> (- 1) div y \<longleftrightarrow> unat x * unat y \<le> 2 ^ 32 - 1"
      using y by (simp add: word_le_nat_alt unat_div m less_eq_div_iff_mult_less_eq)
    show ?thesis using False d m by (auto simp: sat_mul_def unat_word_ariths)
  qed (simp add: sat_mul_def)
qed

section \<open>Properties\<close>

text \<open>
  C14.  On every nonzero word the binary searches of \<open>raw_ctz\<close> and \<open>raw_clz64\<close> find the lowest and
  the highest 1-bit, \<open>rightmost_1bit\<close> isolates and \<open>zero_rightmost_1bit\<close> clears the lowest one,
  and \<open>log_2_floor\<close> and \<open>log_2_ceil\<close> are the exponents of the powers of two around the word.
\<close>

theorem bit_scan_correct:
  assumes "n \<noteq> 0"
  shows "lowest_bit n (raw_ctz n) \<and> highest_bit n (63 - raw_clz64 n) \<and>
    rightmost_1bit n = 2 ^ raw_ctz n \<and> zero_rightmost_1bit n = unset_bit (raw_ctz n) n \<and>
    2 ^ log_2_floor n \<le> unat n \<and> unat n < 2 ^ Suc (log_2_floor n) \<and>
    unat n \<le> 2 ^ log_2_ceil n \<and> (\<forall>k. unat n \<le> 2 ^ k \<longrightarrow> log_2_ceil n \<le> k)"
  using raw_ctz_lowest [OF assms] raw_clz64_highest [OF assms] rightmost_1bit_eq [OF assms]
    zero_rightmost_bit [OF raw_ctz_lowest [OF assms]] log_2_floor_bounds [OF assms]
    log_2_ceil_bounds [OF assms]
  by (simp add: zero_rightmost_1bit_def)

theorem bit_scan_correct_witness:
  "rightmost_1bit 0x58 = 2 ^ raw_ctz 0x58 \<and> raw_ctz 0x58 = 3 \<and> rightmost_1bit 0x58 = 8 \<and>
   2 ^ log_2_floor 0x58 \<le> unat (0x58 :: u64)"
proof -
  have e: "raw_ctz 0x58 = 3" "rightmost_1bit 0x58 = 8" by code_simp+
  have nz: "(0x58 :: u64) \<noteq> 0" by simp
  show ?thesis using bit_scan_correct [OF nz] e by simp
qed

end
