(* ===== verification/Popcount.thy ===== *)
theory Popcount
  imports Bits
begin

text \<open>
  The portable \<open>count_1bits\<close> of \<open>lib/util.h\<close> counts the 1-bits of a word.  A word is taken as the
  number with given base-256 digits.  The first three steps of \<open>count_1bits\<close> act
  on each byte on its own, since no bit that survives the masks crosses a byte boundary.
\<close>

fun of_bytes :: "int list \<Rightarrow> int" where
  "of_bytes [] = 0"
| "of_bytes (b # bs) = b + 256 * of_bytes bs"

definition is_byte :: "int \<Rightarrow> bool" where
  "is_byte b \<longleftrightarrow> 0 \<le> b \<and> b < 256"

definition pop_byte :: "int \<Rightarrow> int" where
  "pop_byte b = (\<Sum>i\<leftarrow>[0, 1, 2, 3, 4, 5, 6, 7]. of_bool (bit b i))"

lemma and_byte:
  fixes a c b d :: int
  assumes "is_byte a" "is_byte c"
  shows "(a + 256 * b) AND (c + 256 * d) = (a AND c) + 256 * (b AND d)"
proof -
  have e: "x + 256 * y = x OR push_bit 8 y" if "take_bit 8 x = x" for x y :: int
  proof -
    from that have "x + push_bit 8 y = x OR push_bit 8 y"
      by (intro disjunctive_add) (metis bit_push_bit_iff bit_take_bit_iff not_le)
    then show ?thesis by (simp add: push_bit_eq_mult mult.commute)
  qed
  have t: "take_bit 8 a = a" "take_bit 8 c = c" using assms by (simp_all add: take_bit_eq_mod is_byte_def)
  then have h: "\<not> bit a i" "\<not> bit c i" if "i \<ge> 8" for i
    using that by (metis bit_take_bit_iff not_le)+
  have "take_bit 8 (a AND c) = (a AND c)" using t by simp
  then show ?thesis unfolding e [OF t(1)] e [OF t(2)] e [OF \<open>take_bit 8 (a AND c) = (a AND c)\<close>]
    by (intro bit_eqI) (use h in \<open>auto simp: bit_simps\<close>)
qed

definition pop2 :: "int \<Rightarrow> int" where
  "pop2 b = b - (b div 2 AND 0x55)"

definition pop4 :: "int \<Rightarrow> int" where
  "pop4 b = (b AND 0x33) + (b div 4 AND 0x33)"

definition pop8 :: "int \<Rightarrow> int" where
  "pop8 b = (b + b div 16) AND 0x0F"

definition nibbles_ok :: "int \<Rightarrow> bool" where
  "nibbles_ok b \<longleftrightarrow> 0 \<le> b \<and> b div 16 \<le> 4 \<and> b mod 16 \<le> 4"

lemma pop2_mask_upto: "\<forall>b\<in>set [0..255]. \<forall>e\<in>set [0..1]. (b div 2 + 128 * e) AND 0x55 = (b div 2 AND 0x55)"
  by code_simp

lemma pop4_mask_upto: "\<forall>b\<in>set [0..255]. \<forall>e\<in>set [0..3]. (b div 4 + 64 * e) AND 0x33 = (b div 4 AND 0x33)"
  by code_simp

lemma pop8_mask_upto: "\<forall>b\<in>set [0..68]. \<forall>e\<in>set [0..4]. nibbles_ok b \<longrightarrow> (b + b div 16 + 16 * e) AND 0x0F = pop8 b"
  by code_simp

lemma pop_bytes_upto:
  "\<forall>b\<in>set [0..255]. is_byte (pop2 b) \<and> is_byte (pop4 (pop2 b)) \<and> nibbles_ok (pop4 (pop2 b)) \<and>
     pop8 (pop4 (pop2 b)) = pop_byte b \<and> 0 \<le> pop_byte b \<and> pop_byte b \<le> 8"
  by code_simp

lemmas pop2_mask = pop2_mask_upto [unfolded set_upto]
lemmas pop4_mask = pop4_mask_upto [unfolded set_upto]
lemmas pop8_mask = pop8_mask_upto [unfolded set_upto]
lemmas pop_bytes = pop_bytes_upto [unfolded set_upto]

lemma byte_upto: "is_byte b \<Longrightarrow> b \<in> {0..255}"
  by (simp add: is_byte_def)

lemma pop2_byte [simp]: "is_byte b \<Longrightarrow> is_byte (pop2 b)"
  using bspec [OF pop_bytes byte_upto] by blast

lemma pop4_byte [simp]: "is_byte b \<Longrightarrow> is_byte (pop4 (pop2 b))"
  using bspec [OF pop_bytes byte_upto] by blast

lemma pop4_nibbles [simp]: "is_byte b \<Longrightarrow> nibbles_ok (pop4 (pop2 b))"
  using bspec [OF pop_bytes byte_upto] by blast

lemma of_bytes_bounds: "list_all is_byte bs \<Longrightarrow> 0 \<le> of_bytes bs \<and> of_bytes bs < 256 ^ length bs"
  by (induction bs) (auto simp: is_byte_def)

lemma div_byte:
  fixes b v k m :: int
  assumes "k * m = 256" "m > 0"
  shows "(b + 256 * v) div m = (b div m + k * (v mod m)) + 256 * (v div m)"
proof -
  have "(b + 256 * v) div m = (b + m * (k * v)) div m" using assms(1) by (metis mult.assoc mult.commute)
  also have "\<dots> = b div m + k * v" using assms(2) by simp
  also have "k * v = k * (v mod m) + 256 * (v div m)"
    unfolding assms(1) [symmetric] by (metis distrib_left mod_mult_div_eq mult.assoc)
  finally show ?thesis by simp
qed

lemma of_bytes_pop2:
  "list_all is_byte bs \<Longrightarrow>
   of_bytes bs - (of_bytes bs div 2 AND of_bytes (replicate (length bs) 0x55)) = of_bytes (map pop2 bs)"
proof (induction bs)
  case (Cons b bs)
  let ?v = "of_bytes bs"
  have "(b + 256 * ?v) div 2 = (b div 2 + 128 * (?v mod 2)) + 256 * (?v div 2)" by (rule div_byte) simp_all
  moreover have "(b div 2 + 128 * (?v mod 2)) AND 0x55 = (b div 2 AND 0x55)"
    by (rule pop2_mask [rule_format]) (use Cons.prems in \<open>simp_all add: is_byte_def\<close>)
  moreover have "is_byte (b div 2 + 128 * (?v mod 2))"
    using Cons.prems pos_mod_bound [of 2 ?v] pos_mod_sign [of 2 ?v] unfolding is_byte_def list.pred_inject by linarith
  ultimately have "(b + 256 * ?v) div 2 AND of_bytes (replicate (length (b # bs)) 0x55) =
      (b div 2 AND 0x55) + 256 * (?v div 2 AND of_bytes (replicate (length bs) 0x55))"
    by (simp add: and_byte is_byte_def)
  then show ?case using Cons by (simp add: pop2_def)
qed simp

lemma of_bytes_and_div:
  assumes "\<And>b e. is_byte b \<Longrightarrow> 0 \<le> e \<Longrightarrow> e < 4 \<Longrightarrow> (b div 4 + 64 * e) AND m = (b div 4 AND m)"
    "is_byte m" "list_all is_byte bs"
  shows "of_bytes bs div 4 AND of_bytes (replicate (length bs) m) = of_bytes (map (\<lambda>b. b div 4 AND m) bs)"
  using assms(3)
proof (induction bs)
  case (Cons b bs)
  let ?v = "of_bytes bs"
  have "(b + 256 * ?v) div 4 = (b div 4 + 64 * (?v mod 4)) + 256 * (?v div 4)" by (rule div_byte) simp_all
  moreover have "is_byte (b div 4 + 64 * (?v mod 4))"
    using Cons.prems pos_mod_bound [of 4 ?v] pos_mod_sign [of 4 ?v] unfolding is_byte_def list.pred_inject by linarith
  moreover have "(b div 4 + 64 * (?v mod 4)) AND m = (b div 4 AND m)"
    using Cons.prems by (intro assms(1)) simp_all
  ultimately have "(b + 256 * ?v) div 4 AND (m + 256 * of_bytes (replicate (length bs) m)) =
      (b div 4 AND m) + 256 * (?v div 4 AND of_bytes (replicate (length bs) m))"
    using assms(2) by (simp only: and_byte)
  then show ?case using Cons by simp
qed simp

lemma of_bytes_and:
  "list_all is_byte bs \<Longrightarrow> is_byte m \<Longrightarrow>
   of_bytes bs AND of_bytes (replicate (length bs) m) = of_bytes (map (\<lambda>b. b AND m) bs)"
  by (induction bs) (auto simp: and_byte)

lemma byte_33: "is_byte 0x33" and byte_0F: "is_byte 0x0F" by (simp_all add: is_byte_def)

lemma of_bytes_pop4:
  assumes "list_all is_byte bs"
  shows "(of_bytes bs AND of_bytes (replicate (length bs) 0x33)) +
     (of_bytes bs div 4 AND of_bytes (replicate (length bs) 0x33)) = of_bytes (map pop4 bs)"
proof -
  have add: "of_bytes (map f bs) + of_bytes (map g bs) = of_bytes (map (\<lambda>b. f b + g b) bs)" for f g
    by (induction bs) auto
  have "\<And>b e. is_byte b \<Longrightarrow> 0 \<le> e \<Longrightarrow> e < 4 \<Longrightarrow> (b div 4 + 64 * e) AND 0x33 = (b div 4 AND 0x33)"
    by (rule pop4_mask [rule_format]) (simp_all add: is_byte_def)
  then show ?thesis using assms
    by (simp add: of_bytes_and of_bytes_and_div [of "0x33"] add pop4_def [abs_def] byte_33)
qed

lemma nibbles_mod:
  assumes "list_all nibbles_ok bs"
  shows "0 \<le> of_bytes bs mod 16 \<and> of_bytes bs mod 16 \<le> 4"
proof (cases bs)
  case (Cons b cs)
  have "of_bytes bs = b + 16 * (16 * of_bytes cs)" by (simp add: Cons)
  then have "of_bytes bs mod 16 = b mod 16" by (simp only: mod_mult_self2)
  moreover have "b mod 16 \<le> 4" using assms by (simp add: Cons nibbles_ok_def)
  ultimately show ?thesis by simp
qed simp

lemma of_bytes_pop8:
  "list_all is_byte bs \<Longrightarrow> list_all nibbles_ok bs \<Longrightarrow>
   (of_bytes bs + of_bytes bs div 16) AND of_bytes (replicate (length bs) 0x0F) = of_bytes (map pop8 bs)"
proof (induction bs)
  case (Cons b bs)
  let ?v = "of_bytes bs" and ?e = "of_bytes bs mod 16"
  have e: "0 \<le> ?e" "?e \<le> 4" using nibbles_mod Cons.prems by auto
  have "0 \<le> b" "b div 16 \<le> 4" "b mod 16 \<le> 4" using Cons.prems by (simp_all add: nibbles_ok_def)
  then have b: "0 \<le> b" "b \<le> 68" "0 \<le> b div 16" "b div 16 \<le> 4" using div_mult_mod_eq [of b 16] by linarith+
  have "(b + 256 * ?v) + (b + 256 * ?v) div 16 = (b + b div 16 + 16 * ?e) + 256 * (?v + ?v div 16)"
    using div_byte [of 16 16 b ?v] by simp
  moreover have "is_byte (b + b div 16 + 16 * ?e)" using b e unfolding is_byte_def by linarith
  moreover have "(b + b div 16 + 16 * ?e) AND 0x0F = pop8 b"
    by (rule pop8_mask [rule_format]) (use Cons.prems b(1,2) e in simp_all)
  ultimately have "(b + 256 * ?v) + (b + 256 * ?v) div 16 AND (0x0F + 256 * of_bytes (replicate (length bs) 0x0F)) =
      pop8 b + 256 * ((?v + ?v div 16) AND of_bytes (replicate (length bs) 0x0F))"
    by (simp only: and_byte byte_0F)
  then show ?case using Cons by simp
qed simp

lemma of_bytes_sum:
  assumes "length bs = 8" "\<forall>b\<in>set bs. 0 \<le> b \<and> b \<le> 8"
  shows "(of_bytes bs * 0x0101010101010101) mod 2 ^ 64 div 2 ^ 56 = sum_list bs"
proof -
  obtain a b c d e f g h where bs: "bs = [a, b, c, d, e, f, g, h]"
    using assms(1) by (auto simp: numeral_eq_Suc length_Suc_conv)
  let ?lo = "of_bytes [a, a+b, a+b+c, a+b+c+d, a+b+c+d+e, a+b+c+d+e+f, a+b+c+d+e+f+g]"
  let ?s = "a+b+c+d+e+f+g+h"
  let ?hi = "of_bytes [b+c+d+e+f+g+h, c+d+e+f+g+h, d+e+f+g+h, e+f+g+h, f+g+h, g+h, h]"
  have eq: "of_bytes bs * 0x0101010101010101 = (?lo + 72057594037927936 * ?s) + 18446744073709551616 * ?hi"
    by (simp add: bs)
  have "list_all is_byte [a, a+b, a+b+c, a+b+c+d, a+b+c+d+e, a+b+c+d+e+f, a+b+c+d+e+f+g, ?s]"
    using assms(2) by (simp add: bs is_byte_def)
  then have s: "is_byte ?s" and "list_all is_byte [a, a+b, a+b+c, a+b+c+d, a+b+c+d+e, a+b+c+d+e+f, a+b+c+d+e+f+g]"
    by (simp_all only: list.pred_inject)
  from of_bytes_bounds [OF this(2)] have lo: "0 \<le> ?lo" "?lo < 72057594037927936" by (simp_all del: of_bytes.simps)
  have "(x + 72057594037927936 * y + 18446744073709551616 * z) mod 18446744073709551616 div 72057594037927936 = y"
    if "0 \<le> x" "x < 72057594037927936" "is_byte y" for x y z :: int
  proof -
    have "(x + 72057594037927936 * y + 18446744073709551616 * z) mod 18446744073709551616 = x + 72057594037927936 * y"
      using that by (simp add: is_byte_def)
    moreover have "(x + 72057594037927936 * y) div 72057594037927936 = y" using that(1,2) by simp
    ultimately show ?thesis by simp
  qed
  from this [OF lo s, of ?hi] have "of_bytes bs * 0x0101010101010101 mod 18446744073709551616 div 72057594037927936 = ?s"
    unfolding eq .
  then show ?thesis by (simp add: bs add.assoc)
qed

definition word_bytes :: "u64 \<Rightarrow> int list" where
  "word_bytes x = map (\<lambda>j. take_bit 8 (drop_bit (8 * j) (uint x))) [0..<8]"

lemma of_bytes_drop:
  "of_bytes (map (\<lambda>j. take_bit 8 (drop_bit (8 * j) X)) [k..<k + n]) = take_bit (8 * n) (drop_bit (8 * k) X)"
proof (induction n arbitrary: k)
  case (Suc n)
  have u: "[k..<k + Suc n] = k # [Suc k..<Suc k + n]" by (simp add: upt_rec)
  have "take_bit (8 * Suc n) (drop_bit (8 * k) X) =
      take_bit 8 (drop_bit (8 * k) X) + 256 * take_bit (8 * n) (drop_bit 8 (drop_bit (8 * k) X))"
    using take_bit_eq_mod mod_mult2_eq
    by (simp add: take_bit_eq_mod drop_bit_eq_div power_add zmod_zmult2_eq)
  then show ?case unfolding u using Suc [of "Suc k"] by (simp add: add.commute)
qed simp

lemma of_bytes_word_bytes: "of_bytes (word_bytes x) = uint x"
proof -
  have "uint x = take_bit 64 (uint x)" by (simp add: bintr_uint)
  then show ?thesis using of_bytes_drop [of "uint x" 0 8] by (simp add: word_bytes_def)
qed

lemma word_bytes_ok: "list_all is_byte (word_bytes x)" "length (word_bytes x) = 8"
  by (auto simp: word_bytes_def list_all_iff is_byte_def take_bit_eq_mod)

lemma drop_bit_of_int:
  assumes "0 \<le> X" "X < 2 ^ 64"
  shows "drop_bit n (word_of_int X :: u64) = word_of_int (X div 2 ^ n)"
proof -
  have "uint (word_of_int X :: u64) = X" using assms by (simp add: take_bit_eq_mod unsigned_of_int)
  then have "uint (drop_bit n (word_of_int X :: u64)) = X div 2 ^ n"
    unfolding unsigned_drop_bit_eq using assms by (simp add: drop_bit_eq_div take_bit_eq_mod)
  then show ?thesis by (metis word_of_int_uint)
qed

lemma sum_list_of_bool: "(\<Sum>i\<leftarrow>xs. of_bool (P i)) = int (length (filter P xs))"
  by (induction xs) auto

lemma sum_list_concat_map: "sum_list (concat (map f xs)) = (\<Sum>x\<leftarrow>xs. sum_list (f x))"
  by (induction xs) auto

lemma pop_word_bytes: "sum_list (map pop_byte (word_bytes x)) = int (length (one_bits x))"
proof -
  have u: "[0..<64] = concat (map (\<lambda>j. map (\<lambda>i. 8 * j + i) [0, 1, 2, 3, 4, 5, 6, 7]) [0..<8 :: nat])"
    by code_simp
  have b: "pop_byte (take_bit 8 (drop_bit (8 * j) (uint x))) =
      (\<Sum>i\<leftarrow>map (\<lambda>i. 8 * j + i) [0, 1, 2, 3, 4, 5, 6, 7]. of_bool (bit x i))" for j
    by (simp add: pop_byte_def bit_simps bit_uint_iff)
  have "int (length (one_bits x)) = (\<Sum>i\<leftarrow>[0..<64]. of_bool (bit x i))"
    by (simp only: sum_list_of_bool one_bits_def) simp
  also have "\<dots> = sum_list (map pop_byte (word_bytes x))"
    unfolding u word_bytes_def map_concat sum_list_concat_map by (simp only: map_map o_def b)
  finally show ?thesis by simp
qed

lemma count_1bits_correct: "unat (count_1bits x) = length (one_bits x)"
proof -
  define b0 b1 b2 b3 where "b0 = word_bytes x" and "b1 = map pop2 b0" and "b2 = map pop4 b1" and "b3 = map pop8 b2"
  note defs = b1_def b2_def b3_def
  have ok: "list_all is_byte b0" "length b0 = 8" by (simp_all add: b0_def word_bytes_ok)
  then have ok1: "list_all is_byte b1" "list_all is_byte b2" "list_all nibbles_ok b2"
    by (auto simp: defs list_all_iff)
  have len: "length b1 = 8" "length b2 = 8" by (simp_all add: defs ok)
  have x0: "x = word_of_int (of_bytes b0)" by (simp add: b0_def of_bytes_word_bytes)
  have bounds: "0 \<le> of_bytes bs" "of_bytes bs < 2 ^ 64" if "list_all is_byte bs" "length bs = 8" for bs
    using of_bytes_bounds [OF that(1)] that(2) by simp_all
  have rep: "of_bytes (replicate 8 m) = m * 0x0101010101010101" for m by (simp add: numeral_eq_Suc)
  have "of_bytes b1 = of_bytes b0 - (of_bytes b0 div 2 AND 0x5555555555555555)"
    using of_bytes_pop2 [OF ok(1)] by (simp add: ok rep defs)
  then have x1: "x - (drop_bit 1 x AND 0x5555555555555555) = word_of_int (of_bytes b1)"
    by (simp add: x0 drop_bit_of_int [OF bounds [OF ok]] of_int_and_eq)
  have "of_bytes b2 = (of_bytes b1 AND 0x3333333333333333) + (of_bytes b1 div 4 AND 0x3333333333333333)"
    using of_bytes_pop4 [OF ok1(1)] by (simp add: ok rep defs)
  then have x2: "(word_of_int (of_bytes b1) AND 0x3333333333333333) +
      (drop_bit 2 (word_of_int (of_bytes b1)) AND 0x3333333333333333) = (word_of_int (of_bytes b2) :: u64)"
    by (simp add: drop_bit_of_int [OF bounds [OF ok1(1) len(1)]] of_int_and_eq)
  have "of_bytes b3 = (of_bytes b2 + of_bytes b2 div 16) AND 0x0F0F0F0F0F0F0F0F"
    using of_bytes_pop8 [OF ok1(2,3)] by (simp add: ok rep defs)
  then have x3: "(word_of_int (of_bytes b2) + drop_bit 4 (word_of_int (of_bytes b2))) AND 0x0F0F0F0F0F0F0F0F =
      (word_of_int (of_bytes b3) :: u64)"
    by (simp add: drop_bit_of_int [OF bounds [OF ok1(2) len(2)]] of_int_and_eq)
  have b3: "b3 = map pop_byte b0" "\<forall>b\<in>set b3. 0 \<le> b \<and> b \<le> 8"
    using ok bspec [OF pop_bytes byte_upto] by (auto simp: defs list_all_iff)
  have "uint (count_1bits x) = (of_bytes b3 * 0x0101010101010101) mod 2 ^ 64 div 2 ^ 56"
    unfolding count_1bits_def Let_def x1 x2 x3 unsigned_drop_bit_eq
    by (simp add: drop_bit_eq_div bintr_uint uint_word_ariths unsigned_of_int take_bit_eq_mod mod_mult_left_eq)
  also have "\<dots> = int (length (one_bits x))"
    using of_bytes_sum [OF _ b3(2)] pop_word_bytes [of x] by (simp add: b3(1) ok b0_def word_bytes_ok)
  finally show ?thesis by (simp add: unat_eq_nat_uint)
qed

text \<open>
  C13.  The branch-free \<open>count_1bits\<close> (masked additions in place, then one multiplication) returns
  the number of 1-bits of every 64-bit word, between 0 and 64.
\<close>

theorem count_1bits_counts:
  "unat (count_1bits x) = card {i. bit x i} \<and> count_1bits x \<le> 64"
proof -
  have c: "card {i. bit x i} = length (one_bits x)"
    by (metis distinct_card one_bits_simps(1,2))
  have "length (one_bits x) \<le> 64"
    using length_filter_le [of "bit x" "[0..<64]"] by (simp add: one_bits_def)
  then show ?thesis using count_1bits_correct [of x] c
    by (simp add: word_le_nat_alt)
qed

end
