(* ===== verification/Bitwise.thy ===== *)
theory Bitwise
  imports Bits
begin

text \<open>
  The bit-string operations of \<open>lib/util.c\<close>: \<open>bitwise_copy\<close>, \<open>bitwise_zero\<close>, \<open>bitwise_one\<close>,
  \<open>bitwise_is_all_zeros\<close>, \<open>bitwise_put\<close>, \<open>bitwise_get\<close> and the byte scans \<open>is_all_zeros\<close> and
  \<open>is_all_ones\<close>.  The flow and action code uses them to read and write arbitrary bit ranges of
  packet fields.  A buffer is a list of bytes, taken as one integer in network byte order; \<open>be_bit\<close>
  is bit \<open>k\<close> of that integer, and every operation is specified by the bits it changes.

  The pointers \<open>src\<close> and \<open>dst\<close> are \<open>int\<close> indices into the buffers, since the loops leave them one
  element in front of the buffer when they reach its first byte.
\<close>

section \<open>The operations\<close>

definition is_all_zeros :: "u8 list \<Rightarrow> nat \<Rightarrow> bool" where
  "is_all_zeros p n \<longleftrightarrow> (\<forall>i\<in>set [0..<n]. \<not> p ! i \<noteq> 0x00)"

definition is_all_ones :: "u8 list \<Rightarrow> nat \<Rightarrow> bool" where
  "is_all_ones p n \<longleftrightarrow> (\<forall>i\<in>set [0..<n]. \<not> p ! i \<noteq> 0xff)"

text \<open>\<open>memcpy (dst + d, src + s, n)\<close>.\<close>

definition memcpy :: "u8 list \<Rightarrow> int \<Rightarrow> u8 list \<Rightarrow> int \<Rightarrow> nat \<Rightarrow> u8 list" where
  "memcpy dst d src s n = take (nat d) dst @ take n (drop (nat s) src) @ drop (nat d + n) dst"

definition bitwise_copy_aligned :: "u8 list \<Rightarrow> int \<Rightarrow> u8 list \<Rightarrow> int \<Rightarrow> nat \<Rightarrow> u8 list" where
  "bitwise_copy_aligned src s dst d n_bits =
    (let n_bytes = n_bits div 8;
         (src_p, dst_p, dst1, n) =
           (if n_bytes \<noteq> 0
            then let d1 = d - (int n_bytes - 1); s1 = s - (int n_bytes - 1)
                 in (s1 - 1, d1 - 1, memcpy dst d1 src s1 n_bytes, n_bits mod 8)
            else (s, d, dst, n_bits))
     in if n \<noteq> 0
        then let mask = push_bit n 1 - 1
             in dst1[nat dst_p := (dst1 ! nat dst_p AND NOT mask) OR (src ! nat src_p AND mask)]
        else dst1)"

text \<open>
  The loop of the unaligned case.  The two offsets are below 8 on every call: they start as
  remainders modulo 8, and the body replaces 8 by 0.  The guard only states that.
\<close>

function bitwise_copy_loop :: "u8 list \<Rightarrow> int \<Rightarrow> nat \<Rightarrow> u8 list \<Rightarrow> int \<Rightarrow> nat \<Rightarrow> nat \<Rightarrow> u8 list" where
  "bitwise_copy_loop src s src_ofs dst d dst_ofs n_bits =
    (if n_bits > 0 \<and> src_ofs < 8 \<and> dst_ofs < 8
     then let max_copy = 8 - max src_ofs dst_ofs;
              chunk = min n_bits max_copy;
              mask = push_bit dst_ofs (push_bit chunk 1 - 1);
              dst1 = dst[nat d := dst ! nat d AND NOT mask];
              dst2 = dst1[nat d := dst1 ! nat d OR (push_bit dst_ofs (drop_bit src_ofs (src ! nat s)) AND mask)];
              (s', src_ofs') = (if src_ofs + chunk = 8 then (s - 1, 0) else (s, src_ofs + chunk));
              (d', dst_ofs') = (if dst_ofs + chunk = 8 then (d - 1, 0) else (d, dst_ofs + chunk))
          in bitwise_copy_loop src s' src_ofs' dst2 d' dst_ofs' (n_bits - chunk)
     else dst)"
  by pat_completeness auto
termination by (relation "measure (\<lambda>(src, s, src_ofs, dst, d, dst_ofs, n_bits). n_bits)") auto

declare bitwise_copy_loop.simps [simp del]

definition bitwise_copy :: "u8 list \<Rightarrow> nat \<Rightarrow> nat \<Rightarrow> u8 list \<Rightarrow> nat \<Rightarrow> nat \<Rightarrow> nat \<Rightarrow> u8 list" where
  "bitwise_copy src src_len src_ofs dst dst_len dst_ofs n_bits =
    (let s = int src_len - (int (src_ofs div 8) + 1); src_ofs = src_ofs mod 8;
         d = int dst_len - (int (dst_ofs div 8) + 1); dst_ofs = dst_ofs mod 8
     in if src_ofs = 0 \<and> dst_ofs = 0
        then bitwise_copy_aligned src s dst d n_bits
        else bitwise_copy_loop src s src_ofs dst d dst_ofs n_bits)"

text \<open>The whole bytes and the last partial byte of \<open>bitwise_zero\<close>, and the operation.\<close>

function bitwise_zero_bytes :: "u8 list \<Rightarrow> int \<Rightarrow> nat \<Rightarrow> u8 list" where
  "bitwise_zero_bytes dst d n_bits =
    (if n_bits \<ge> 8 then bitwise_zero_bytes (dst[nat d := 0]) (d - 1) (n_bits - 8)
     else if n_bits \<noteq> 0 then dst[nat d := dst ! nat d AND NOT (push_bit n_bits 1 - 1)]
     else dst)"
  by pat_completeness auto
termination by (relation "measure (\<lambda>(dst, d, n_bits). n_bits)") auto

definition bitwise_zero :: "u8 list \<Rightarrow> nat \<Rightarrow> nat \<Rightarrow> nat \<Rightarrow> u8 list" where
  "bitwise_zero dst dst_len dst_ofs n_bits =
    (if n_bits = 0 then dst
     else let d = int dst_len - (int (dst_ofs div 8) + 1); dst_ofs = dst_ofs mod 8
          in if dst_ofs \<noteq> 0
             then let chunk = min n_bits (8 - dst_ofs);
                      dst = dst[nat d := dst ! nat d AND NOT (push_bit dst_ofs (push_bit chunk 1 - 1))];
                      n_bits = n_bits - chunk
                  in if n_bits = 0 then dst else bitwise_zero_bytes dst (d - 1) n_bits
             else bitwise_zero_bytes dst d n_bits)"

function bitwise_one_bytes :: "u8 list \<Rightarrow> int \<Rightarrow> nat \<Rightarrow> u8 list" where
  "bitwise_one_bytes dst d n_bits =
    (if n_bits \<ge> 8 then bitwise_one_bytes (dst[nat d := 0xff]) (d - 1) (n_bits - 8)
     else if n_bits \<noteq> 0 then dst[nat d := dst ! nat d OR (push_bit n_bits 1 - 1)]
     else dst)"
  by pat_completeness auto
termination by (relation "measure (\<lambda>(dst, d, n_bits). n_bits)") auto

definition bitwise_one :: "u8 list \<Rightarrow> nat \<Rightarrow> nat \<Rightarrow> nat \<Rightarrow> u8 list" where
  "bitwise_one dst dst_len dst_ofs n_bits =
    (if n_bits = 0 then dst
     else let d = int dst_len - (int (dst_ofs div 8) + 1); dst_ofs = dst_ofs mod 8
          in if dst_ofs \<noteq> 0
             then let chunk = min n_bits (8 - dst_ofs);
                      dst = dst[nat d := dst ! nat d OR push_bit dst_ofs (push_bit chunk 1 - 1)];
                      n_bits = n_bits - chunk
                  in if n_bits = 0 then dst else bitwise_one_bytes dst (d - 1) n_bits
             else bitwise_one_bytes dst d n_bits)"

function bitwise_is_all_zeros_bytes :: "u8 list \<Rightarrow> int \<Rightarrow> nat \<Rightarrow> bool" where
  "bitwise_is_all_zeros_bytes p i n_bits =
    (if n_bits \<ge> 8 then (if p ! nat i \<noteq> 0 then False else bitwise_is_all_zeros_bytes p (i - 1) (n_bits - 8))
     else if n_bits \<noteq> 0 \<and> (p ! nat i AND (push_bit n_bits 1 - 1)) \<noteq> 0 then False
     else True)"
  by pat_completeness auto
termination by (relation "measure (\<lambda>(p, i, n_bits). n_bits)") auto

definition bitwise_is_all_zeros :: "u8 list \<Rightarrow> nat \<Rightarrow> nat \<Rightarrow> nat \<Rightarrow> bool" where
  "bitwise_is_all_zeros p len ofs n_bits =
    (if n_bits = 0 then True
     else let i = int len - (int (ofs div 8) + 1); ofs = ofs mod 8
          in if ofs \<noteq> 0
             then let chunk = min n_bits (8 - ofs)
                  in if (p ! nat i AND push_bit ofs (push_bit chunk 1 - 1)) \<noteq> 0 then False
                     else let n_bits = n_bits - chunk
                          in if n_bits = 0 then True else bitwise_is_all_zeros_bytes p (i - 1) n_bits
             else bitwise_is_all_zeros_bytes p i n_bits)"

declare bitwise_zero_bytes.simps [simp del] bitwise_one_bytes.simps [simp del]
  bitwise_is_all_zeros_bytes.simps [simp del]

text \<open>The bytes of a 64-bit integer in network order, and back.\<close>

definition htonll :: "u64 \<Rightarrow> u8 list" where
  "htonll value = map (\<lambda>i. ucast (drop_bit (8 * (7 - i)) value)) [0..<8]"

definition ntohll :: "u8 list \<Rightarrow> u64" where
  "ntohll p = foldl (\<lambda>v b. push_bit 8 v OR ucast b) 0 p"

definition bitwise_put :: "u64 \<Rightarrow> u8 list \<Rightarrow> nat \<Rightarrow> nat \<Rightarrow> nat \<Rightarrow> u8 list" where
  "bitwise_put value dst dst_len dst_ofs n_bits =
    (let n_value = htonll value in bitwise_copy n_value 8 0 dst dst_len dst_ofs n_bits)"

definition bitwise_get :: "u8 list \<Rightarrow> nat \<Rightarrow> nat \<Rightarrow> nat \<Rightarrow> u64" where
  "bitwise_get src src_len src_ofs n_bits =
    (let value = htonll 0 in ntohll (bitwise_copy src src_len src_ofs value 8 0 n_bits))"

section \<open>Buffers as big-endian integers\<close>

definition be_bit :: "u8 list \<Rightarrow> nat \<Rightarrow> bool" where
  "be_bit p k \<longleftrightarrow> k < 8 * length p \<and> bit (p ! (length p - 1 - k div 8)) (k mod 8)"

text \<open>\<open>i\<close> is the pointer to the byte that holds bit \<open>k\<close> (one in front of the buffer at its end).\<close>

definition at_bit :: "u8 list \<Rightarrow> int \<Rightarrow> nat \<Rightarrow> bool" where
  "at_bit p i k \<longleftrightarrow> i = int (length p) - (int (k div 8) + 1)"

lemma at_bit_nat:
  assumes "at_bit p i k" "k < 8 * length p"
  shows "nat i = length p - 1 - k div 8" "nat i < length p"
  using assms by (auto simp: at_bit_def)

lemma be_bit_list_update:
  assumes "at_bit p i k" "k < 8 * length p"
  shows "be_bit (p[nat i := v]) l \<longleftrightarrow> (if l div 8 = k div 8 then bit v (l mod 8) else be_bit p l)"
proof (cases "l < 8 * length p")
  case True
  then have "nat i = length p - 1 - l div 8 \<longleftrightarrow> l div 8 = k div 8"
    using assms by (auto simp: at_bit_nat)
  then show ?thesis using True assms by (auto simp: be_bit_def nth_list_update at_bit_nat)
next
  case False
  then have "length p \<le> l div 8" "k div 8 < length p" using assms(2) by simp_all
  then have "l div 8 \<noteq> k div 8" by simp
  then show ?thesis using False by (simp add: be_bit_def)
qed

lemma be_bit_nth:
  assumes "at_bit p i k" "k < 8 * length p" "j < 8"
  shows "bit (p ! nat i) j \<longleftrightarrow> be_bit p (8 * (k div 8) + j)"
proof -
  have "k div 8 < length p" using assms(2) by simp
  then have "8 * (k div 8) + j < 8 * length p" using assms(3) by simp
  then show ?thesis using assms by (simp add: be_bit_def at_bit_nat)
qed

lemma bit_push_mask:
  "chunk + ofs \<le> 8 \<Longrightarrow> bit (push_bit ofs (push_bit chunk 1 - 1) :: u8) j \<longleftrightarrow> ofs \<le> j \<and> j < ofs + chunk"
proof -
  have "push_bit chunk 1 - 1 = (mask chunk :: u8)" by (simp add: push_bit_eq_mult mask_eq_exp_minus_1)
  then show "chunk + ofs \<le> 8 \<Longrightarrow> ?thesis" by (simp only: bit_push_bit_iff bit_mask_iff) auto
qed

lemma bit_low_mask: "n < 8 \<Longrightarrow> bit (push_bit n 1 - 1 :: u8) j \<longleftrightarrow> j < n"
  using bit_push_mask [of n 0] by simp

section \<open>What each loop does to the bits\<close>

text \<open>The byte and the offset in it, after a step by \<open>c\<close> bits that stays in the byte or completes it.\<close>

lemma div_mod_step:
  fixes k c :: nat
  assumes "k mod 8 + c \<le> 8"
  shows "(k + c) div 8 = (if k mod 8 + c = 8 then k div 8 + 1 else k div 8)"
    "(k + c) mod 8 = (if k mod 8 + c = 8 then 0 else k mod 8 + c)"
proof -
  have k: "k + c = k mod 8 + c + (k div 8) * 8" by simp
  show "(k + c) div 8 = (if k mod 8 + c = 8 then k div 8 + 1 else k div 8)"
    unfolding k div_mult_self1 [OF numeral_neq_zero] using assms by simp
  show "(k + c) mod 8 = (if k mod 8 + c = 8 then 0 else k mod 8 + c)"
    unfolding k mod_mult_self1 using assms by simp
qed

lemma same_byte:
  fixes k l :: nat
  assumes "l div 8 = k div 8"
  shows "l + k mod 8 = k + l mod 8"
  using mult_div_mod_eq [of 8 l] mult_div_mod_eq [of 8 k] assms by linarith

lemma in_byte:
  fixes k l c :: nat
  assumes "k \<le> l" "l < k + c" "k mod 8 + c \<le> 8"
  shows "l div 8 = k div 8"
proof -
  have "l = k + (l - k)" "k mod 8 + (l - k) < 8" using assms by simp_all
  then show ?thesis using div_mod_step(1) [of k "l - k"] by simp
qed

lemma at_bit_step:
  assumes "at_bit p i k" "k mod 8 + c \<le> 8"
  shows "at_bit p (if k mod 8 + c = 8 then i - 1 else i) (k + c)"
  using assms by (simp add: at_bit_def div_mod_step)

lemma copy_chunk:
  fixes msk :: u8
  assumes "at_bit src s S" "at_bit dst d K" "c > 0" "S mod 8 + c \<le> 8" "K mod 8 + c \<le> 8"
    "S < 8 * length src" "K < 8 * length dst"
  defines "msk \<equiv> push_bit (K mod 8) (push_bit c 1 - 1)"
  shows "be_bit (dst[nat d := (dst ! nat d AND NOT msk) OR (push_bit (K mod 8) (drop_bit (S mod 8) (src ! nat s)) AND msk)]) l
    \<longleftrightarrow> (if K \<le> l \<and> l < K + c then be_bit src (S + (l - K)) else be_bit dst l)"
proof (cases "l div 8 = K div 8")
  case True
  have m: "bit msk (l mod 8) \<longleftrightarrow> K \<le> l \<and> l < K + c"
    unfolding msk_def using assms(5) same_byte [OF True] by (subst bit_push_mask) linarith+
  have l8: "l mod 8 < 8" by simp
  have old: "bit (dst ! nat d) (l mod 8) \<longleftrightarrow> be_bit dst l"
    using be_bit_nth [OF assms(2,7) l8] True by (metis mult_div_mod_eq)
  have new: "bit (push_bit (K mod 8) (drop_bit (S mod 8) (src ! nat s))) (l mod 8) \<longleftrightarrow> be_bit src (S + (l - K))"
    if "K \<le> l" "l < K + c"
  proof -
    have j: "l mod 8 = K mod 8 + (l - K)" "S mod 8 + (l - K) < 8"
      using that assms(4) same_byte [OF True] by linarith+
    have "8 * (S div 8) + (S mod 8 + (l - K)) = S + (l - K)" by simp
    then have "bit (src ! nat s) (S mod 8 + (l - K)) \<longleftrightarrow> be_bit src (S + (l - K))"
      using be_bit_nth [OF assms(1,6) j(2)] by simp
    then show ?thesis using j l8 by (simp add: bit_push_bit_iff bit_drop_bit_eq add.commute)
  qed
  show ?thesis unfolding be_bit_list_update [OF assms(2,7)]
    using True m old new by (auto simp: bit_simps)
next
  case False
  then have "\<not> (K \<le> l \<and> l < K + c)" using in_byte assms(5) by blast
  then show ?thesis using False by (auto simp: be_bit_list_update [OF assms(2,7)])
qed

lemma bitwise_copy_loop_bits:
  assumes "at_bit src s S" "at_bit dst d K" "S + n \<le> 8 * length src" "K + n \<le> 8 * length dst"
  shows "length (bitwise_copy_loop src s (S mod 8) dst d (K mod 8) n) = length dst \<and>
    (be_bit (bitwise_copy_loop src s (S mod 8) dst d (K mod 8) n) l \<longleftrightarrow>
      (if K \<le> l \<and> l < K + n then be_bit src (S + (l - K)) else be_bit dst l))"
  using assms
proof (induction n arbitrary: s S dst d K rule: less_induct)
  case (less n)
  show ?case
  proof (cases "n = 0")
    case True
    then show ?thesis by (auto simp: bitwise_copy_loop.simps)
  next
    case False
    define c where "c = min n (8 - max (S mod 8) (K mod 8))"
    define dst2 where "dst2 = dst[nat d := (dst ! nat d AND NOT (push_bit (K mod 8) (push_bit c 1 - 1))) OR
      (push_bit (K mod 8) (drop_bit (S mod 8) (src ! nat s)) AND push_bit (K mod 8) (push_bit c 1 - 1))]"
    have c: "c > 0" "c \<le> n" "S mod 8 + c \<le> 8" "K mod 8 + c \<le> 8"
      using False by (auto simp: c_def min_def max_def)
    have lt: "S < 8 * length src" "K < 8 * length dst" using less.prems False by auto
    have step: "bitwise_copy_loop src s (S mod 8) dst d (K mod 8) n =
      bitwise_copy_loop src (if S mod 8 + c = 8 then s - 1 else s) ((S + c) mod 8)
        dst2 (if K mod 8 + c = 8 then d - 1 else d) ((K + c) mod 8) (n - c)"
    proof -
      have "n > 0 \<and> S mod 8 < 8 \<and> K mod 8 < 8" using False by simp
      moreover have "dst[nat d := x] ! nat d = x" for x using at_bit_nat(2) [OF less.prems(2) lt(2)] by simp
      ultimately show ?thesis
        unfolding div_mod_step(2) [OF c(3)] div_mod_step(2) [OF c(4)]
          bitwise_copy_loop.simps [of src s "S mod 8" dst d "K mod 8" n]
        by (cases "S mod 8 + c = 8"; cases "K mod 8 + c = 8")
          (simp_all only: Let_def c_def [symmetric] dst2_def list_update_overwrite if_True if_False prod.case simp_thms)
    qed
    have len: "length dst2 = length dst" by (simp add: dst2_def)
    have "at_bit dst2 (if K mod 8 + c = 8 then d - 1 else d) (K + c)"
      using at_bit_step [OF less.prems(2) c(4)] len by (simp add: at_bit_def)
    note IH = less.IH [OF _ at_bit_step [OF less.prems(1) c(3)] this]
    have "be_bit dst2 l = (if K \<le> l \<and> l < K + c then be_bit src (S + (l - K)) else be_bit dst l)"
      unfolding dst2_def using copy_chunk [OF less.prems(1,2) c(1,3,4) lt] .
    then show ?thesis unfolding step using IH [of "n - c"] c less.prems(3,4) len by auto
  qed
qed

lemma memcpy_nth:
  assumes "0 \<le> d" "nat s + n \<le> length src" "nat d + n \<le> length dst" "j < length dst"
  shows "memcpy dst d src s n ! j =
    (if nat d \<le> j \<and> j < nat d + n then src ! (nat s + (j - nat d)) else dst ! j)"
  using assms by (auto simp: memcpy_def nth_append)

lemma length_memcpy:
  "nat s + n \<le> length src \<Longrightarrow> nat d + n \<le> length dst \<Longrightarrow> length (memcpy dst d src s n) = length dst"
  by (simp add: memcpy_def)

lemma digit_less: "x < n \<Longrightarrow> r < 8 \<Longrightarrow> r + x * 8 < 8 * n" for x n r :: nat
  by linarith

lemma memcpy_bits:
  assumes "at_bit src s (8 * a)" "at_bit dst d (8 * b)" "a + n \<le> length src" "b + n \<le> length dst" "n > 0"
  shows "be_bit (memcpy dst (d - (int n - 1)) src (s - (int n - 1)) n) l \<longleftrightarrow>
    (if 8 * b \<le> l \<and> l < 8 * b + 8 * n then be_bit src (8 * a + (l - 8 * b)) else be_bit dst l)"
proof (cases "l < 8 * length dst")
  case True
  define q where "q = l div 8"
  have q: "q < length dst" using True by (simp add: q_def)
  have d: "nat (d - (int n - 1)) = length dst - (b + n)" "nat (s - (int n - 1)) = length src - (a + n)"
    using assms by (auto simp: at_bit_def)
  have rng: "8 * b \<le> l \<and> l < 8 * b + 8 * n \<longleftrightarrow> b \<le> q \<and> q < b + n"
    using mult_div_mod_eq [of 8 l] mod_less_divisor [of 8 l] unfolding q_def by linarith
  have nth: "memcpy dst (d - (int n - 1)) src (s - (int n - 1)) n ! (length dst - 1 - q) =
      (if b \<le> q \<and> q < b + n then src ! (length src - 1 - (a + (q - b))) else dst ! (length dst - 1 - q))"
  proof -
    have D: "0 \<le> d - (int n - 1)" using assms(2,4) by (simp add: at_bit_def)
    have j: "length dst - (b + n) \<le> length dst - 1 - q \<longleftrightarrow> q < b + n"
        "length dst - 1 - q < length dst - (b + n) + n \<longleftrightarrow> b \<le> q"
      using assms(4,5) q by linarith+
    have i: "length src - (a + n) + (length dst - 1 - q - (length dst - (b + n))) = length src - 1 - (a + (q - b))"
      if "b \<le> q" "q < b + n" using assms(3,4,5) q that by linarith
    have "length dst - 1 - q < length dst" using q by linarith
    from memcpy_nth [OF D _ _ this, of "s - (int n - 1)" n src, unfolded d j]
    show ?thesis using assms(3,4) i by auto
  qed
  have len: "length (memcpy dst (d - (int n - 1)) src (s - (int n - 1)) n) = length dst"
    using assms by (intro length_memcpy) (simp_all add: d)
  have "(8 * a + (l - 8 * b)) div 8 = a + (q - b)" "(8 * a + (l - 8 * b)) mod 8 = l mod 8"
      "8 * a + (l - 8 * b) < 8 * length src" if "b \<le> q" "q < b + n"
  proof -
    have e: "8 * a + (l - 8 * b) = l mod 8 + (a + (q - b)) * 8"
    proof -
      obtain r where r: "r = l mod 8" "l = 8 * q + r" by (metis mult_div_mod_eq q_def)
      then have "8 * a + (l - 8 * b) = r + (a + (q - b)) * 8" using that by simp
      then show ?thesis using r(1) by simp
    qed
    show "(8 * a + (l - 8 * b)) div 8 = a + (q - b)" "(8 * a + (l - 8 * b)) mod 8 = l mod 8"
      unfolding e div_mult_self1 [OF numeral_neq_zero] mod_mult_self1 by simp_all
    have "a + (q - b) < length src" using that assms(3) by linarith
    then show "8 * a + (l - 8 * b) < 8 * length src"
      unfolding e by (intro digit_less) simp_all
  qed
  then show ?thesis unfolding rng using True nth by (simp add: be_bit_def len flip: q_def)
next
  case False
  have "length (memcpy dst (d - (int n - 1)) src (s - (int n - 1)) n) = length dst"
    using assms by (intro length_memcpy) (auto simp: at_bit_def)
  moreover have "\<not> l < 8 * b + 8 * n" using False assms(4) by linarith
  ultimately show ?thesis using False by (simp add: be_bit_def)
qed

lemma bitwise_copy_aligned_bits:
  assumes "at_bit src s (8 * a)" "at_bit dst d (8 * b)" "8 * a + n \<le> 8 * length src" "8 * b + n \<le> 8 * length dst"
  shows "length (bitwise_copy_aligned src s dst d n) = length dst \<and>
    (be_bit (bitwise_copy_aligned src s dst d n) l \<longleftrightarrow>
      (if 8 * b \<le> l \<and> l < 8 * b + n then be_bit src (8 * a + (l - 8 * b)) else be_bit dst l))"
proof -
  define m r where "m = n div 8" and "r = n mod 8"
  have n: "n = 8 * m + r" "r < 8" by (simp_all add: m_def r_def)
  have mr: "a + m \<le> length src" "b + m \<le> length dst" using assms(3,4) n by linarith+
  define dst1 where "dst1 = (if m \<noteq> 0 then memcpy dst (d - (int m - 1)) src (s - (int m - 1)) m else dst)"
  have l1: "length dst1 = length dst"
    unfolding dst1_def using assms(1,2) mr by (auto simp: at_bit_def intro!: length_memcpy)
  have b1: "be_bit dst1 l \<longleftrightarrow>
      (if 8 * b \<le> l \<and> l < 8 * b + 8 * m then be_bit src (8 * a + (l - 8 * b)) else be_bit dst l)" for l
    unfolding dst1_def using memcpy_bits [OF assms(1,2) mr] by auto
  have at: "at_bit src (s - int m) (8 * (a + m))" "at_bit dst1 (d - int m) (8 * (b + m))"
    using assms(1,2) l1 by (simp_all add: at_bit_def)
  have copy: "bitwise_copy_aligned src s dst d n =
      (if r \<noteq> 0 then dst1[nat (d - int m) := (dst1 ! nat (d - int m) AND NOT (push_bit r 1 - 1)) OR
         (src ! nat (s - int m) AND (push_bit r 1 - 1))] else dst1)"
    by (simp add: bitwise_copy_aligned_def dst1_def m_def r_def Let_def)
  show ?thesis
  proof (cases "r = 0")
    case True
    then show ?thesis using copy l1 b1 n by simp
  next
    case False
    then have "a + m < length src" "b + m < length dst1" using assms(3,4) n l1 by simp_all
    then have lt: "8 * (a + m) < 8 * length src" "8 * (b + m) < 8 * length dst1" by simp_all
    have z: "8 * (a + m) mod 8 = 0" "8 * (b + m) mod 8 = 0" "0 < r" "0 + r \<le> 8" using False n by simp_all
    have "be_bit (bitwise_copy_aligned src s dst d n) l \<longleftrightarrow> (if 8 * (b + m) \<le> l \<and> l < 8 * (b + m) + r
        then be_bit src (8 * (a + m) + (l - 8 * (b + m))) else be_bit dst1 l)"
      using copy_chunk [OF at z(3) _ _ lt, of l, unfolded z(1,2) push_bit_0_id drop_bit_0, OF z(4) z(4)] False
      by (simp only: copy if_True not_False_eq_True push_bit_0_id drop_bit_0 id_apply)
    moreover have "8 * (a + m) + (l - 8 * (b + m)) = 8 * a + (l - 8 * b)" if "8 * (b + m) \<le> l"
      using that by simp
    moreover have "length (bitwise_copy_aligned src s dst d n) = length dst" using l1 by (simp add: copy)
    ultimately show ?thesis unfolding b1 n(1) by auto
  qed
qed

lemma bitwise_copy_bits:
  assumes "src_ofs + n \<le> 8 * length src" "dst_ofs + n \<le> 8 * length dst"
  shows "length (bitwise_copy src (length src) src_ofs dst (length dst) dst_ofs n) = length dst \<and>
    (be_bit (bitwise_copy src (length src) src_ofs dst (length dst) dst_ofs n) l \<longleftrightarrow>
      (if dst_ofs \<le> l \<and> l < dst_ofs + n then be_bit src (src_ofs + (l - dst_ofs)) else be_bit dst l))"
proof (cases "src_ofs mod 8 = 0 \<and> dst_ofs mod 8 = 0")
  case True
  then obtain a b where ab: "src_ofs = 8 * a" "dst_ofs = 8 * b" by (auto elim!: dvdE simp: mod_0_imp_dvd)
  have "at_bit src (int (length src) - (int a + 1)) (8 * a)" "at_bit dst (int (length dst) - (int b + 1)) (8 * b)"
    by (simp_all add: at_bit_def)
  from bitwise_copy_aligned_bits [OF this, of n l] show ?thesis using assms
    unfolding bitwise_copy_def ab by (simp add: Let_def del: if_split)
next
  case False
  have "at_bit src (int (length src) - (int (src_ofs div 8) + 1)) src_ofs"
      "at_bit dst (int (length dst) - (int (dst_ofs div 8) + 1)) dst_ofs"
    by (simp_all add: at_bit_def)
  from bitwise_copy_loop_bits [OF this assms, of l] show ?thesis using False
    unfolding bitwise_copy_def by (simp only: Let_def if_False)
qed

text \<open>Clearing and setting the bits \<open>K..<K + c\<close> of one byte.\<close>

lemma zero_chunk:
  assumes "at_bit dst d K" "K mod 8 + c \<le> 8" "K < 8 * length dst"
  shows "be_bit (dst[nat d := dst ! nat d AND NOT (push_bit (K mod 8) (push_bit c 1 - 1))]) l
    \<longleftrightarrow> be_bit dst l \<and> \<not> (K \<le> l \<and> l < K + c)"
proof (cases "l div 8 = K div 8")
  case True
  have m: "bit (push_bit (K mod 8) (push_bit c 1 - 1) :: u8) (l mod 8) \<longleftrightarrow> K \<le> l \<and> l < K + c"
    using assms(2) same_byte [OF True] by (subst bit_push_mask) linarith+
  have "bit (dst ! nat d) (l mod 8) \<longleftrightarrow> be_bit dst l"
    using be_bit_nth [OF assms(1,3), of "l mod 8"] True by (metis mod_less_divisor mult_div_mod_eq zero_less_numeral)
  then show ?thesis unfolding be_bit_list_update [OF assms(1,3)] using True m by (auto simp: bit_and_iff bit_not_iff)
next
  case False
  then have "\<not> (K \<le> l \<and> l < K + c)" using in_byte assms(2) by blast
  then show ?thesis using False by (auto simp: be_bit_list_update [OF assms(1,3)])
qed

lemma one_chunk:
  assumes "at_bit dst d K" "K mod 8 + c \<le> 8" "K < 8 * length dst"
  shows "be_bit (dst[nat d := dst ! nat d OR push_bit (K mod 8) (push_bit c 1 - 1)]) l
    \<longleftrightarrow> be_bit dst l \<or> (K \<le> l \<and> l < K + c)"
proof (cases "l div 8 = K div 8")
  case True
  have m: "bit (push_bit (K mod 8) (push_bit c 1 - 1) :: u8) (l mod 8) \<longleftrightarrow> K \<le> l \<and> l < K + c"
    using assms(2) same_byte [OF True] by (subst bit_push_mask) linarith+
  have "bit (dst ! nat d) (l mod 8) \<longleftrightarrow> be_bit dst l"
    using be_bit_nth [OF assms(1,3), of "l mod 8"] True by (metis mod_less_divisor mult_div_mod_eq zero_less_numeral)
  then show ?thesis unfolding be_bit_list_update [OF assms(1,3)] using True m by (auto simp: bit_or_iff)
next
  case False
  then have "\<not> (K \<le> l \<and> l < K + c)" using in_byte assms(2) by blast
  then show ?thesis using False by (auto simp: be_bit_list_update [OF assms(1,3)])
qed

lemma test_chunk:
  assumes "at_bit p i K" "K mod 8 + c \<le> 8" "K < 8 * length p"
  shows "(p ! nat i AND push_bit (K mod 8) (push_bit c 1 - 1)) = 0 \<longleftrightarrow> (\<forall>l. K \<le> l \<and> l < K + c \<longrightarrow> \<not> be_bit p l)"
proof -
  have b: "bit (p ! nat i AND push_bit (K mod 8) (push_bit c 1 - 1)) j \<longleftrightarrow>
      be_bit p (8 * (K div 8) + j) \<and> K \<le> 8 * (K div 8) + j \<and> 8 * (K div 8) + j < K + c" if "j < 8" for j
    using assms(2) be_bit_nth [OF assms(1,3) that] mult_div_mod_eq [of 8 K]
    by (simp only: bit_and_iff) (subst bit_push_mask, linarith, linarith)
  have "\<exists>j<8. l = 8 * (K div 8) + j" if "K \<le> l" "l < K + c" for l
    using in_byte [OF that assms(2)] by (metis mod_less_divisor mult_div_mod_eq zero_less_numeral)
  then show ?thesis using b by (auto simp: word_zero_iff_bits)
qed

lemma at_bit_length: "length q = length p \<Longrightarrow> at_bit q i k \<longleftrightarrow> at_bit p i k"
  by (simp add: at_bit_def)

lemma at_bit_next: "at_bit p i (8 * b) \<Longrightarrow> at_bit p (i - 1) (8 * Suc b)"
  by (simp add: at_bit_def)

lemma u8_ff: "(0xff :: u8) = - 1"
  by simp

lemma be_bit_byte:
  assumes "at_bit p i (8 * b)" "b < length p" "v = (if x then 0xff else 0)"
  shows "be_bit (p[nat i := v]) l \<longleftrightarrow> (if 8 * b \<le> l \<and> l < 8 * b + 8 then x else be_bit p l)"
proof -
  have "bit v (l mod 8) \<longleftrightarrow> x"
  proof -
    have "bit (- 1 :: u8) (l mod 8)" by simp
    then have "bit (0xff :: u8) (l mod 8)" by (simp only: u8_ff)
    then show ?thesis using assms(3) by simp
  qed
  moreover have "l div 8 = b \<longleftrightarrow> 8 * b \<le> l \<and> l < 8 * b + 8"
    using in_byte [of "8 * b" l 8] same_byte [of l "8 * b"] mod_less_divisor [of 8 l, OF zero_less_numeral]
    by auto
  moreover have "8 * b < 8 * length p" using assms(2) by simp
  ultimately show ?thesis using be_bit_list_update [OF assms(1)] by simp
qed

lemma bitwise_zero_bytes_bits:
  assumes "at_bit dst d (8 * b)" "8 * b + n \<le> 8 * length dst"
  shows "length (bitwise_zero_bytes dst d n) = length dst \<and>
    (be_bit (bitwise_zero_bytes dst d n) l \<longleftrightarrow> be_bit dst l \<and> \<not> (8 * b \<le> l \<and> l < 8 * b + n))"
  using assms
proof (induction dst d n arbitrary: b rule: bitwise_zero_bytes.induct)
  case (1 dst d n)
  show ?case
  proof (cases "n \<ge> 8")
    case True
    then have lt: "b < length dst" using "1.prems"(2) by simp
    have "at_bit (dst[nat d := 0]) (d - 1) (8 * Suc b)"
      using at_bit_next [OF "1.prems"(1)] by (simp add: at_bit_def)
    then have "length (bitwise_zero_bytes dst d n) = length dst \<and>
        (be_bit (bitwise_zero_bytes dst d n) l \<longleftrightarrow>
          be_bit (dst[nat d := 0]) l \<and> \<not> (8 * Suc b \<le> l \<and> l < 8 * Suc b + (n - 8)))"
      using "1.IH" [OF True, of "Suc b"] "1.prems"(2) True
      unfolding bitwise_zero_bytes.simps [of dst d n] by simp
    then show ?thesis using be_bit_byte [OF "1.prems"(1) lt, of 0 False l] True by auto
  next
    case False
    show ?thesis
    proof (cases "n = 0")
      case True
      then show ?thesis by (simp add: bitwise_zero_bytes.simps)
    next
      case nz: False
      then have "8 * b < 8 * length dst" using "1.prems"(2) by simp
      from zero_chunk [OF "1.prems"(1) _ this, of n l] show ?thesis
        using False nz by (simp add: bitwise_zero_bytes.simps)
    qed
  qed
qed

lemma bitwise_one_bytes_bits:
  assumes "at_bit dst d (8 * b)" "8 * b + n \<le> 8 * length dst"
  shows "length (bitwise_one_bytes dst d n) = length dst \<and>
    (be_bit (bitwise_one_bytes dst d n) l \<longleftrightarrow> be_bit dst l \<or> (8 * b \<le> l \<and> l < 8 * b + n))"
  using assms
proof (induction dst d n arbitrary: b rule: bitwise_one_bytes.induct)
  case (1 dst d n)
  show ?case
  proof (cases "n \<ge> 8")
    case True
    then have lt: "b < length dst" using "1.prems"(2) by simp
    have "at_bit (dst[nat d := 0xff]) (d - 1) (8 * Suc b)"
      using at_bit_next [OF "1.prems"(1)] by (simp add: at_bit_def)
    then have "length (bitwise_one_bytes dst d n) = length dst \<and>
        (be_bit (bitwise_one_bytes dst d n) l \<longleftrightarrow>
          be_bit (dst[nat d := 0xff]) l \<or> (8 * Suc b \<le> l \<and> l < 8 * Suc b + (n - 8)))"
      using "1.IH" [OF True, of "Suc b"] "1.prems"(2) True
      unfolding bitwise_one_bytes.simps [of dst d n] by simp
    then show ?thesis using be_bit_byte [OF "1.prems"(1) lt, of "0xff" True l] True by auto
  next
    case False
    show ?thesis
    proof (cases "n = 0")
      case True
      then show ?thesis by (auto simp: bitwise_one_bytes.simps)
    next
      case nz: False
      then have "8 * b < 8 * length dst" using "1.prems"(2) by simp
      from one_chunk [OF "1.prems"(1) _ this, of n l] show ?thesis
        using False nz by (simp add: bitwise_one_bytes.simps)
    qed
  qed
qed

lemma bitwise_is_all_zeros_bytes_bits:
  assumes "at_bit p i (8 * b)" "8 * b + n \<le> 8 * length p"
  shows "bitwise_is_all_zeros_bytes p i n \<longleftrightarrow> (\<forall>l. 8 * b \<le> l \<and> l < 8 * b + n \<longrightarrow> \<not> be_bit p l)"
  using assms
proof (induction p i n arbitrary: b rule: bitwise_is_all_zeros_bytes.induct)
  case (1 p i n)
  show ?case
  proof (cases "n \<ge> 8")
    case True
    then have "8 * b < 8 * length p" using "1.prems"(2) by simp
    from test_chunk [OF "1.prems"(1) _ this, of 8]
    have z: "p ! nat i = 0 \<longleftrightarrow> (\<forall>l. 8 * b \<le> l \<and> l < 8 * b + 8 \<longrightarrow> \<not> be_bit p l)"
      by (simp add: u8_ff)
    have "bitwise_is_all_zeros_bytes p i n \<longleftrightarrow> p ! nat i = 0 \<and>
        (\<forall>l. 8 * Suc b \<le> l \<and> l < 8 * Suc b + (n - 8) \<longrightarrow> \<not> be_bit p l)"
      using "1.IH" [OF True _ at_bit_next [OF "1.prems"(1)]] "1.prems"(2) True
      unfolding bitwise_is_all_zeros_bytes.simps [of p i n] by auto
    moreover have "8 * b \<le> l \<and> l < 8 * b + n \<longleftrightarrow>
        8 * b \<le> l \<and> l < 8 * b + 8 \<or> 8 * Suc b \<le> l \<and> l < 8 * Suc b + (n - 8)" for l
      using True by auto
    ultimately show ?thesis unfolding z by blast
  next
    case False
    show ?thesis
    proof (cases "n = 0")
      case True
      then show ?thesis by (auto simp: bitwise_is_all_zeros_bytes.simps)
    next
      case nz: False
      then have "8 * b < 8 * length p" using "1.prems"(2) by simp
      from test_chunk [OF "1.prems"(1) _ this, of n] show ?thesis
        using False nz by (simp add: bitwise_is_all_zeros_bytes.simps)
    qed
  qed
qed

text \<open>The first, partial byte of the operations that start inside a byte.\<close>

lemma first_chunk:
  fixes ofs n :: nat
  assumes "ofs mod 8 \<noteq> 0" "c = min n (8 - ofs mod 8)"
  shows "ofs mod 8 + c \<le> 8" "n - c \<noteq> 0 \<Longrightarrow> ofs + c = 8 * Suc (ofs div 8)" "c \<le> n"
proof -
  have "ofs mod 8 < 8" by simp
  then show "ofs mod 8 + c \<le> 8" "c \<le> n" using assms(2) by linarith+
  show "ofs + c = 8 * Suc (ofs div 8)" if "n - c \<noteq> 0"
  proof -
    have "c = 8 - ofs mod 8" using that assms(2) by (simp add: min_def split: if_splits)
    then have "ofs mod 8 + c = 8" using \<open>ofs mod 8 < 8\<close> by simp
    then show ?thesis by (metis add.assoc add.commute mult_Suc_right mult_div_mod_eq)
  qed
qed

lemma at_bit_start: "at_bit p (int (length p) - (int (k div 8) + 1)) k"
  by (simp add: at_bit_def)

lemma bitwise_zero_bits:
  assumes "ofs + n \<le> 8 * length dst"
  shows "length (bitwise_zero dst (length dst) ofs n) = length dst \<and>
    (be_bit (bitwise_zero dst (length dst) ofs n) l \<longleftrightarrow> be_bit dst l \<and> \<not> (ofs \<le> l \<and> l < ofs + n))"
proof (cases "n = 0 \<or> ofs mod 8 = 0")
  case True
  then show ?thesis
  proof (cases "n = 0")
    case False
    with True obtain b where b: "ofs = 8 * b" by (auto elim!: dvdE simp: mod_0_imp_dvd)
    show ?thesis using bitwise_zero_bytes_bits [OF at_bit_start [of dst "8 * b"], of n l] assms False
      by (simp add: bitwise_zero_def b Let_def)
  qed (auto simp: bitwise_zero_def)
next
  case False
  define c where "c = min n (8 - ofs mod 8)"
  define d where "d = int (length dst) - (int (ofs div 8) + 1)"
  define dst1 where "dst1 = dst[nat d := dst ! nat d AND NOT (push_bit (ofs mod 8) (push_bit c 1 - 1))]"
  note c = first_chunk [OF _ c_def]
  have at: "at_bit dst d ofs" by (simp add: d_def at_bit_start)
  have b1: "be_bit dst1 l \<longleftrightarrow> be_bit dst l \<and> \<not> (ofs \<le> l \<and> l < ofs + c)"
    unfolding dst1_def using zero_chunk [OF at, of c l] c(1) False assms by simp
  have z: "bitwise_zero dst (length dst) ofs n = (if n - c = 0 then dst1 else bitwise_zero_bytes dst1 (d - 1) (n - c))"
    using False by (simp add: bitwise_zero_def Let_def c_def d_def dst1_def)
  show ?thesis
  proof (cases "n - c = 0")
    case True
    then have "c = n" using c(3) False by simp
    then show ?thesis unfolding z using b1 by (simp add: dst1_def)
  next
    case rest: False
    have e: "ofs + c = 8 * Suc (ofs div 8)" using c(2) False rest by simp
    have l1: "length dst1 = length dst" by (simp add: dst1_def)
    have s: "ofs + c + (n - c) = ofs + n" using c(3) False by simp
    have "at_bit dst1 (d - 1) (8 * Suc (ofs div 8))" by (simp add: at_bit_def l1 d_def)
    from bitwise_zero_bytes_bits [OF this, of "n - c" l, folded e, unfolded s l1, OF assms]
    show ?thesis unfolding z using b1 rest c(3) False by auto
  qed
qed

lemma bitwise_one_bits:
  assumes "ofs + n \<le> 8 * length dst"
  shows "length (bitwise_one dst (length dst) ofs n) = length dst \<and>
    (be_bit (bitwise_one dst (length dst) ofs n) l \<longleftrightarrow> be_bit dst l \<or> (ofs \<le> l \<and> l < ofs + n))"
proof (cases "n = 0 \<or> ofs mod 8 = 0")
  case True
  then show ?thesis
  proof (cases "n = 0")
    case False
    with True obtain b where b: "ofs = 8 * b" by (auto elim!: dvdE simp: mod_0_imp_dvd)
    show ?thesis using bitwise_one_bytes_bits [OF at_bit_start [of dst "8 * b"], of n l] assms False
      by (simp add: bitwise_one_def b Let_def)
  qed (auto simp: bitwise_one_def)
next
  case False
  define c where "c = min n (8 - ofs mod 8)"
  define d where "d = int (length dst) - (int (ofs div 8) + 1)"
  define dst1 where "dst1 = dst[nat d := dst ! nat d OR push_bit (ofs mod 8) (push_bit c 1 - 1)]"
  note c = first_chunk [OF _ c_def]
  have at: "at_bit dst d ofs" by (simp add: d_def at_bit_start)
  have b1: "be_bit dst1 l \<longleftrightarrow> be_bit dst l \<or> (ofs \<le> l \<and> l < ofs + c)"
    unfolding dst1_def using one_chunk [OF at, of c l] c(1) False assms by simp
  have z: "bitwise_one dst (length dst) ofs n = (if n - c = 0 then dst1 else bitwise_one_bytes dst1 (d - 1) (n - c))"
    using False by (simp add: bitwise_one_def Let_def c_def d_def dst1_def)
  show ?thesis
  proof (cases "n - c = 0")
    case True
    then have "c = n" using c(3) False by simp
    then show ?thesis unfolding z using b1 by (simp add: dst1_def)
  next
    case rest: False
    have e: "ofs + c = 8 * Suc (ofs div 8)" using c(2) False rest by simp
    have l1: "length dst1 = length dst" by (simp add: dst1_def)
    have s: "ofs + c + (n - c) = ofs + n" using c(3) False by simp
    have "at_bit dst1 (d - 1) (8 * Suc (ofs div 8))" by (simp add: at_bit_def l1 d_def)
    from bitwise_one_bytes_bits [OF this, of "n - c" l, folded e, unfolded s l1, OF assms]
    show ?thesis unfolding z using b1 rest c(3) False by auto
  qed
qed

lemma bitwise_is_all_zeros_bits:
  assumes "ofs + n \<le> 8 * length p"
  shows "bitwise_is_all_zeros p (length p) ofs n \<longleftrightarrow> (\<forall>l. ofs \<le> l \<and> l < ofs + n \<longrightarrow> \<not> be_bit p l)"
proof (cases "n = 0 \<or> ofs mod 8 = 0")
  case True
  then show ?thesis
  proof (cases "n = 0")
    case False
    with True obtain b where b: "ofs = 8 * b" by (auto elim!: dvdE simp: mod_0_imp_dvd)
    show ?thesis using bitwise_is_all_zeros_bytes_bits [OF at_bit_start [of p "8 * b"], of n] assms False
      by (simp add: bitwise_is_all_zeros_def b Let_def)
  qed (auto simp: bitwise_is_all_zeros_def)
next
  case False
  define c where "c = min n (8 - ofs mod 8)"
  define i where "i = int (length p) - (int (ofs div 8) + 1)"
  note c = first_chunk [OF _ c_def]
  have at: "at_bit p i ofs" by (simp add: i_def at_bit_start)
  have z: "bitwise_is_all_zeros p (length p) ofs n \<longleftrightarrow> (p ! nat i AND push_bit (ofs mod 8) (push_bit c 1 - 1)) = 0 \<and>
      (n - c = 0 \<or> bitwise_is_all_zeros_bytes p (i - 1) (n - c))"
    using False by (simp add: bitwise_is_all_zeros_def Let_def c_def i_def)
  have t: "(p ! nat i AND push_bit (ofs mod 8) (push_bit c 1 - 1)) = 0 \<longleftrightarrow>
      (\<forall>l. ofs \<le> l \<and> l < ofs + c \<longrightarrow> \<not> be_bit p l)"
    using test_chunk [OF at, of c] c(1) False assms by simp
  show ?thesis
  proof (cases "n - c = 0")
    case True
    then have "c = n" using c(3) False by simp
    then show ?thesis unfolding z t by simp
  next
    case rest: False
    have e: "ofs + c = 8 * Suc (ofs div 8)" using c(2) False rest by simp
    have "at_bit p (i - 1) (8 * Suc (ofs div 8))" by (simp add: at_bit_def i_def)
    have s: "ofs + c + (n - c) = ofs + n" using c(3) False by simp
    note bitwise_is_all_zeros_bytes_bits [OF \<open>at_bit p (i - 1) (8 * Suc (ofs div 8))\<close>, of "n - c", folded e, unfolded s, OF assms]
    moreover have "ofs \<le> l \<and> l < ofs + n \<longleftrightarrow> ofs \<le> l \<and> l < ofs + c \<or> ofs + c \<le> l \<and> l < ofs + n" for l
      using c(3) False by auto
    ultimately show ?thesis unfolding z t using rest by blast
  qed
qed

lemma be_bit_snoc: "be_bit (p @ [b]) k \<longleftrightarrow> (if k < 8 then bit b k else be_bit p (k - 8))"
proof (cases "k < 8")
  case False
  then have "k div 8 = Suc ((k - 8) div 8)" "k mod 8 = (k - 8) mod 8" by (simp_all add: le_div_geq le_mod_geq)
  moreover have "k < 8 * length (p @ [b]) \<longleftrightarrow> k - 8 < 8 * length p" using False by auto
  ultimately show ?thesis using False by (auto simp: be_bit_def nth_append)
qed (simp add: be_bit_def nth_append)

lemma bit_ntohll_aux:
  "k < 64 \<Longrightarrow> bit (foldl (\<lambda>v b. push_bit 8 v OR ucast b) 0 p :: u64) k \<longleftrightarrow> be_bit p k"
proof (induction p arbitrary: k rule: rev_induct)
  case (snoc b p)
  have "bit (ucast b :: u64) k \<longleftrightarrow> k < 8 \<and> bit b k"
    using snoc.prems by (auto simp: bit_ucast_iff dest: bit_imp_le_length)
  then show ?case using snoc by (auto simp: be_bit_snoc bit_or_iff bit_push_bit_iff)
qed (simp add: be_bit_def)

lemma bit_ntohll: "bit (ntohll p) k \<longleftrightarrow> k < 64 \<and> be_bit p k"
  using bit_ntohll_aux [of k p] bit_imp_le_length [of "ntohll p" k] by (auto simp: ntohll_def)

lemma length_htonll [simp]: "length (htonll v) = 8"
  by (simp add: htonll_def)

lemma be_bit_htonll: "be_bit (htonll v) k \<longleftrightarrow> bit v k"
proof (cases "k < 64")
  case True
  then have "k div 8 < 8" by simp
  then have "htonll v ! (7 - k div 8) = ucast (drop_bit (8 * (k div 8)) v)"
    using nth_upt [of 0 "7 - k div 8" 8] by (simp add: htonll_def)
  then show ?thesis using True by (simp add: be_bit_def bit_ucast_iff bit_drop_bit_eq)
qed (auto simp: be_bit_def dest: bit_imp_le_length)

lemma bitwise_put_bits:
  assumes "ofs + n \<le> 8 * length dst" "n \<le> 64"
  shows "length (bitwise_put v dst (length dst) ofs n) = length dst \<and>
    (be_bit (bitwise_put v dst (length dst) ofs n) l \<longleftrightarrow>
      (if ofs \<le> l \<and> l < ofs + n then bit v (l - ofs) else be_bit dst l))"
  using bitwise_copy_bits [of 0 n "htonll v" ofs dst l] assms
  by (simp add: bitwise_put_def be_bit_htonll)

lemma bitwise_get_bits:
  assumes "ofs + n \<le> 8 * length src" "n \<le> 64"
  shows "bit (bitwise_get src (length src) ofs n) l \<longleftrightarrow> l < n \<and> be_bit src (ofs + l)"
  using bitwise_copy_bits [of ofs n src 0 "htonll 0" l] assms
  by (auto simp: bitwise_get_def bit_ntohll be_bit_htonll)

section \<open>Properties\<close>

text \<open>
  C10.  \<open>bitwise_copy\<close> replaces exactly the bits \<open>dst_ofs\<close> to \<open>dst_ofs + n_bits - 1\<close> of the
  destination, taken as an integer in network byte order, by the bits of the source from
  \<open>src_ofs\<close> on, whatever the two alignments are, and keeps every other bit and the length.
\<close>

theorem bitwise_copy_correct:
  assumes "src_ofs + n_bits \<le> 8 * length src" "dst_ofs + n_bits \<le> 8 * length dst"
  shows "length (bitwise_copy src (length src) src_ofs dst (length dst) dst_ofs n_bits) = length dst \<and>
    (\<forall>k. be_bit (bitwise_copy src (length src) src_ofs dst (length dst) dst_ofs n_bits) k \<longleftrightarrow>
      (if dst_ofs \<le> k \<and> k < dst_ofs + n_bits then be_bit src (src_ofs + (k - dst_ofs)) else be_bit dst k))"
  using bitwise_copy_bits [OF assms] by blast

theorem bitwise_copy_correct_witness:
  "length (bitwise_copy [0x12, 0x34] 2 3 [0xff, 0xff, 0xff] 3 6 11) = 3 \<and>
   bitwise_copy [0x12, 0x34] 2 3 [0xff, 0xff, 0xff] 3 6 11 = [0xfe, 0x91, 0xbf]"
proof -
  have p: "3 + 11 \<le> 8 * length [0x12 :: u8, 0x34]" "6 + 11 \<le> 8 * length [0xff :: u8, 0xff, 0xff]" by simp_all
  have v: "bitwise_copy [0x12, 0x34] 2 3 [0xff, 0xff, 0xff] 3 6 11 = [0xfe, 0x91, 0xbf]" by code_simp
  have "length (bitwise_copy [0x12, 0x34] (length [0x12 :: u8, 0x34]) 3 [0xff, 0xff, 0xff]
      (length [0xff :: u8, 0xff, 0xff]) 6 11) = length [0xff :: u8, 0xff, 0xff]"
    using bitwise_copy_correct [OF p] by blast
  then show ?thesis using v by simp
qed

text \<open>
  C12.  \<open>bitwise_zero\<close> and \<open>bitwise_one\<close> clear and set exactly the given bits, and
  \<open>bitwise_is_all_zeros\<close> holds exactly when none of them is set; in particular it holds after
  \<open>bitwise_zero\<close> on the same range.
\<close>

theorem bitwise_fill_correct:
  assumes "ofs + n \<le> 8 * length p"
  shows "(\<forall>k. be_bit (bitwise_zero p (length p) ofs n) k \<longleftrightarrow> be_bit p k \<and> \<not> (ofs \<le> k \<and> k < ofs + n)) \<and>
    (\<forall>k. be_bit (bitwise_one p (length p) ofs n) k \<longleftrightarrow> be_bit p k \<or> (ofs \<le> k \<and> k < ofs + n)) \<and>
    (bitwise_is_all_zeros p (length p) ofs n \<longleftrightarrow> (\<forall>k. ofs \<le> k \<and> k < ofs + n \<longrightarrow> \<not> be_bit p k)) \<and>
    bitwise_is_all_zeros (bitwise_zero p (length p) ofs n) (length p) ofs n"
proof -
  have z: "length (bitwise_zero p (length p) ofs n) = length p"
    "be_bit (bitwise_zero p (length p) ofs n) k \<longleftrightarrow> be_bit p k \<and> \<not> (ofs \<le> k \<and> k < ofs + n)" for k
    using bitwise_zero_bits [OF assms] by blast+
  have "bitwise_is_all_zeros (bitwise_zero p (length p) ofs n) (length p) ofs n"
    using bitwise_is_all_zeros_bits [of ofs n "bitwise_zero p (length p) ofs n"] z assms by simp
  then show ?thesis using z bitwise_one_bits [OF assms] bitwise_is_all_zeros_bits [OF assms] by simp
qed

theorem bitwise_fill_correct_witness:
  "bitwise_is_all_zeros (bitwise_zero [0xff, 0xff, 0xff] 3 5 13) 3 5 13 \<and>
   bitwise_zero [0xff, 0xff, 0xff] 3 5 13 = [0xfc, 0x00, 0x1f] \<and> bitwise_one [0, 0, 0] 3 5 13 = [0x03, 0xff, 0xe0]"
proof -
  have p: "5 + 13 \<le> 8 * length [0xff :: u8, 0xff, 0xff]" by simp
  have l: "length [0xff :: u8, 0xff, 0xff] = 3" by simp
  have "bitwise_is_all_zeros (bitwise_zero [0xff, 0xff, 0xff] 3 5 13) 3 5 13"
    using bitwise_fill_correct [OF p] unfolding l by blast
  moreover have "bitwise_zero [0xff, 0xff, 0xff] 3 5 13 = [0xfc, 0x00, 0x1f]" by code_simp
  moreover have "bitwise_one [0, 0, 0] 3 5 13 = [0x03, 0xff, 0xe0]" by code_simp
  ultimately show ?thesis by blast
qed

text \<open>
  C11.  Reading back a bit range with \<open>bitwise_get\<close> after \<open>bitwise_put\<close> gives the low-order
  \<open>n_bits\<close> bits of the value that was put, and writing back a value that was read changes nothing.
\<close>

theorem bitwise_put_get_roundtrip:
  assumes "ofs + n \<le> 8 * length p" "n \<le> 64"
  shows "bitwise_get (bitwise_put v p (length p) ofs n) (length p) ofs n = take_bit n v \<and>
    (\<forall>k. be_bit (bitwise_put (bitwise_get p (length p) ofs n) p (length p) ofs n) k \<longleftrightarrow> be_bit p k)"
proof -
  let ?q = "bitwise_put v p (length p) ofs n"
  have q: "length ?q = length p" using bitwise_put_bits [OF assms] by blast
  have "bit (bitwise_get ?q (length ?q) ofs n) l \<longleftrightarrow> bit (take_bit n v) l" for l
    using bitwise_get_bits [of ofs n ?q l] bitwise_put_bits [OF assms, of v "ofs + l"] assms q
    by (auto simp: bit_take_bit_iff)
  then have "bitwise_get ?q (length ?q) ofs n = take_bit n v" by (intro bit_word_eqI)
  moreover have "be_bit (bitwise_put (bitwise_get p (length p) ofs n) p (length p) ofs n) k \<longleftrightarrow> be_bit p k" for k
    using bitwise_put_bits [OF assms, of _ k] bitwise_get_bits [OF assms, of "k - ofs"] by auto
  ultimately show ?thesis using q by simp
qed

theorem bitwise_put_get_roundtrip_witness:
  "bitwise_get (bitwise_put 0xabcd [0, 0, 0] 3 3 12) 3 3 12 = 0xbcd"
proof -
  have p: "3 + 12 \<le> 8 * length [0 :: u8, 0, 0]" "12 \<le> (64 :: nat)" by simp_all
  have l: "length [0 :: u8, 0, 0] = 3" by simp
  have "bitwise_get (bitwise_put 0xabcd [0, 0, 0] 3 3 12) 3 3 12 = take_bit 12 0xabcd"
    using bitwise_put_get_roundtrip [OF p] unfolding l by blast
  then show ?thesis by simp
qed

end
