(* ===== verification/Trie.thy ===== *)
theory Trie
  imports Bits
begin

text \<open>
  The longest-prefix match trees of \<open>lib/classifier.c\<close> (\<open>struct trie_node\<close>, \<open>trie_insert_prefix\<close>,
  \<open>trie_remove_prefix\<close>, \<open>trie_lookup_value\<close>) and the prefix masks they drive
  (\<open>mask_set_prefix_bits\<close>, \<open>mask_prefix_bits_set\<close>).

  A tree is a datatype with the fields of \<open>struct trie_node\<close>; a null edge is \<open>Null\<close>.  A prefix is
  stored in memory in network byte order as an array of 32-bit words, which the code reads with
  \<open>ntohl\<close> and, in \<open>be_get_bit_at\<close>, byte by byte; the host is little-endian.  The loops over the path
  from the root are recursions over the tree; the \<open>while\<close> loop with which \<open>trie_remove_prefix\<close>
  prunes from the removed node upwards is the part of its recursion after the recursive call.

  \<open>trie_count\<close> is the abstraction: the number of rules for each prefix, as a list of bits.
\<close>

section \<open>Prefixes in memory\<close>

definition TRIE_PREFIX_BITS :: nat where
  "TRIE_PREFIX_BITS = 32"

definition ntohl :: "u32 \<Rightarrow> u32" where
  "ntohl x = push_bit 24 (x AND 0xff) OR push_bit 8 (x AND 0xff00) OR
             (drop_bit 8 x AND 0xff00) OR (drop_bit 24 x AND 0xff)"

definition raw_get_prefix :: "u32 list \<Rightarrow> nat \<Rightarrow> nat \<Rightarrow> u32" where
  "raw_get_prefix pr ofs plen =
    (let i = ofs div 32; ofs = ofs mod 32;
         prefix = push_bit ofs (ntohl (pr ! i))
     in if plen > 32 - ofs then prefix OR drop_bit (32 - ofs) (ntohl (pr ! (i + 1))) else prefix)"

definition trie_get_prefix :: "u32 list \<Rightarrow> nat \<Rightarrow> nat \<Rightarrow> u32" where
  "trie_get_prefix pr ofs plen =
    (if plen = 0 then 0
     else let plen = (if plen > TRIE_PREFIX_BITS then TRIE_PREFIX_BITS else plen)
          in raw_get_prefix pr ofs plen AND push_bit (32 - plen) (- 1))"

definition prefix_equal_bits :: "u32 \<Rightarrow> nat \<Rightarrow> u32 list \<Rightarrow> nat \<Rightarrow> nat" where
  "prefix_equal_bits prefix nbits value ofs =
    (let diff = ucast (prefix XOR raw_get_prefix value ofs nbits) :: u64
     in raw_clz64 (push_bit 32 diff OR push_bit (63 - nbits) 1))"

text \<open>Byte \<open>ofs / 8\<close> of the array in memory, and the bit in it.\<close>

definition be_get_bit_at :: "u32 list \<Rightarrow> nat \<Rightarrow> bool" where
  "be_get_bit_at value ofs \<longleftrightarrow>
    (let byte = drop_bit (8 * (ofs div 8 mod 4)) (value ! (ofs div 8 div 4)) AND 0xff
     in (drop_bit (7 - ofs mod 8) byte AND 1) = 1)"

definition get_bit_at :: "u32 \<Rightarrow> nat \<Rightarrow> bool" where
  "get_bit_at prefix ofs \<longleftrightarrow> (drop_bit (31 - ofs) prefix AND 1) = 1"

section \<open>Trees\<close>

datatype trie_node =
    Null
  | Node (tn_prefix: u32) (tn_nbits: nat) (tn_n_rules: u32) (tn_edge0: trie_node) (tn_edge1: trie_node)

primrec trie_set_edge :: "trie_node \<Rightarrow> bool \<Rightarrow> trie_node \<Rightarrow> trie_node" where
  "trie_set_edge Null b t = Null"
| "trie_set_edge (Node p n r e0 e1) b t = (if b then Node p n r e0 t else Node p n r t e1)"

primrec trie_is_leaf :: "trie_node \<Rightarrow> bool" where
  "trie_is_leaf Null \<longleftrightarrow> True"
| "trie_is_leaf (Node p n r e0 e1) \<longleftrightarrow> e0 = Null \<and> e1 = Null"

definition trie_prefix_equal_bits :: "u32 \<Rightarrow> nat \<Rightarrow> u32 list \<Rightarrow> nat \<Rightarrow> nat \<Rightarrow> nat" where
  "trie_prefix_equal_bits node_prefix node_nbits prefix ofs plen =
    prefix_equal_bits node_prefix (min node_nbits (plen - ofs)) prefix ofs"

function trie_branch_create :: "u32 list \<Rightarrow> nat \<Rightarrow> nat \<Rightarrow> u32 \<Rightarrow> trie_node" where
  "trie_branch_create prefix ofs plen n_rules =
    (if plen \<le> TRIE_PREFIX_BITS then Node (trie_get_prefix prefix ofs plen) plen n_rules Null Null
     else let subnode = trie_branch_create prefix (ofs + TRIE_PREFIX_BITS) (plen - TRIE_PREFIX_BITS) n_rules;
              b = get_bit_at (tn_prefix subnode) 0
          in trie_set_edge (Node (trie_get_prefix prefix ofs plen) TRIE_PREFIX_BITS 0 Null Null) b subnode)"
  by pat_completeness auto
termination
  by (relation "measure (\<lambda>(prefix, ofs, plen, n_rules). plen)") (auto simp: TRIE_PREFIX_BITS_def)

fun trie_insert_at :: "trie_node \<Rightarrow> u32 list \<Rightarrow> nat \<Rightarrow> nat \<Rightarrow> trie_node" where
  "trie_insert_at Null prefix ofs mlen = trie_branch_create prefix ofs (mlen - ofs) 1"
| "trie_insert_at (Node p n r e0 e1) prefix ofs mlen =
    (let eqbits = trie_prefix_equal_bits p n prefix ofs mlen;
         ofs = ofs + eqbits
     in if eqbits < n
        then let old_branch = get_bit_at p eqbits;
                 parent = trie_branch_create prefix (ofs - eqbits) eqbits (if ofs = mlen then 1 else 0);
                 old = Node (push_bit eqbits p) (n - eqbits) r e0 e1;
                 parent1 = trie_set_edge parent old_branch old
             in if ofs < mlen
                then trie_set_edge parent1 (\<not> old_branch) (trie_branch_create prefix ofs (mlen - ofs) 1)
                else parent1
        else if ofs = mlen then Node p n (r + 1) e0 e1
        else if be_get_bit_at prefix ofs then Node p n r e0 (trie_insert_at e1 prefix ofs mlen)
        else Node p n r (trie_insert_at e0 prefix ofs mlen) e1)"

definition trie_insert_prefix :: "trie_node \<Rightarrow> u32 list \<Rightarrow> nat \<Rightarrow> trie_node" where
  "trie_insert_prefix root prefix mlen = trie_insert_at root prefix 0 mlen"

text \<open>
  One iteration of the pruning loop: the node is kept, combined with its only child, or removed.
  The loop goes on with the parent exactly when the node was removed.
\<close>

fun trie_prune :: "trie_node \<Rightarrow> trie_node" where
  "trie_prune Null = Null"
| "trie_prune (Node p n r e0 e1) =
    (if r = 0 \<and> \<not> (e0 \<noteq> Null \<and> e1 \<noteq> Null)
     then case (if e0 \<noteq> Null then e0 else e1) of
            Null \<Rightarrow> Null
          | Node p' n' r' f0 f1 \<Rightarrow>
              if n + n' > TRIE_PREFIX_BITS then Node p n r e0 e1
              else Node (p OR drop_bit n p') (n' + n) r' f0 f1
     else Node p n r e0 e1)"

text \<open>
  The outcome of a removal: the new tree; a prefix without a rule, for which the code only logs a warning; or a write
  beyond the end of the array \<open>edges\<close>, which has one element per bit of a \<open>union mf_value\<close> and holds the edges on the
  path to the removed node.
\<close>

datatype 'a trie_removal = Removed 'a | Not_Found | Edges_Overrun

definition TRIE_MAX_EDGES :: nat where
  "TRIE_MAX_EDGES = 16 * 8"

fun trie_remove_at :: "trie_node \<Rightarrow> u32 list \<Rightarrow> nat \<Rightarrow> nat \<Rightarrow> nat \<Rightarrow> trie_node trie_removal" where
  "trie_remove_at Null prefix depth ofs mlen = Not_Found"
| "trie_remove_at (Node p n r e0 e1) prefix depth ofs mlen =
    (let eqbits = trie_prefix_equal_bits p n prefix ofs mlen
     in if eqbits < n then Not_Found
        else let ofs = ofs + eqbits
             in if ofs = mlen
                then if r = 0 then Not_Found else Removed (trie_prune (Node p n (r - 1) e0 e1))
                else if depth + 1 \<ge> TRIE_MAX_EDGES then Edges_Overrun
                else if be_get_bit_at prefix ofs
                then map_trie_removal (\<lambda>e. if e = Null then trie_prune (Node p n r e0 e) else Node p n r e0 e)
                       (trie_remove_at e1 prefix (depth + 1) ofs mlen)
                else map_trie_removal (\<lambda>e. if e = Null then trie_prune (Node p n r e e1) else Node p n r e e1)
                       (trie_remove_at e0 prefix (depth + 1) ofs mlen))"

definition trie_remove_prefix :: "trie_node \<Rightarrow> u32 list \<Rightarrow> nat \<Rightarrow> trie_node trie_removal" where
  "trie_remove_prefix root prefix mlen = trie_remove_at root prefix 0 0 mlen"

text \<open>The loop of \<open>trie_lookup_value\<close>; the result is the returned length and \<open>*checkbits\<close>.\<close>

primrec trie_lookup_at ::
  "trie_node \<Rightarrow> trie_node \<Rightarrow> u32 list \<Rightarrow> nat \<Rightarrow> nat \<Rightarrow> nat \<Rightarrow> nat \<times> nat" where
  "trie_lookup_at Null prev value n_bits ofs match_len =
    (match_len, if prev = Null \<or> trie_is_leaf prev then ofs else ofs + 1)"
| "trie_lookup_at (Node p n r e0 e1) prev value n_bits ofs match_len =
    (let eqbits = prefix_equal_bits p n value ofs;
         ofs = ofs + eqbits
     in if eqbits < n then (match_len, ofs + 1)
        else let match_len = (if r \<noteq> 0 then ofs else match_len)
             in if ofs \<ge> n_bits then (match_len, n_bits)
                else if be_get_bit_at value ofs
                then trie_lookup_at e1 (Node p n r e0 e1) value n_bits ofs match_len
                else trie_lookup_at e0 (Node p n r e0 e1) value n_bits ofs match_len)"

definition trie_lookup_value :: "trie_node \<Rightarrow> u32 list \<Rightarrow> nat \<Rightarrow> nat \<times> nat" where
  "trie_lookup_value node value n_bits = trie_lookup_at node Null value n_bits 0 0"

section \<open>Prefix masks\<close>

text \<open>Both functions get the mask array and the index \<open>be32ofs\<close> at which the field starts.\<close>

definition mask_set_prefix_bits :: "u32 list \<Rightarrow> nat \<Rightarrow> nat \<Rightarrow> u32 list" where
  "mask_set_prefix_bits wc be32ofs nbits =
    (let wc = fold (\<lambda>i wc. wc[be32ofs + i := - 1]) [0..<nbits div 32] wc;
         i = nbits div 32
     in if nbits mod 32 \<noteq> 0
        then wc[be32ofs + i := wc ! (be32ofs + i) OR ntohl (push_bit (32 - nbits mod 32) (- 1))]
        else wc)"

definition mask_prefix_bits_set :: "u32 list \<Rightarrow> nat \<Rightarrow> nat \<Rightarrow> bool" where
  "mask_prefix_bits_set wc be32ofs nbits =
    (let zeroes = fold (\<lambda>i z. z OR NOT (wc ! (be32ofs + i))) [0..<nbits div 32] 0;
         i = nbits div 32;
         zeroes = (if nbits mod 32 \<noteq> 0
                   then zeroes OR (NOT (wc ! (be32ofs + i)) AND ntohl (push_bit (32 - nbits mod 32) (- 1)))
                   else zeroes)
     in zeroes = 0)"

declare trie_branch_create.simps [simp del]

section \<open>Bits of prefixes\<close>

text \<open>The bits of a prefix, first bit first.\<close>

definition vbit :: "u32 list \<Rightarrow> nat \<Rightarrow> bool" where
  "vbit v k = bit (ntohl (v ! (k div 32))) (31 - k mod 32)"

definition vbits :: "u32 list \<Rightarrow> nat \<Rightarrow> nat \<Rightarrow> bool list" where
  "vbits v ofs n = map (\<lambda>i. vbit v (ofs + i)) [0..<n]"

definition pbits :: "u32 \<Rightarrow> nat \<Rightarrow> bool list" where
  "pbits p n = map (\<lambda>i. bit p (31 - i)) [0..<n]"

lemma bit_ntohl:
  "bit (ntohl x) j \<longleftrightarrow> j < 32 \<and> bit x (8 * (3 - j div 8) + j mod 8)"
proof (cases "j < 32")
  case True
  then have "j \<in> set [0..<32]" by simp
  moreover have "\<forall>j\<in>set [0..<32]. bit (ntohl x) j \<longleftrightarrow> bit x (8 * (3 - j div 8) + j mod 8)"
    by (simp add: upt_rec ntohl_def bit_simps) (simp add: eval_nat_numeral)
  ultimately show ?thesis using True by blast
qed (auto dest: bit_imp_le_length)


lemma drop_bit_and_1: "(drop_bit n (x :: u32) AND 1) = 1 \<longleftrightarrow> bit x n"
  by (simp add: bit_iff_odd_drop_bit and_one_eq odd_iff_mod_2_eq_one)

lemma be_get_bit_at_vbit: "be_get_bit_at v k = vbit v k"
proof -
  define q r where "q = k mod 32 div 8" and "r = k mod 8"
  have q: "q < 4" "k div 8 mod 4 = q" "k div 8 div 4 = k div 32" "k mod 32 = 8 * q + r"
    using mod_mult2_eq [of k 8 4] div_mult2_eq [of k 8 4] by (simp_all add: q_def r_def)
  have r: "r < 8" by (simp add: r_def)
  have j: "31 - k mod 32 = 8 * (3 - q) + (7 - r)" using q(1,4) r by linarith
  have lt: "8 * (3 - q) + (7 - r) < 32" by (simp add: j [symmetric])
  have "(8 * (3 - q) + (7 - r)) div 8 = 3 - q" "(8 * (3 - q) + (7 - r)) mod 8 = 7 - r"
    using r div_mult_self4 [of 8 "3 - q" "7 - r"] mod_mult_self4 [of 8 "3 - q" "7 - r"]
    by (simp_all del: add_diff_assoc)
  then have "vbit v k \<longleftrightarrow> bit (v ! (k div 32)) (8 * q + (7 - r))"
    unfolding vbit_def j bit_ntohl using q(1) lt by (simp del: add_diff_assoc)
  moreover have "be_get_bit_at v k \<longleftrightarrow> bit (drop_bit (8 * q) (v ! (k div 32)) AND 0xff) (7 - r)"
    by (simp only: be_get_bit_at_def q Let_def drop_bit_and_1 r_def)
  moreover have "bit (0xff :: u32) (7 - r)"
  proof -
    have "(0xff :: u32) = mask 8" by (simp add: mask_eq_exp_minus_1)
    then show ?thesis by (simp only: bit_mask_iff) auto
  qed
  ultimately show ?thesis by (simp add: bit_and_iff bit_drop_bit_eq)
qed

lemma get_bit_at_bit: "get_bit_at p k = bit p (31 - k)"
  by (simp add: get_bit_at_def drop_bit_and_1)

lemma bit_raw_get_prefix:
  assumes "i < plen" "plen \<le> 32"
  shows "bit (raw_get_prefix pr ofs plen) (31 - i) \<longleftrightarrow> vbit pr (ofs + i)"
proof -
  define o' where "o' = ofs mod 32"
  have o: "o' < 32" by (simp add: o'_def)
  show ?thesis
  proof (cases "o' + i < 32")
    case True
    have "(ofs + i) div 32 = ofs div 32" "(ofs + i) mod 32 = o' + i"
      using True div_mod_add_same [of ofs 32 i] by (simp_all add: o'_def)
    moreover have "31 - i - o' = 31 - (o' + i)" "o' \<le> 31 - i" "31 - i < 32" using True by simp_all
    moreover have "\<not> bit (drop_bit (32 - o') (x :: u32)) (31 - i)" for x
      using True o by (auto simp: bit_drop_bit_eq dest: bit_imp_le_length)
    ultimately show ?thesis
      by (simp add: raw_get_prefix_def vbit_def Let_def bit_or_iff bit_push_bit_iff flip: o'_def)
  next
    case False
    have "(ofs + i) div 32 = Suc (ofs div 32)" "(ofs + i) mod 32 = o' + i - 32"
      using False o assms div_mod_add_next [of 32 ofs i] by (simp_all add: o'_def)
    moreover have "32 - o' + (31 - i) = 31 - (o' + i - 32)" "\<not> o' \<le> 31 - i" "plen > 32 - o'"
      using False o assms by linarith+
    ultimately show ?thesis
      by (simp add: raw_get_prefix_def vbit_def Let_def bit_or_iff bit_push_bit_iff bit_drop_bit_eq flip: o'_def)
  qed
qed

lemma bit_trie_get_prefix:
  assumes "i < 32"
  shows "bit (trie_get_prefix pr ofs plen) (31 - i) \<longleftrightarrow> i < plen \<and> vbit pr (ofs + i)"
proof (cases "plen = 0")
  case False
  define q where "q = min plen 32"
  have q: "q > 0" "q \<le> 32" "i < plen \<longleftrightarrow> i < q" using False assms by (auto simp: q_def)
  have "trie_get_prefix pr ofs plen = raw_get_prefix pr ofs q AND push_bit (32 - q) (- 1)"
    using False by (simp add: trie_get_prefix_def Let_def q_def TRIE_PREFIX_BITS_def min_def)
  moreover have "bit (push_bit (32 - q) (- 1) :: u32) (31 - i) \<longleftrightarrow> i < q"
    using assms q by (auto simp: bit_not_iff bit_mask_iff)
  ultimately show ?thesis using bit_raw_get_prefix [of i q pr ofs] q by (auto simp: bit_and_iff)
qed (simp add: trie_get_prefix_def)

text \<open>\<open>prefix_equal_bits\<close> is the length of the longest common prefix.\<close>

lemma prefix_equal_bits_spec:
  fixes p :: u32 and v :: "u32 list" and ofs :: nat
  assumes "nbits \<le> 32"
  defines "e \<equiv> prefix_equal_bits p nbits v ofs"
  shows "e \<le> nbits" "\<And>i. i < e \<Longrightarrow> bit p (31 - i) \<longleftrightarrow> vbit v (ofs + i)"
    "e < nbits \<Longrightarrow> bit p (31 - e) \<longleftrightarrow> \<not> vbit v (ofs + e)"
proof -
  define w :: u64 where "w = push_bit 32 (ucast (p XOR raw_get_prefix v ofs nbits)) OR push_bit (63 - nbits) 1"
  have bw: "bit w (63 - i) \<longleftrightarrow> i = nbits \<or> (i < 32 \<and> bit (p XOR raw_get_prefix v ofs nbits) (31 - i))"
    if "i \<le> 63" for i
  proof -
    have "63 - nbits = 63 - i \<longleftrightarrow> i = nbits" using that assms(1) by auto
    moreover have "32 \<le> 63 - i \<longleftrightarrow> i < 32" "63 - i - 32 = 31 - i" using that by auto
    ultimately show ?thesis using that assms(1)
      by (auto simp: w_def bit_simps)
  qed
  have "w \<noteq> 0" using bw [of nbits] assms(1) by auto
  then have e: "e \<le> 63" "bit w (63 - e)" "\<And>j. j > 63 - e \<Longrightarrow> \<not> bit w j"
    using raw_clz64_highest [of w]
    unfolding e_def prefix_equal_bits_def highest_bit_def Let_def w_def [symmetric] by auto
  show le: "e \<le> nbits"
  proof (rule ccontr)
    assume "\<not> e \<le> nbits"
    then have "\<not> bit w (63 - nbits)" using e(1,3) by auto
    then show False using bw [of nbits] assms(1) by simp
  qed
  have x: "bit (p XOR raw_get_prefix v ofs nbits) (31 - i) \<longleftrightarrow> \<not> (bit p (31 - i) \<longleftrightarrow> vbit v (ofs + i))"
    if "i < nbits" for i
    using bit_raw_get_prefix [OF that assms(1)] by (simp add: bit_xor_iff)
  show "bit p (31 - i) \<longleftrightarrow> vbit v (ofs + i)" if "i < e" for i
  proof -
    have "\<not> bit w (63 - i)" using e(1,3) that by auto
    then show ?thesis using bw [of i] x [of i] that le e(1) assms(1) by auto
  qed
  show "bit p (31 - e) \<longleftrightarrow> \<not> vbit v (ofs + e)" if "e < nbits"
    using bw [of e] x [OF that] e(1,2) that by auto
qed


lemma length_bits [simp]: "length (pbits p n) = n" "length (vbits v ofs n) = n"
  by (simp_all add: pbits_def vbits_def)

lemma vbits_add: "vbits v ofs (m + n) = vbits v ofs m @ vbits v (ofs + m) n"
  by (rule nth_equalityI) (auto simp: vbits_def nth_append)

lemma vbits_split: "m \<le> n \<Longrightarrow> vbits v ofs n = vbits v ofs m @ vbits v (ofs + m) (n - m)"
  using vbits_add [of v ofs m "n - m"] by simp

lemma vbits_0 [simp]: "vbits v ofs 0 = []"
  by (simp add: vbits_def)

lemma vbits_Cons: "n > 0 \<Longrightarrow> vbits v ofs n = vbit v ofs # vbits v (Suc ofs) (n - 1)"
  using vbits_split [of 1 n v ofs] by (simp add: vbits_def)

lemma pbits_0 [simp]: "pbits p 0 = []"
  by (simp add: pbits_def)

lemma pbits_Cons: "n > 0 \<Longrightarrow> pbits p n = bit p 31 # tl (pbits p n)"
  by (cases n) (simp_all add: pbits_def upt_conv_Cons del: upt_Suc)

lemma pbits_trie_get_prefix: "n \<le> 32 \<Longrightarrow> n \<le> plen \<Longrightarrow> pbits (trie_get_prefix pr ofs plen) n = vbits pr ofs n"
  by (simp add: pbits_def vbits_def bit_trie_get_prefix)

lemma pbits_push_bit: "e \<le> n \<Longrightarrow> n \<le> 32 \<Longrightarrow> pbits p n = pbits p e @ pbits (push_bit e p) (n - e)"
  by (rule nth_equalityI) (auto simp: pbits_def nth_append bit_push_bit_iff)

text \<open>Only the first \<open>n\<close> bits of a node's \<open>prefix\<close> may be set.\<close>

definition clean :: "u32 \<Rightarrow> nat \<Rightarrow> bool" where
  "clean p n \<longleftrightarrow> (p AND mask (32 - n)) = 0"

lemma clean_iff: "n \<le> 32 \<Longrightarrow> clean p n \<longleftrightarrow> (\<forall>i<32. n \<le> i \<longrightarrow> \<not> bit p (31 - i))"
proof -
  assume n: "n \<le> 32"
  have "clean p n \<longleftrightarrow> (\<forall>j<32 - n. \<not> bit p j)"
    unfolding clean_def word_zero_iff_bits by (auto simp: bit_and_iff bit_mask_iff) (meson diff_le_self less_le_trans)
  also have "\<dots> \<longleftrightarrow> (\<forall>i<32. n \<le> i \<longrightarrow> \<not> bit p (31 - i))"
  proof safe
    fix j assume a: "\<forall>i<32. n \<le> i \<longrightarrow> \<not> bit p (31 - i)" and "j < 32 - n" "bit p j"
    then show False using spec [OF a, of "31 - j"] n by auto
  qed auto
  finally show ?thesis .
qed

lemma clean_trie_get_prefix: "n \<le> 32 \<Longrightarrow> plen \<le> n \<or> n = 32 \<Longrightarrow> clean (trie_get_prefix pr ofs plen) n"
  by (auto simp: clean_iff bit_trie_get_prefix)

lemma clean_push_bit: "e \<le> n \<Longrightarrow> n \<le> 32 \<Longrightarrow> clean p n \<Longrightarrow> clean (push_bit e p) (n - e)"
  by (auto simp: clean_iff bit_push_bit_iff dest!: spec [of _ "_ + e"])

lemma pbits_append:
  assumes "clean p n" "n + n' \<le> 32"
  shows "pbits (p OR drop_bit n p') (n' + n) = pbits p n @ pbits p' n'"
proof (rule nth_equalityI)
  fix i assume "i < length (pbits (p OR drop_bit n p') (n' + n))"
  then have i: "i < n' + n" by simp
  show "pbits (p OR drop_bit n p') (n' + n) ! i = (pbits p n @ pbits p' n') ! i"
  proof (cases "i < n")
    case True
    have "\<not> bit p' (n + (31 - i))" using True assms(2) by (auto dest: bit_imp_le_length)
    then show ?thesis using True i by (simp add: pbits_def nth_append bit_or_iff bit_drop_bit_eq)
  next
    case False
    have "n + (31 - i) = 31 - (i - n)" "i - n < n'" using False i assms(2) by simp_all
    moreover have "\<not> bit p (31 - i)" using assms i False by (auto simp: clean_iff)
    ultimately show ?thesis using False i
      by (simp add: pbits_def nth_append bit_or_iff bit_drop_bit_eq del: Nat.add_diff_assoc)
  qed
qed simp

lemma clean_append:
  assumes "clean p n" "clean p' n'" "n + n' \<le> 32"
  shows "clean (p OR drop_bit n p') (n' + n)"
proof -
  have "\<not> bit (p OR drop_bit n p') (31 - i)" if "i < 32" "n' + n \<le> i" for i
  proof -
    have "n + (31 - i) = 31 - (i - n)" using that by simp
    then show ?thesis using assms that
      by (auto simp: clean_iff bit_or_iff bit_drop_bit_eq dest!: spec [of _ "i - n"])
  qed
  then show ?thesis using assms by (simp add: clean_iff)
qed


section \<open>The rules of a tree\<close>

definition strip :: "bool list \<Rightarrow> bool list \<Rightarrow> bool list option" where
  "strip xs bs = (if take (length xs) bs = xs then Some (drop (length xs) bs) else None)"

lemma strip_Nil [simp]: "strip [] bs = Some bs"
  by (simp add: strip_def)

lemma strip_append: "strip (xs @ ys) bs = Option.bind (strip xs bs) (strip ys)"
proof (cases "take (length xs) bs = xs")
  case True
  then have "take (length (xs @ ys)) bs = xs @ take (length ys) (drop (length xs) bs)"
    by (simp add: take_add)
  then show ?thesis using True by (simp add: strip_def add.commute)
next
  case False
  have "take (length (xs @ ys)) bs \<noteq> xs @ ys"
  proof
    assume "take (length (xs @ ys)) bs = xs @ ys"
    then have "take (length xs) (take (length (xs @ ys)) bs) = xs" by simp
    then show False using False by simp
  qed
  then show ?thesis using False by (simp add: strip_def)
qed

lemma strip_eq_Nil [simp]: "strip xs bs = Some [] \<longleftrightarrow> bs = xs"
  by (auto simp: strip_def)

lemma strip_Some: "strip xs bs = Some cs \<longleftrightarrow> bs = xs @ cs"
  by (auto simp: strip_def) (metis append_take_drop_id)

lemma strip_self [simp]: "strip xs (xs @ ys) = Some ys"
  by (simp add: strip_def)

lemma unat_pos_iff [simp]: "0 < unat (x :: 'a::len word) \<longleftrightarrow> x \<noteq> 0"
  by (simp add: unat_gt_0)

lemma strip_refl [simp]: "strip xs xs = Some []"
  by (simp add: strip_def)

lemma strip_Cons: "strip (x # xs) bs = (case bs of [] \<Rightarrow> None | b # bs \<Rightarrow> if b = x then strip xs bs else None)"
  by (auto simp: strip_def split: list.split)

primrec trie_count :: "trie_node \<Rightarrow> bool list \<Rightarrow> nat" where
  "trie_count Null bs = 0"
| "trie_count (Node p n r e0 e1) bs =
    (case strip (pbits p n) bs of
       None \<Rightarrow> 0
     | Some cs \<Rightarrow> (case cs of [] \<Rightarrow> unat r | b # _ \<Rightarrow> if b then trie_count e1 cs else trie_count e0 cs))"

text \<open>A child on edge \<open>b\<close> has a non-empty prefix that starts with \<open>b\<close>.\<close>

definition child_ok :: "bool \<Rightarrow> trie_node \<Rightarrow> bool" where
  "child_ok b t \<longleftrightarrow> (case t of Null \<Rightarrow> True | Node p n r e0 e1 \<Rightarrow> n > 0 \<and> bit p 31 = b)"

lemma child_ok_simps [simp]:
  "child_ok b Null" "child_ok b (Node p n r e0 e1) \<longleftrightarrow> n > 0 \<and> bit p 31 = b"
  by (simp_all add: child_ok_def)

text \<open>
  The invariant of a tree: node prefixes fit in 32 bits and have no bits beyond \<open>nbits\<close>, the
  first bit of a child is the edge it hangs on, and a leaf has rules.
\<close>

primrec trie_wf :: "trie_node \<Rightarrow> bool" where
  "trie_wf Null \<longleftrightarrow> True"
| "trie_wf (Node p n r e0 e1) \<longleftrightarrow> n \<le> 32 \<and> clean p n \<and> child_ok False e0 \<and> child_ok True e1 \<and>
     (e0 = Null \<and> e1 = Null \<longrightarrow> r \<noteq> 0) \<and> trie_wf e0 \<and> trie_wf e1"

lemma child_ok_count_0:
  assumes "child_ok b t" "bs = [] \<or> hd bs \<noteq> b"
  shows "trie_count t bs = 0"
proof (cases t)
  case (Node p n r e0 e1)
  then have n: "n > 0" "bit p 31 = b" using assms(1) by (auto simp: child_ok_def)
  have "strip (bit p 31 # tl (pbits p n)) bs = None" using n(2) assms(2) by (cases bs) (auto simp: strip_Cons)
  then have "strip (pbits p n) bs = None" using pbits_Cons [OF n(1)] by metis
  then show ?thesis using Node by simp
qed simp

text \<open>
  The counts of a tree whose bit strings all start with \<open>xs\<close>.  With this the counts of a node are
  the sum of its own rules and those of its two children.
\<close>

definition lifted :: "bool list \<Rightarrow> (bool list \<Rightarrow> nat) \<Rightarrow> bool list \<Rightarrow> nat" where
  "lifted xs f bs = (case strip xs bs of None \<Rightarrow> 0 | Some cs \<Rightarrow> f cs)"

definition single :: "bool list \<Rightarrow> nat \<Rightarrow> bool list \<Rightarrow> nat" where
  "single xs k bs = (if bs = xs then k else 0)"

lemma lifted_add: "lifted xs (\<lambda>cs. f cs + g cs) bs = lifted xs f bs + lifted xs g bs"
  by (simp add: lifted_def split: option.split)

lemma lifted_append: "lifted (xs @ ys) f bs = lifted xs (lifted ys f) bs"
  by (simp add: lifted_def strip_append split: option.split bind_split)

lemma lifted_single: "lifted xs (single ys k) bs = single (xs @ ys) k bs"
proof (cases "strip xs bs")
  case None
  then have "bs \<noteq> xs @ ys" by (metis strip_Some option.distinct(1))
  then show ?thesis using None by (simp add: lifted_def single_def)
qed (auto simp: lifted_def single_def strip_Some)

lemma lifted_0 [simp]: "lifted xs (\<lambda>cs. 0) bs = 0" "single xs 0 bs = 0"
  by (simp_all add: lifted_def single_def split: option.split)

lemma lifted_Nil [simp]: "lifted [] f bs = f bs"
  by (simp add: lifted_def)

lemma single_add: "single xs (k + l) bs = single xs k bs + single xs l bs"
  by (simp add: single_def)

lemma trie_count_Node:
  assumes "child_ok False e0" "child_ok True e1"
  shows "trie_count (Node p n r e0 e1) bs =
    lifted (pbits p n) (\<lambda>cs. single [] (unat r) cs + trie_count e0 cs + trie_count e1 cs) bs"
  using child_ok_count_0 [OF assms(1)] child_ok_count_0 [OF assms(2)]
  by (auto simp: lifted_def single_def split: option.split list.split)

lemmas trie_count_simps = trie_count.simps(1) trie_count_Node lifted_add lifted_single single_add


declare trie_count.simps(2) [simp del]

lemma trie_branch_create_correct:
  assumes "n_rules \<noteq> 0"
  shows "trie_wf (trie_branch_create pr ofs plen n_rules) \<and>
    (plen > 0 \<longrightarrow> child_ok (vbit pr ofs) (trie_branch_create pr ofs plen n_rules)) \<and>
    trie_branch_create pr ofs plen n_rules \<noteq> Null \<and>
    trie_count (trie_branch_create pr ofs plen n_rules) = single (vbits pr ofs plen) (unat n_rules)"
  using assms
proof (induction pr ofs plen n_rules rule: trie_branch_create.induct)
  case (1 pr ofs plen n_rules)
  show ?case
  proof (cases "plen \<le> 32")
    case True
    have "bit (trie_get_prefix pr ofs plen) 31 = vbit pr ofs" if "plen > 0"
      using bit_trie_get_prefix [of 0 pr ofs plen] that by simp
    then show ?thesis using True "1.prems"
      by (auto simp: trie_branch_create.simps TRIE_PREFIX_BITS_def child_ok_def clean_trie_get_prefix
          pbits_trie_get_prefix trie_count_simps fun_eq_iff)
  next
    case False
    let ?sub = "trie_branch_create pr (ofs + 32) (plen - 32) n_rules"
    have IH: "trie_wf ?sub" "child_ok (vbit pr (ofs + 32)) ?sub" "?sub \<noteq> Null"
      "trie_count ?sub = single (vbits pr (ofs + 32) (plen - 32)) (unat n_rules)"
      using "1.IH" "1.prems" False by (auto simp: TRIE_PREFIX_BITS_def)
    define p where "p = trie_get_prefix pr ofs plen"
    have b: "get_bit_at (tn_prefix ?sub) 0 = vbit pr (ofs + 32)"
      using IH(2,3) by (cases ?sub) (simp_all add: get_bit_at_bit child_ok_def)
    have p: "pbits p 32 = vbits pr ofs 32" "clean p 32" "bit p 31 = vbit pr ofs"
      using False bit_trie_get_prefix [of 0 pr ofs plen]
      by (simp_all add: p_def pbits_trie_get_prefix clean_trie_get_prefix)
    have t: "trie_branch_create pr ofs plen n_rules =
        trie_set_edge (Node p 32 0 Null Null) (vbit pr (ofs + 32)) ?sub"
      using False b by (simp add: trie_branch_create.simps [of pr ofs plen] TRIE_PREFIX_BITS_def Let_def p_def)
    have v: "vbits pr ofs plen = vbits pr ofs 32 @ vbits pr (ofs + 32) (plen - 32)"
      using False by (intro vbits_split) simp
    have "trie_count (trie_branch_create pr ofs plen n_rules) = single (vbits pr ofs plen) (unat n_rules)"
      unfolding t v using p(1) IH(2,4)
      by (cases "vbit pr (ofs + 32)") (simp_all add: trie_count_simps fun_eq_iff)
    then show ?thesis using IH p unfolding t by (cases "vbit pr (ofs + 32)") simp_all
  qed
qed


section \<open>Insertion\<close>

lemma pbits_eq_vbits: "(\<And>i. i < e \<Longrightarrow> bit p (31 - i) \<longleftrightarrow> vbit v (ofs + i)) \<Longrightarrow> pbits p e = vbits v ofs e"
  by (simp add: pbits_def vbits_def)

text \<open>Splitting a node in two, as an insertion does in the middle of a node's prefix.\<close>

lemma trie_split_node:
  assumes "trie_wf (Node p n r e0 e1)" "e < n"
  defines "old \<equiv> Node (push_bit e p) (n - e) r e0 e1"
  shows "trie_wf old" "child_ok (bit p (31 - e)) old"
    "trie_count (Node p n r e0 e1) = lifted (pbits p e) (trie_count old)"
proof -
  have n: "n \<le> 32" using assms(1) by simp
  show "trie_wf old" using assms n by (auto simp: clean_push_bit)
  show "child_ok (bit p (31 - e)) old" using assms n by (simp add: bit_push_bit_iff)
  show "trie_count (Node p n r e0 e1) = lifted (pbits p e) (trie_count old)"
  proof -
    have c: "trie_count old = lifted (pbits (push_bit e p) (n - e)) (\<lambda>cs. single [] (unat r) cs + trie_count e0 cs + trie_count e1 cs)"
      using assms(1) by (simp add: fun_eq_iff old_def trie_count_Node)
    show ?thesis unfolding c using assms(1,2) n
      by (simp add: fun_eq_iff trie_count_Node pbits_push_bit [of e n p] lifted_append)
  qed
qed

definition insert_ok :: "trie_node \<Rightarrow> u32 list \<Rightarrow> nat \<Rightarrow> nat \<Rightarrow> bool" where
  "insert_ok t prefix ofs mlen \<longleftrightarrow> (let t' = trie_insert_at t prefix ofs mlen
     in trie_wf t' \<and> t' \<noteq> Null \<and> (ofs < mlen \<and> child_ok (vbit prefix ofs) t \<longrightarrow> child_ok (vbit prefix ofs) t') \<and>
        trie_count t' = (\<lambda>bs. trie_count t bs + single (vbits prefix ofs (mlen - ofs)) 1 bs))"

lemma trie_insert_mismatch:
  assumes "trie_wf (Node p n r e0 e1)" "ofs \<le> mlen"
    "e = trie_prefix_equal_bits p n prefix ofs mlen" "e < n"
  shows "insert_ok (Node p n r e0 e1) prefix ofs mlen"
proof -
  define old where "old = Node (push_bit e p) (n - e) r e0 e1"
  define ob where "ob = bit p (31 - e)"
  define pp where "pp = trie_get_prefix prefix ofs e"
  have n: "n \<le> 32" using assms(1) by simp
  have "min n (mlen - ofs) \<le> 32" using n by simp
  note spec = prefix_equal_bits_spec [OF this, where p = p and v = prefix and ofs = ofs,
       folded trie_prefix_equal_bits_def, folded assms(3)]
  have e: "e \<le> mlen - ofs" "e < 32" using spec(1) n assms(4) by auto
  have eq: "pbits p e = vbits prefix ofs e" using spec(2) n by (intro pbits_eq_vbits) simp
  have pp: "pbits pp e = pbits p e" "clean pp e" "e > 0 \<Longrightarrow> bit pp 31 = vbit prefix ofs"
    using e eq bit_trie_get_prefix [of 0 prefix ofs e]
    by (simp_all add: pp_def pbits_trie_get_prefix clean_trie_get_prefix)
  have par: "trie_branch_create prefix ofs e k = Node pp e k Null Null" for k
    using e by (simp add: trie_branch_create.simps TRIE_PREFIX_BITS_def pp_def)
  note old = trie_split_node [OF assms(1,4), folded old_def ob_def]
  have first: "e > 0" if "ofs < mlen" "child_ok (vbit prefix ofs) (Node p n r e0 e1)"
    using spec(3) that n by (cases "e = 0") auto
  have new: "trie_insert_at (Node p n r e0 e1) prefix ofs mlen =
      (let parent1 = trie_set_edge (Node pp e (if ofs + e = mlen then 1 else 0) Null Null) ob old
       in if ofs + e < mlen then trie_set_edge parent1 (\<not> ob) (trie_branch_create prefix (ofs + e) (mlen - (ofs + e)) 1)
          else parent1)"
    using assms(4) par by (simp add: get_bit_at_bit Let_def flip: assms(3) ob_def old_def)
  have oldNull: "old \<noteq> Null" by (simp add: old_def)
  show ?thesis
  proof (cases "ofs + e = mlen")
    case True
    then have v: "vbits prefix ofs (mlen - ofs) = pbits p e" using eq by auto
    show ?thesis unfolding insert_ok_def new using True old pp e first oldNull
      by (cases ob) (auto simp: Let_def v trie_count_simps fun_eq_iff)
  next
    case False
    let ?new = "trie_branch_create prefix (ofs + e) (mlen - (ofs + e)) 1"
    have lt: "ofs + e < mlen" using False e(1) assms(2) by simp
    have bnew: "vbit prefix (ofs + e) = (\<not> ob)" using spec(3) n lt assms(4) by (simp add: ob_def)
    have br: "trie_wf ?new" "child_ok (\<not> ob) ?new" "?new \<noteq> Null"
      "trie_count ?new = single (vbits prefix (ofs + e) (mlen - (ofs + e))) 1"
      using trie_branch_create_correct [of 1 prefix "ofs + e" "mlen - (ofs + e)"] lt bnew by auto
    have v: "vbits prefix ofs (mlen - ofs) = pbits p e @ vbits prefix (ofs + e) (mlen - (ofs + e))"
      using vbits_split [OF e(1), of prefix ofs] eq by simp
    show ?thesis unfolding insert_ok_def new using lt old pp e first oldNull br
      by (cases ob) (auto simp: Let_def v trie_count_simps fun_eq_iff)
  qed
qed

text \<open>The rules of a prefix are counted in 32 bits, so an insertion needs room for one more.\<close>

lemma trie_insert_at_correct:
  "trie_wf t \<Longrightarrow> ofs \<le> mlen \<Longrightarrow> trie_count t (vbits prefix ofs (mlen - ofs)) < 2 ^ 32 - 1 \<Longrightarrow> insert_ok t prefix ofs mlen"
proof (induction t arbitrary: ofs)
  case Null
  then show ?case using trie_branch_create_correct [of 1 prefix ofs "mlen - ofs"]
    by (simp add: insert_ok_def Let_def fun_eq_iff)
next
  case (Node p n r e0 e1)
  define e where "e = trie_prefix_equal_bits p n prefix ofs mlen"
  show ?case
  proof (cases "e < n")
    case True
    then show ?thesis using trie_insert_mismatch [OF Node.prems(1,2) e_def] by simp
  next
    case False
    have n: "n \<le> 32" "child_ok False e0" "child_ok True e1" using Node.prems by auto
    have "min n (mlen - ofs) \<le> 32" using n by simp
  note spec = prefix_equal_bits_spec [OF this, where p = p and v = prefix and ofs = ofs,
       folded trie_prefix_equal_bits_def, folded e_def]
    have e: "e = n" "n \<le> mlen - ofs" using spec(1) n False by auto
    have eq: "pbits p n = vbits prefix ofs n" using spec(2) n e by (intro pbits_eq_vbits) simp
    have v: "vbits prefix ofs (mlen - ofs) = pbits p n @ vbits prefix (ofs + n) (mlen - (ofs + n))"
      using vbits_split [OF e(2), of prefix ofs] eq by simp
    show ?thesis
    proof (cases "ofs + n = mlen")
      case True
      then have "trie_insert_at (Node p n r e0 e1) prefix ofs mlen = Node p n (r + 1) e0 e1"
        using e False by (simp add: Let_def flip: e_def)
      moreover have "unat r < 2 ^ 32 - 1" using Node.prems(3) v True by (simp add: trie_count.simps)
      then have "unat (r + 1) = unat r + 1" by (subst unat_add_lem [THEN iffD1]) simp_all
      moreover from this have "r + 1 \<noteq> 0" by (metis Suc_eq_plus1 nat.simps(3) unsigned_0)
      ultimately show ?thesis using Node.prems(1) n v True single_add [of "pbits p n" "unat r" 1]
        by (simp add: insert_ok_def Let_def trie_count_simps fun_eq_iff del: trie_insert_at.simps)
    next
      case False
      then have lt: "ofs + n < mlen" using e Node.prems by simp
      have step: "trie_insert_at (Node p n r e0 e1) prefix ofs mlen =
          (if vbit prefix (ofs + n) then Node p n r e0 (trie_insert_at e1 prefix (ofs + n) mlen)
           else Node p n r (trie_insert_at e0 prefix (ofs + n) mlen) e1)"
        using e lt by (simp add: Let_def be_get_bit_at_vbit flip: e_def)
      define b where "b = vbit prefix (ofs + n)"
      have "vbits prefix (ofs + n) (mlen - (ofs + n)) = b # vbits prefix (Suc (ofs + n)) (mlen - (ofs + n) - 1)"
        using lt by (simp add: vbits_Cons b_def)
      then have "trie_count (if b then e1 else e0) (vbits prefix (ofs + n) (mlen - (ofs + n))) =
          trie_count (Node p n r e0 e1) (vbits prefix ofs (mlen - ofs))"
        unfolding v by (simp add: trie_count.simps)
      then have IH: "insert_ok (if b then e1 else e0) prefix (ofs + n) mlen"
        using Node.IH(1) [of "ofs + n"] Node.IH(2) [of "ofs + n"] Node.prems lt by (cases b) simp_all
      show ?thesis
        using IH n lt Node.prems unfolding insert_ok_def step b_def
        by (cases "vbit prefix (ofs + n)") (auto simp: Let_def v trie_count_simps fun_eq_iff lifted_append)
    qed
  qed
qed


section \<open>Removal\<close>

text \<open>The invariant without the condition on leaves, which holds while the pruning loop runs.\<close>

definition node_ok :: "u32 \<Rightarrow> nat \<Rightarrow> trie_node \<Rightarrow> trie_node \<Rightarrow> bool" where
  "node_ok p n e0 e1 \<longleftrightarrow> n \<le> 32 \<and> clean p n \<and> child_ok False e0 \<and> child_ok True e1 \<and> trie_wf e0 \<and> trie_wf e1"

lemma trie_wf_Node: "trie_wf (Node p n r e0 e1) \<longleftrightarrow> node_ok p n e0 e1 \<and> (e0 = Null \<and> e1 = Null \<longrightarrow> r \<noteq> 0)"
  by (auto simp: node_ok_def)

lemma trie_combine:
  assumes "node_ok p n e0 e1" "{e0, e1} = {Null, Node p' n' r' f0 f1}" "n + n' \<le> 32"
  defines "t \<equiv> Node (p OR drop_bit n p') (n' + n) r' f0 f1"
  shows "trie_wf t" "child_ok b (Node p n r e0 e1) \<Longrightarrow> child_ok b t"
    "trie_count (Node p n 0 e0 e1) = trie_count t"
proof -
  have next_wf: "trie_wf (Node p' n' r' f0 f1)" and p: "clean p n" "child_ok False e0" "child_ok True e1"
    using assms(1,2) by (auto simp: node_ok_def doubleton_eq_iff)
  then show "trie_wf t" using assms(3) by (auto simp: t_def clean_append)
  show "child_ok b t" if "child_ok b (Node p n r e0 e1)"
    using that assms(3) by (auto simp: t_def bit_or_iff bit_drop_bit_eq dest: bit_imp_le_length)
  have c: "trie_count (Node p' n' r' f0 f1) =
      lifted (pbits p' n') (\<lambda>cs. single [] (unat r') cs + trie_count f0 cs + trie_count f1 cs)"
    using next_wf by (simp add: fun_eq_iff trie_count_Node)
  have "trie_count (Node p n 0 e0 e1) = lifted (pbits p n) (trie_count (Node p' n' r' f0 f1))"
    using assms(2) p by (auto simp: fun_eq_iff trie_count_Node doubleton_eq_iff)
  also have "\<dots> = trie_count t"
    unfolding c t_def using next_wf assms(3) p
    by (simp add: fun_eq_iff trie_count_Node pbits_append lifted_append)
  finally show "trie_count (Node p n 0 e0 e1) = trie_count t" .
qed

lemma trie_prune_correct:
  assumes "node_ok p n e0 e1"
  shows "trie_wf (trie_prune (Node p n r e0 e1)) \<and>
    (child_ok b (Node p n r e0 e1) \<longrightarrow> child_ok b (trie_prune (Node p n r e0 e1))) \<and>
    trie_count (trie_prune (Node p n r e0 e1)) = trie_count (Node p n r e0 e1)"
proof (cases "r = 0 \<and> \<not> (e0 \<noteq> Null \<and> e1 \<noteq> Null)")
  case True
  show ?thesis
  proof (cases "if e0 \<noteq> Null then e0 else e1")
    case Null
    then have e: "e0 = Null" "e1 = Null" by (auto split: if_splits)
    then show ?thesis using True by (simp add: fun_eq_iff trie_count_Node)
  next
    case (Node p' n' r' f0 f1)
    then have e: "{e0, e1} = {Null, Node p' n' r' f0 f1}" using True by (auto split: if_splits)
    show ?thesis
    proof (cases "n + n' > 32")
      case big: True
      then have "trie_prune (Node p n r e0 e1) = Node p n r e0 e1"
        using True Node by (simp add: TRIE_PREFIX_BITS_def)
      moreover have "\<not> (e0 = Null \<and> e1 = Null)" using Node by (auto split: if_splits)
      ultimately show ?thesis using assms by (auto simp: trie_wf_Node simp del: trie_wf.simps trie_prune.simps)
    next
      case False
      then have "trie_prune (Node p n r e0 e1) = Node (p OR drop_bit n p') (n' + n) r' f0 f1"
        using True Node by (simp add: TRIE_PREFIX_BITS_def)
      then show ?thesis using trie_combine [OF assms e] False True by simp
    qed
  qed
next
  case False
  then have "trie_prune (Node p n r e0 e1) = Node p n r e0 e1" by (simp only: trie_prune.simps if_False)
  then show ?thesis using False assms by (auto simp: trie_wf_Node simp del: trie_wf.simps trie_prune.simps)
qed

text \<open>The edges on the way of a bit string through the tree, which the removal notes in its array.\<close>

primrec trie_edges :: "trie_node \<Rightarrow> bool list \<Rightarrow> nat" where
  "trie_edges Null bs = 0"
| "trie_edges (Node p n r e0 e1) bs =
    (case strip (pbits p n) bs of
       None \<Rightarrow> 0
     | Some cs \<Rightarrow> (case cs of [] \<Rightarrow> 0 | b # _ \<Rightarrow> 1 + (if b then trie_edges e1 cs else trie_edges e0 cs)))"

lemma trie_edges_child:
  assumes "trie_wf t" "child_ok b t" "bs \<noteq> []"
  shows "trie_edges t bs < length bs"
  using assms
proof (induction t arbitrary: b bs)
  case (Node p n r e0 e1)
  show ?case
  proof (cases "\<exists>c cs. strip (pbits p n) bs = Some (c # cs)")
    case True
    then obtain c cs where cs: "strip (pbits p n) bs = Some (c # cs)" by blast
    then have bs: "bs = pbits p n @ c # cs" by (simp add: strip_Some)
    have "trie_edges (if c then e1 else e0) (c # cs) < length (c # cs)"
      using Node.IH(1) [of False "c # cs"] Node.IH(2) [of True "c # cs"] Node.prems(1) by (cases c) simp_all
    moreover have "length (c # cs) < length bs" using Node.prems(2) bs by simp
    ultimately show ?thesis using cs by (cases c) simp_all
  next
    case False
    then have "trie_edges (Node p n r e0 e1) bs = 0" by (auto split: option.split list.split)
    then show ?thesis using Node.prems(3) by simp
  qed
qed simp

lemma trie_edges_le:
  assumes "trie_wf t"
  shows "trie_edges t bs \<le> length bs"
proof (cases t)
  case (Node p n r e0 e1)
  have "trie_edges (if c then e1 else e0) (c # cs) < length (c # cs)" for c cs
    using trie_edges_child [of e0 False "c # cs"] trie_edges_child [of e1 True "c # cs"] assms Node by (cases c) simp_all
  note child = this
  show ?thesis
  proof (cases "\<exists>c cs. strip (pbits p n) bs = Some (c # cs)")
    case True
    then obtain c cs where cs: "strip (pbits p n) bs = Some (c # cs)" by blast
    then have "length (c # cs) \<le> length bs" by (simp add: strip_Some)
    then show ?thesis using child [of c cs] cs Node by (cases c) simp_all
  next
    case False
    then have "trie_edges t bs = 0" using Node by (auto split: option.split list.split)
    then show ?thesis by simp
  qed
qed simp

text \<open>
  What a removal at a node reached over \<open>depth\<close> edges does: it overruns the array exactly when the whole way has more
  edges than the array has elements, and otherwise takes away one rule, if the prefix has one.
\<close>

definition remove_ok :: "trie_node \<Rightarrow> u32 list \<Rightarrow> nat \<Rightarrow> nat \<Rightarrow> nat \<Rightarrow> bool" where
  "remove_ok t prefix depth ofs mlen \<longleftrightarrow>
    (let bs = vbits prefix ofs (mlen - ofs); fits = (depth + trie_edges t bs < TRIE_MAX_EDGES)
     in case trie_remove_at t prefix depth ofs mlen of
          Edges_Overrun \<Rightarrow> \<not> fits
        | Not_Found \<Rightarrow> fits \<and> trie_count t bs = 0
        | Removed t' \<Rightarrow> fits \<and> trie_wf t' \<and> (\<forall>b. child_ok b t \<longrightarrow> child_ok b t') \<and>
            trie_count t = (\<lambda>cs. trie_count t' cs + single bs 1 cs))"

lemma remove_okI:
  assumes "trie_remove_at t prefix depth ofs mlen = Removed t'" "depth + trie_edges t (vbits prefix ofs (mlen - ofs)) < TRIE_MAX_EDGES"
    "trie_wf t' \<and> (\<forall>b. child_ok b t \<longrightarrow> child_ok b t') \<and>
      trie_count t = (\<lambda>bs. trie_count t' bs + single (vbits prefix ofs (mlen - ofs)) 1 bs)"
  shows "remove_ok t prefix depth ofs mlen"
  unfolding remove_ok_def Let_def assms(1) trie_removal.case using assms(2,3) by blast

lemma trie_remove_child:
  assumes "remove_ok e prefix depth (ofs + n) mlen" "trie_remove_at e prefix depth (ofs + n) mlen = Removed e'"
    "node_ok p n e0 e1" "(e = e0 \<and> f0 = e' \<and> f1 = e1) \<or> (e = e1 \<and> f0 = e0 \<and> f1 = e')"
    "vbits prefix ofs (mlen - ofs) = pbits p n @ vbits prefix (ofs + n) (mlen - (ofs + n))" "e' = Null \<or> t' = Node p n r f0 f1"
    "e' = Null \<longrightarrow> t' = trie_prune (Node p n r f0 f1)"
  shows "trie_wf t' \<and> (\<forall>b. child_ok b (Node p n r e0 e1) \<longrightarrow> child_ok b t') \<and>
    trie_count (Node p n r e0 e1) = (\<lambda>bs. trie_count t' bs + single (vbits prefix ofs (mlen - ofs)) 1 bs)"
proof -
  have e': "trie_wf e'" "\<And>b. child_ok b e \<Longrightarrow> child_ok b e'"
    "trie_count e = (\<lambda>bs. trie_count e' bs + single (vbits prefix (ofs + n) (mlen - (ofs + n))) 1 bs)"
    using assms(1,2) by (auto simp: remove_ok_def Let_def)
  have ok: "node_ok p n f0 f1" using assms(3,4) e' by (auto simp: node_ok_def)
  have l: "lifted xs (trie_count e) bs = lifted xs (trie_count e') bs +
      single (xs @ vbits prefix (ofs + n) (mlen - (ofs + n))) 1 bs" for xs bs
    unfolding e'(3) by (simp add: lifted_add lifted_single)
  have count: "trie_count (Node p n r e0 e1) =
      (\<lambda>bs. trie_count (Node p n r f0 f1) bs + single (vbits prefix ofs (mlen - ofs)) 1 bs)"
    using assms(3,4) ok l [of "pbits p n"] by (auto simp: node_ok_def fun_eq_iff trie_count_simps assms(5))
  show ?thesis
  proof (cases "e' = Null")
    case True
    then show ?thesis using trie_prune_correct [OF ok, of r] assms(7) count by auto
  next
    case False
    then have "t' = Node p n r f0 f1" "\<not> (f0 = Null \<and> f1 = Null)" using assms(4,6) by auto
    then show ?thesis using ok count by (auto simp: trie_wf_Node simp del: trie_wf.simps)
  qed
qed

lemma trie_remove_at_correct:
  "trie_wf t \<Longrightarrow> ofs \<le> mlen \<Longrightarrow> depth < TRIE_MAX_EDGES \<Longrightarrow> remove_ok t prefix depth ofs mlen"
proof (induction t arbitrary: ofs depth)
  case Null
  then show ?case by (simp add: remove_ok_def)
next
  case (Node p n r e0 e1)
  define e where "e = trie_prefix_equal_bits p n prefix ofs mlen"
  have n: "n \<le> 32" "child_ok False e0" "child_ok True e1" using Node.prems by auto
  have ok: "node_ok p n e0 e1" using Node.prems by (simp only: trie_wf_Node)
  have "min n (mlen - ofs) \<le> 32" using n by simp
  note spec = prefix_equal_bits_spec [OF this, where p = p and v = prefix and ofs = ofs,
      folded trie_prefix_equal_bits_def, folded e_def]
  show ?case
  proof (cases "e < n")
    case True
    have "strip (pbits p n) (vbits prefix ofs (mlen - ofs)) = None"
    proof (cases "n \<le> mlen - ofs")
      case le: True
      have "pbits p n ! e \<noteq> vbits prefix ofs (mlen - ofs) ! e"
        using spec(3) True le by (simp add: pbits_def vbits_def)
      then show ?thesis using True le by (auto simp: strip_def dest!: arg_cong [where f = "\<lambda>xs. xs ! e"])
    next
      case False
      then show ?thesis by (auto simp: strip_def dest!: arg_cong [where f = length])
    qed
    then show ?thesis using True Node.prems(3) by (simp add: remove_ok_def Let_def trie_count.simps flip: e_def)
  next
    case False
    have e: "e = n" "n \<le> mlen - ofs" using spec(1) False by auto
    have eq: "pbits p n = vbits prefix ofs n" using spec(2) e by (intro pbits_eq_vbits) simp
    have v: "vbits prefix ofs (mlen - ofs) = pbits p n @ vbits prefix (ofs + n) (mlen - (ofs + n))"
      using vbits_split [OF e(2), of prefix ofs] eq by simp
    show ?thesis
    proof (cases "ofs + n = mlen")
      case True
      then have step: "trie_remove_at (Node p n r e0 e1) prefix depth ofs mlen =
          (if r = 0 then Not_Found else Removed (trie_prune (Node p n (r - 1) e0 e1)))"
        using e by (simp add: Let_def flip: e_def)
      have fits: "depth + trie_edges (Node p n r e0 e1) (vbits prefix ofs (mlen - ofs)) < TRIE_MAX_EDGES"
        using v True Node.prems(3) by simp
      have "trie_count (Node p n r e0 e1) = (\<lambda>bs. trie_count (Node p n (r - 1) e0 e1) bs + single (pbits p n) 1 bs)"
        if "r \<noteq> 0"
      proof -
        have "unat r > 0" using that by simp
        then have "unat r = unat (r - 1) + 1" using that by (simp add: unat_minus_one)
        then show ?thesis using n single_add [of "pbits p n" "unat (r - 1)" 1] by (simp add: fun_eq_iff trie_count_simps)
      qed
      moreover have "trie_count (Node p n 0 e0 e1) (pbits p n) = 0"
        using n by (simp add: trie_count.simps strip_def)
      ultimately show ?thesis unfolding remove_ok_def step Let_def
        using trie_prune_correct [OF ok, of "r - 1"] v True fits by auto
    next
      case False
      then have lt: "ofs + n < mlen" using e Node.prems by simp
      define b where "b = vbit prefix (ofs + n)"
      let ?c = "if b then e1 else e0" and ?cs = "vbits prefix (ofs + n) (mlen - (ofs + n))"
      have cs: "?cs = b # vbits prefix (Suc (ofs + n)) (mlen - (ofs + n) - 1)"
        using lt by (simp add: vbits_Cons b_def)
      have edges: "trie_edges (Node p n r e0 e1) (vbits prefix ofs (mlen - ofs)) = 1 + trie_edges ?c ?cs"
        unfolding v by (subst (2) cs, subst cs) simp
      show ?thesis
      proof (cases "depth + 1 < TRIE_MAX_EDGES")
        case over: False
        then have "trie_remove_at (Node p n r e0 e1) prefix depth ofs mlen = Edges_Overrun"
          using e lt by (simp add: Let_def flip: e_def)
        then show ?thesis unfolding remove_ok_def Let_def edges using over by simp
      next
        case True
        have IH: "remove_ok ?c prefix (depth + 1) (ofs + n) mlen" using Node.IH Node.prems lt True by auto
        have step: "trie_remove_at (Node p n r e0 e1) prefix depth ofs mlen =
            map_trie_removal (\<lambda>e. let t = Node p n r (if b then e0 else e) (if b then e else e1)
                            in if e = Null then trie_prune t else t)
              (trie_remove_at ?c prefix (depth + 1) (ofs + n) mlen)"
          using e lt True by (cases b) (simp_all add: Let_def be_get_bit_at_vbit b_def flip: e_def)
        show ?thesis
        proof (cases "trie_remove_at ?c prefix (depth + 1) (ofs + n) mlen")
          case Not_Found
          then have "trie_count ?c ?cs = 0" "depth + 1 + trie_edges ?c ?cs < TRIE_MAX_EDGES"
            using IH by (simp_all add: remove_ok_def Let_def)
          moreover from this(1) have "trie_count (Node p n r e0 e1) (vbits prefix ofs (mlen - ofs)) = 0"
            unfolding v cs by (simp add: trie_count.simps split: if_splits)
          ultimately show ?thesis unfolding remove_ok_def Let_def step Not_Found edges by simp
        next
          case Edges_Overrun
          then have "\<not> depth + 1 + trie_edges ?c ?cs < TRIE_MAX_EDGES" using IH by (simp add: remove_ok_def Let_def)
          then show ?thesis unfolding remove_ok_def Let_def step Edges_Overrun edges by simp
        next
          case (Removed e')
          define f0 f1 t' where "f0 = (if b then e0 else e')" and "f1 = (if b then e' else e1)"
            and "t' = (if e' = Null then trie_prune (Node p n r f0 f1) else Node p n r f0 f1)"
          have "(?c = e0 \<and> f0 = e' \<and> f1 = e1) \<or> (?c = e1 \<and> f0 = e0 \<and> f1 = e')"
            by (simp add: f0_def f1_def)
          note child = trie_remove_child [OF IH Removed ok this v, of t' r]
          have t': "e' = Null \<or> t' = Node p n r f0 f1" "e' = Null \<longrightarrow> t' = trie_prune (Node p n r f0 f1)"
            by (simp_all add: t'_def)
          have "trie_remove_at (Node p n r e0 e1) prefix depth ofs mlen = Removed t'"
            unfolding step Removed by (simp only: trie_removal.map Let_def t'_def f0_def f1_def)
          moreover have "depth + trie_edges (Node p n r e0 e1) (vbits prefix ofs (mlen - ofs)) < TRIE_MAX_EDGES"
            unfolding edges using IH Removed by (simp add: remove_ok_def Let_def)
          ultimately show ?thesis using child [OF t'] by (rule remove_okI)
        qed
      qed
    qed
  qed
qed


section \<open>Lookup\<close>

text \<open>
  What the loop of the lookup finds below a node: the lengths of the prefixes in the tree that
  agree with the value.
\<close>

definition matches :: "trie_node \<Rightarrow> u32 list \<Rightarrow> nat \<Rightarrow> nat \<Rightarrow> bool" where
  "matches t value ofs k \<longleftrightarrow> trie_count t (vbits value ofs k) > 0"

text \<open>Every prefix in the tree has at most \<open>n\<close> bits.\<close>

definition trie_depth_le :: "trie_node \<Rightarrow> nat \<Rightarrow> bool" where
  "trie_depth_le t n \<longleftrightarrow> (\<forall>bs. trie_count t bs > 0 \<longrightarrow> length bs \<le> n)"

lemma trie_count_path:
  assumes "trie_wf t" "t \<noteq> Null"
  shows "\<exists>bs. trie_count t bs > 0"
  using assms
proof (induction t)
  case (Node p n r e0 e1)
  consider "r \<noteq> 0" | "e0 \<noteq> Null" | "e1 \<noteq> Null" using Node.prems by auto
  then show ?case
  proof cases
    case 1
    then have "trie_count (Node p n r e0 e1) (pbits p n) > 0" by (simp add: trie_count.simps strip_def)
    then show ?thesis by blast
  next
    case 2
    then obtain bs where "trie_count e0 bs > 0" using Node by auto
    then have "trie_count (Node p n r e0 e1) (pbits p n @ bs) > 0"
      using Node.prems by (simp add: trie_count_Node lifted_def)
    then show ?thesis by blast
  next
    case 3
    then obtain bs where "trie_count e1 bs > 0" using Node by auto
    then have "trie_count (Node p n r e0 e1) (pbits p n @ bs) > 0"
      using Node.prems by (simp add: trie_count_Node lifted_def)
    then show ?thesis by blast
  qed
qed simp

lemma trie_depth_node:
  assumes "trie_wf (Node p n r e0 e1)" "trie_depth_le (Node p n r e0 e1) m"
  shows "n \<le> m" "trie_depth_le e0 (m - n)" "trie_depth_le e1 (m - n)"
proof -
  obtain bs where bs: "trie_count (Node p n r e0 e1) bs > 0" using trie_count_path [OF assms(1)] by auto
  then have "strip (pbits p n) bs \<noteq> None" by (auto simp: trie_count.simps split: option.splits)
  then have "n \<le> length bs" by (auto simp: strip_Some)
  then show "n \<le> m" using bs assms(2) unfolding trie_depth_le_def by (meson le_trans)
  show "trie_depth_le e0 (m - n)" "trie_depth_le e1 (m - n)"
    unfolding trie_depth_le_def
  proof (safe)
    fix bs assume "trie_count e0 bs > 0"
    then have "trie_count (Node p n r e0 e1) (pbits p n @ bs) > 0"
      using assms(1) by (simp add: trie_count_Node lifted_def)
    then have "length (pbits p n @ bs) \<le> m" using assms(2) unfolding trie_depth_le_def by blast
    then show "length bs \<le> m - n" by simp
  next
    fix bs assume "trie_count e1 bs > 0"
    then have "trie_count (Node p n r e0 e1) (pbits p n @ bs) > 0"
      using assms(1) by (simp add: trie_count_Node lifted_def)
    then have "length (pbits p n @ bs) \<le> m" using assms(2) unfolding trie_depth_le_def by blast
    then show "length bs \<le> m - n" by simp
  qed
qed

lemma matches_Node:
  assumes "trie_wf (Node p n r e0 e1)"
  shows "matches (Node p n r e0 e1) v ofs k \<longleftrightarrow> n \<le> k \<and> pbits p n = vbits v ofs n \<and>
    (if k = n then r \<noteq> 0 else matches (if vbit v (ofs + n) then e1 else e0) v (ofs + n) (k - n))"
proof (cases "n \<le> k \<and> pbits p n = vbits v ofs n")
  case True
  then have s: "vbits v ofs k = pbits p n @ vbits v (ofs + n) (k - n)" by (metis vbits_split)
  show ?thesis
  proof (cases "k = n")
    case True
    then show ?thesis using s \<open>n \<le> k \<and> pbits p n = vbits v ofs n\<close>
      by (simp add: matches_def trie_count.simps)
  next
    case False
    then have "vbits v (ofs + n) (k - n) = vbit v (ofs + n) # vbits v (Suc (ofs + n)) (k - n - 1)"
      using True by (intro vbits_Cons) simp
    then show ?thesis using s True False by (simp add: matches_def trie_count.simps)
  qed
next
  case False
  have "strip (pbits p n) (vbits v ofs k) = None"
  proof (rule ccontr)
    assume "\<not> ?thesis"
    then obtain cs where cs: "vbits v ofs k = pbits p n @ cs" by (auto simp: strip_Some)
    then have "n \<le> k" by (metis le_add1 length_append length_bits)
    then have "vbits v ofs n = pbits p n" using cs vbits_split [of n k v ofs]
      by (metis append_eq_append_conv length_bits)
    then show False using False \<open>n \<le> k\<close> by simp
  qed
  then show ?thesis using False by (auto simp: matches_def trie_count.simps)
qed


lemma prefix_equal_bits_cong:
  assumes "n \<le> 32" "e = prefix_equal_bits p n v ofs"
    "\<And>i. i \<le> e \<Longrightarrow> i < n \<Longrightarrow> vbit v' (ofs + i) = vbit v (ofs + i)"
  shows "prefix_equal_bits p n v' ofs = e"
proof -
  note s = prefix_equal_bits_spec [OF assms(1), where p = p and v = v and ofs = ofs, folded assms(2)]
  note s' = prefix_equal_bits_spec [OF assms(1), where p = p and v = v' and ofs = ofs]
  define e' where "e' = prefix_equal_bits p n v' ofs"
  consider "e' < e" | "e < e'" | "e' = e" by linarith
  then show ?thesis
  proof cases
    case 1
    then show ?thesis using s(1) s(2) [of e'] s'(3) assms(3) [of e'] by (simp add: e'_def)
  next
    case 2
    then show ?thesis using s(3) s'(1) s'(2) [of e] assms(3) [of e] by (simp add: e'_def)
  qed (simp add: e'_def)
qed

text \<open>The three cases of one iteration.\<close>

lemma trie_lookup_at_Node:
  fixes p :: u32 and v :: "u32 list" and ofs :: nat
  assumes "n \<le> 32"
  defines "e \<equiv> prefix_equal_bits p n v ofs"
  shows "trie_lookup_at (Node p n r e0 e1) prev v n_bits ofs ml =
    (if e < n then (ml, ofs + e + 1)
     else if ofs + n \<ge> n_bits then (if r \<noteq> 0 then ofs + n else ml, n_bits)
     else trie_lookup_at (if vbit v (ofs + n) then e1 else e0) (Node p n r e0 e1) v n_bits (ofs + n)
            (if r \<noteq> 0 then ofs + n else ml))"
    "e < n \<Longrightarrow> pbits p n \<noteq> vbits v ofs n" "\<not> e < n \<Longrightarrow> pbits p n = vbits v ofs n"
proof -
  note s = prefix_equal_bits_spec [OF assms(1), where p = p and v = v and ofs = ofs, folded e_def]
  have "e = n" if "\<not> e < n" using s(1) that by simp
  then show "trie_lookup_at (Node p n r e0 e1) prev v n_bits ofs ml =
    (if e < n then (ml, ofs + e + 1)
     else if ofs + n \<ge> n_bits then (if r \<noteq> 0 then ofs + n else ml, n_bits)
     else trie_lookup_at (if vbit v (ofs + n) then e1 else e0) (Node p n r e0 e1) v n_bits (ofs + n)
            (if r \<noteq> 0 then ofs + n else ml))"
    by (auto simp: Let_def be_get_bit_at_vbit simp flip: e_def)
  show "\<not> e < n \<Longrightarrow> pbits p n = vbits v ofs n"
    using s(1,2) by (intro pbits_eq_vbits) simp
  show "pbits p n \<noteq> vbits v ofs n" if "e < n"
  proof
    assume "pbits p n = vbits v ofs n"
    then have "pbits p n ! e = vbits v ofs n ! e" by simp
    then show False using s(3) that by (simp add: pbits_def vbits_def)
  qed
qed

declare trie_lookup_at.simps(2) [simp del]

definition lookup_found :: "trie_node \<Rightarrow> u32 list \<Rightarrow> nat \<Rightarrow> nat \<Rightarrow> nat \<Rightarrow> bool" where
  "lookup_found t v ofs ml L \<longleftrightarrow> (\<forall>k. matches t v ofs k \<longrightarrow> ofs + k \<le> L) \<and>
     (L = ml \<and> (\<forall>k. \<not> matches t v ofs k) \<or> (\<exists>k. matches t v ofs k \<and> L = ofs + k))"

lemma matches_0_child: "child_ok b t \<Longrightarrow> \<not> matches t v ofs 0"
  by (simp add: matches_def child_ok_count_0)

lemma trie_lookup_at_longest:
  assumes "trie_wf t" "trie_depth_le t (n_bits - ofs)" "ofs \<le> n_bits"
  shows "lookup_found t v ofs ml (fst (trie_lookup_at t prev v n_bits ofs ml))"
  using assms
proof (induction t arbitrary: ofs ml prev)
  case Null
  then show ?case by (simp add: lookup_found_def matches_def)
next
  case (Node p n r e0 e1)
  define e where "e = prefix_equal_bits p n v ofs"
  define c where "c = (if vbit v (ofs + n) then e1 else e0)"
  have n: "n \<le> 32" using Node.prems by simp
  note step = trie_lookup_at_Node(2,3) [OF n, where p = p and v = v and ofs = ofs, folded e_def]
  note step1 = trie_lookup_at_Node(1) [OF n, where p = p and v = v and ofs = ofs and ?e0.0 = e0 and ?e1.0 = e1, folded e_def c_def]
  note m = matches_Node [OF Node.prems(1), of v ofs, folded c_def]
  note d = trie_depth_node [OF Node.prems(1,2)]
  have c: "trie_wf c" "trie_depth_le c (n_bits - (ofs + n))" "child_ok (vbit v (ofs + n)) c"
    using d(2,3) Node.prems(1) by (auto simp: c_def)
  show ?case
  proof (cases "e < n")
    case True
    then show ?thesis using step(1) by (simp add: step1 lookup_found_def m)
  next
    case False
    note eq = step(2) [OF False]
    show ?thesis
    proof (cases "ofs + n \<ge> n_bits")
      case True
      have "\<not> matches c v (ofs + n) k" for k
      proof
        assume k: "matches c v (ofs + n) k"
        then have "k \<le> n_bits - (ofs + n)" using c(2) unfolding matches_def trie_depth_le_def by (metis length_bits(2))
        then have "k = 0" using True by simp
        then show False using k matches_0_child [OF c(3)] by simp
      qed
      then have "matches (Node p n r e0 e1) v ofs k \<longleftrightarrow> k = n \<and> r \<noteq> 0" for k using m [of k] eq by auto
      moreover have "trie_lookup_at (Node p n r e0 e1) prev v n_bits ofs ml = (if r \<noteq> 0 then ofs + n else ml, n_bits)"
        using False True by (simp add: step1)
      ultimately show ?thesis by (simp add: lookup_found_def)
    next
      case lt: False
      define ml' where "ml' = (if r \<noteq> 0 then ofs + n else ml)"
      define L where "L = fst (trie_lookup_at c (Node p n r e0 e1) v n_bits (ofs + n) ml')"
      have IH: "lookup_found c v (ofs + n) ml' L"
        using Node.IH c(1,2) lt unfolding L_def c_def by auto
      have k: "k > 0" if "matches c v (ofs + n) k" for k
        using that matches_0_child [OF c(3)] by (cases k) auto
      have m': "matches (Node p n r e0 e1) v ofs k \<longleftrightarrow> k = n \<and> r \<noteq> 0 \<or> k > n \<and> matches c v (ofs + n) (k - n)" for k
        using m [of k] eq by (cases "k = n") auto
      have "lookup_found (Node p n r e0 e1) v ofs ml L"
      proof (cases "\<exists>k. matches c v (ofs + n) k")
        case True
        then obtain k where k1: "matches c v (ofs + n) k" "L = ofs + n + k"
          "\<And>j. matches c v (ofs + n) j \<Longrightarrow> ofs + n + j \<le> L"
          using IH by (auto simp: lookup_found_def)
        have "matches (Node p n r e0 e1) v ofs (n + k)" "L = ofs + (n + k)"
          using m' [of "n + k"] k1(1,2) k [OF k1(1)] by simp_all
        moreover have "ofs + j \<le> L" if "matches (Node p n r e0 e1) v ofs j" for j
          using that m' [of j] k1(2) k1(3) [of "j - n"] by auto
        ultimately show ?thesis unfolding lookup_found_def by blast
      next
        case False
        then have "L = ml'" using IH by (auto simp: lookup_found_def)
        then show ?thesis using False m' by (auto simp: lookup_found_def ml'_def)
      qed
      then show ?thesis using \<open>\<not> e < n\<close> lt by (simp add: step1 L_def ml'_def)
    qed
  qed
qed


lemma trie_lookup_at_checkbits:
  assumes "trie_wf t" "trie_depth_le t (n_bits - ofs)" "ofs \<le> n_bits" "t = Null \<Longrightarrow> ofs < n_bits \<or> prev = Null"
  shows "ofs \<le> snd (trie_lookup_at t prev v n_bits ofs ml)" (is ?lower)
    "snd (trie_lookup_at t prev v n_bits ofs ml) \<le> n_bits" (is ?upper)
    "t \<noteq> Null \<Longrightarrow> ofs < n_bits \<Longrightarrow> child_ok (vbit v ofs) t \<Longrightarrow>
      ofs < snd (trie_lookup_at t prev v n_bits ofs ml)" (is "PROP ?strict")
proof -
  have "?lower \<and> ?upper \<and>
      (t \<noteq> Null \<and> ofs < n_bits \<and> child_ok (vbit v ofs) t \<longrightarrow> ofs < snd (trie_lookup_at t prev v n_bits ofs ml))"
    using assms
  proof (induction t arbitrary: ofs ml prev)
    case Null
    then show ?case by auto
  next
    case (Node p n r e0 e1)
    define e where "e = prefix_equal_bits p n v ofs"
    define c where "c = (if vbit v (ofs + n) then e1 else e0)"
    have n: "n \<le> 32" using Node.prems by simp
    define ml' where "ml' = (if r \<noteq> 0 then ofs + n else ml)"
    define X where "X = trie_lookup_at c (Node p n r e0 e1) v n_bits (ofs + n) ml'"
    note step1 = trie_lookup_at_Node(1) [OF n, where p = p and v = v and ofs = ofs and ?e0.0 = e0 and ?e1.0 = e1
        and n_bits = n_bits and r = r and ml = ml, folded e_def c_def ml'_def, folded X_def]
    note d = trie_depth_node [OF Node.prems(1,2)]
    have c: "trie_wf c" "trie_depth_le c (n_bits - (ofs + n))" using d(2,3) Node.prems(1) by (auto simp: c_def)
    have "ofs + n \<le> n_bits" using d(1) Node.prems(3) by simp
    then show ?case
    proof (cases "ofs + n < n_bits")
      case True
      then have "ofs + n \<le> snd X \<and> snd X \<le> n_bits"
        using Node.IH c unfolding X_def c_def by auto
      then show ?thesis using True unfolding step1 by auto
    next
      case False
      then show ?thesis using \<open>ofs + n \<le> n_bits\<close> Node.prems(3) unfolding step1 by auto
    qed
  qed
  then show ?lower ?upper "PROP ?strict" by auto
qed

lemma trie_lookup_at_determined:
  assumes "trie_wf t" "trie_depth_le t (n_bits - ofs)" "ofs \<le> n_bits" "t = Null \<Longrightarrow> ofs < n_bits \<or> prev = Null"
    "\<forall>i < snd (trie_lookup_at t prev v n_bits ofs ml). vbit v' i = vbit v i"
  shows "trie_lookup_at t prev v' n_bits ofs ml = trie_lookup_at t prev v n_bits ofs ml"
  using assms
proof (induction t arbitrary: ofs ml prev)
  case (Node p n r e0 e1)
  define e where "e = prefix_equal_bits p n v ofs"
  define c where "c = (if vbit v (ofs + n) then e1 else e0)"
  define ml' where "ml' = (if r \<noteq> 0 then ofs + n else ml)"
  have n: "n \<le> 32" using Node.prems by simp
  note step' = trie_lookup_at_Node(1) [OF n, where ofs = ofs and p = p and ?e0.0 = e0 and ?e1.0 = e1
      and n_bits = n_bits and r = r and ml = ml and prev = prev, folded ml'_def]
  note step = step' [where v = v, folded e_def c_def]
  note step2 = step' [where v = v']
  note d = trie_depth_node [OF Node.prems(1,2)]
  have c: "trie_wf c" "trie_depth_le c (n_bits - (ofs + n))" "child_ok (vbit v (ofs + n)) c"
    using d(2,3) Node.prems(1) by (auto simp: c_def)
  have le: "ofs + n \<le> n_bits" using d(1) Node.prems(3) by simp
  define C where "C = snd (trie_lookup_at (Node p n r e0 e1) prev v n_bits ofs ml)"
  have agree: "vbit v' i = vbit v i" if "i < C" for i using Node.prems(5) that by (simp add: C_def)
  show ?case
  proof (cases "e < n")
    case True
    then have "C = ofs + e + 1" by (simp add: C_def step)
    then have "prefix_equal_bits p n v' ofs = e"
      using agree by (intro prefix_equal_bits_cong [OF n e_def]) simp
    then show ?thesis using True by (simp add: step step2)
  next
    case False
    have C: "ofs + n \<le> C"
    proof (cases "ofs + n < n_bits")
      case True
      then have "ofs + n \<le> snd (trie_lookup_at c (Node p n r e0 e1) v n_bits (ofs + n) ml')"
        using trie_lookup_at_checkbits(1) [OF c(1,2)] by simp
      then show ?thesis using True False by (simp add: C_def step)
    qed (use False le in \<open>simp add: C_def step\<close>)
    have "e = n" using False prefix_equal_bits_spec(1) [OF n, of p v ofs] by (simp add: e_def)
    then have e': "prefix_equal_bits p n v' ofs = e"
      using agree C by (intro prefix_equal_bits_cong [OF n e_def]) simp
    show ?thesis
    proof (cases "ofs + n < n_bits")
      case True
      have Cc: "C = snd (trie_lookup_at c (Node p n r e0 e1) v n_bits (ofs + n) ml')"
        using True False by (simp add: C_def step)
      have IH: "trie_lookup_at c (Node p n r e0 e1) v' n_bits (ofs + n) ml' =
          trie_lookup_at c (Node p n r e0 e1) v n_bits (ofs + n) ml'"
      proof -
        have ag: "\<forall>i < snd (trie_lookup_at c (Node p n r e0 e1) v n_bits (ofs + n) ml'). vbit v' i = vbit v i"
          using agree unfolding Cc by blast
        show ?thesis
        proof (cases "vbit v (ofs + n)")
          case True
          then have "c = e1" by (simp add: c_def)
          from Node.IH(2) [OF c(1,2) [unfolded this] le disjI1 [OF \<open>ofs + n < n_bits\<close>] ag [unfolded this]]
          show ?thesis unfolding \<open>c = e1\<close> .
        next
          case False
          then have "c = e0" by (simp add: c_def)
          from Node.IH(1) [OF c(1,2) [unfolded this] le disjI1 [OF \<open>ofs + n < n_bits\<close>] ag [unfolded this]]
          show ?thesis unfolding \<open>c = e0\<close> .
        qed
      qed
      have "trie_lookup_at (if vbit v' (ofs + n) then e1 else e0) (Node p n r e0 e1) v' n_bits (ofs + n) ml' =
          trie_lookup_at c (Node p n r e0 e1) v' n_bits (ofs + n) ml'"
      proof (cases "ofs + n < C")
        case True
        then show ?thesis using agree by (simp add: c_def)
      next
        case False
        then have "c = Null" using trie_lookup_at_checkbits(3) [OF c(1,2), of "Node p n r e0 e1" v ml'] True c(3) Cc by auto
        moreover have "e0 = Null \<and> e1 = Null" using False C Cc \<open>c = Null\<close> by (auto split: if_splits)
        ultimately show ?thesis by simp
      qed
      then show ?thesis using True False IH e' \<open>e = n\<close> by (simp add: step step2)
    qed (use False e' \<open>e = n\<close> in \<open>simp add: step step2\<close>)
  qed
qed simp

section \<open>Prefix masks\<close>

lemma bit_ntohl_top: "k < 32 \<Longrightarrow> bit (ntohl (ntohl x)) (31 - k) \<longleftrightarrow> bit x (31 - k)"
proof -
  have "\<forall>j\<in>set [0..<32]. 8 * (3 - j div 8) + j mod 8 < 32 \<and>
      8 * (3 - (8 * (3 - j div 8) + j mod 8) div 8) + (8 * (3 - j div 8) + j mod 8) mod 8 = (j :: nat)"
    by code_simp
  then show "k < 32 \<Longrightarrow> ?thesis" by (auto simp: bit_ntohl)
qed

lemma ntohl_bitwise: "ntohl (x OR y) = (ntohl x OR ntohl y)" "ntohl (- 1) = - 1"
  by (rule bit_word_eqI; simp add: bit_ntohl bit_or_iff)
    (rule bit_word_eqI; auto simp: bit_ntohl bit_minus_1_iff)

lemma vbit_prefix_mask:
  "0 < n \<Longrightarrow> n < 32 \<Longrightarrow> k < 32 \<Longrightarrow> bit (ntohl (ntohl (push_bit (32 - n) (- 1)))) (31 - k) \<longleftrightarrow> k < n"
  by (auto simp: bit_ntohl_top bit_not_iff bit_mask_iff)

lemma mask_words_set:
  "length (fold (\<lambda>i wc. wc[b + i := - 1]) [0..<m] wc) = length wc"
  "j < length wc \<Longrightarrow> fold (\<lambda>i wc. wc[b + i := (- 1 :: u32)]) [0..<m] wc ! j = (if b \<le> j \<and> j < b + m then - 1 else wc ! j)"
proof -
  show len: "length (fold (\<lambda>i wc. wc[b + i := - 1]) [0..<m] wc) = length wc" for m by (induction m) simp_all
  show "fold (\<lambda>i wc. wc[b + i := (- 1 :: u32)]) [0..<m] wc ! j = (if b \<le> j \<and> j < b + m then - 1 else wc ! j)"
    if "j < length wc"
    using that
  proof (induction m)
    case (Suc m)
    then show ?case by (cases "j = b + m") (auto simp: len)
  qed auto
qed

lemma fold_or_zero: "fold (\<lambda>i z. z OR f i) xs (z :: u32) = 0 \<longleftrightarrow> z = 0 \<and> (\<forall>i\<in>set xs. f i = 0)"
  by (induction xs arbitrary: z) (auto simp: or_eq_0_iff)

lemma mask_set_prefix_bits_nth:
  assumes "j < length wc"
  shows "mask_set_prefix_bits wc b n ! j =
    (if b \<le> j \<and> j < b + n div 32 then - 1
     else if j = b + n div 32 \<and> n mod 32 \<noteq> 0 then wc ! j OR ntohl (push_bit (32 - n mod 32) (- 1))
     else wc ! j)"
  using assms by (auto simp: mask_set_prefix_bits_def Let_def mask_words_set nth_list_update)

lemma length_mask_set_prefix_bits: "length (mask_set_prefix_bits wc b n) = length wc"
  by (simp add: mask_set_prefix_bits_def Let_def mask_words_set)

text \<open>Bit \<open>k\<close> of the field that starts at word \<open>b\<close> of the mask.\<close>

definition mask_bit :: "u32 list \<Rightarrow> nat \<Rightarrow> nat \<Rightarrow> bool" where
  "mask_bit wc b k = vbit (drop b wc) k"

lemma mask_set_prefix_bits_bit:
  assumes "b + k div 32 < length wc"
  shows "mask_bit (mask_set_prefix_bits wc b n) b k \<longleftrightarrow> mask_bit wc b k \<or> k < n"
proof -
  let ?q = "k div 32" and ?m = "n div 32"
  have r: "31 - k mod 32 = 31 - k mod 32" "k mod 32 < 32" by simp_all
  have nth: "mask_set_prefix_bits wc b n ! (b + ?q) =
      (if ?q < ?m then - 1 else if ?q = ?m \<and> n mod 32 \<noteq> 0 then wc ! (b + ?q) OR ntohl (push_bit (32 - n mod 32) (- 1))
       else wc ! (b + ?q))"
    using mask_set_prefix_bits_nth [OF assms, of b n] by auto
  have v: "mask_bit wc' b k \<longleftrightarrow> bit (ntohl (wc' ! (b + ?q))) (31 - k mod 32)" if "length wc' = length wc" for wc'
    using that assms by (simp add: mask_bit_def vbit_def)
  consider "?q < ?m" | "?q = ?m" | "?q > ?m" by linarith
  then show ?thesis
  proof cases
    case 1
    then have "k < n" using div_less_iff_less_mult [of 32 k ?m] div_times_less_eq_dividend [of n 32] by simp
    moreover have "mask_set_prefix_bits wc b n ! (b + ?q) = - 1" using 1 nth by simp
    ultimately show ?thesis by (simp add: v length_mask_set_prefix_bits ntohl_bitwise)
  next
    case 2
    then have kn: "k < n \<longleftrightarrow> k mod 32 < n mod 32"
      using mult_div_mod_eq [of 32 k] mult_div_mod_eq [of 32 n] by linarith
    show ?thesis
    proof (cases "n mod 32 = 0")
      case True
      then show ?thesis using 2 nth kn by (simp add: v length_mask_set_prefix_bits)
    next
      case False
      then have "bit (ntohl (ntohl (push_bit (32 - n mod 32) (- 1)))) (31 - k mod 32) \<longleftrightarrow> k mod 32 < n mod 32"
        by (intro vbit_prefix_mask) simp_all
      then show ?thesis using 2 nth kn False
        by (simp add: v length_mask_set_prefix_bits ntohl_bitwise bit_or_iff del: push_bit_minus_one)
    qed
  next
    case 3
    then have "n \<le> k" by (metis div_le_mono not_le nat_le_linear leD)
    then show ?thesis using 3 nth by (simp add: v length_mask_set_prefix_bits)
  qed
qed

lemma word_zero_ntohl: "x = 0 \<longleftrightarrow> (\<forall>r<32. \<not> bit (ntohl x) (31 - r))"
proof
  assume a: "\<forall>r<32. \<not> bit (ntohl x) (31 - r)"
  have "\<not> bit (ntohl x) j" for j
    using a [rule_format, of "31 - j"] by (cases "j < 32") (auto dest: bit_imp_le_length)
  then have "ntohl x = 0" by (intro bit_word_eqI) simp
  then have z: "\<not> bit x (31 - r)" if "r < 32" for r using bit_ntohl_top [OF that, of x] by (simp add: ntohl_def)
  have "\<not> bit x j" if "j < 32" for j using z [of "31 - j"] that by simp
  then show "x = 0" by (simp add: word_zero_iff_bits)
qed (simp add: ntohl_def)

lemma bit_ntohl_not: "r < 32 \<Longrightarrow> bit (ntohl (NOT w)) (31 - r) \<longleftrightarrow> \<not> bit (ntohl w) (31 - r)"
proof -
  have "\<forall>j\<in>set [0..<32]. 8 * (3 - j div 8) + j mod 8 < (32 :: nat)" by code_simp
  then show "r < 32 \<Longrightarrow> ?thesis" by (auto simp: bit_ntohl bit_not_iff)
qed

lemma bit_ntohl_and: "bit (ntohl (x AND y)) k \<longleftrightarrow> bit (ntohl x) k \<and> bit (ntohl y) k"
  by (auto simp: bit_ntohl bit_and_iff)

lemma mask_prefix_bits_set_iff:
  assumes "n \<le> 32 * (length wc - b)" "b \<le> length wc"
  shows "mask_prefix_bits_set wc b n \<longleftrightarrow> (\<forall>k<n. mask_bit wc b k)"
proof -
  define m where "m = n div 32"
  define r where "r = n mod 32"
  have n: "n = 32 * m + r" "r < 32" by (simp_all add: m_def r_def)
  have mb: "mask_bit wc b (32 * q + j) \<longleftrightarrow> bit (ntohl (wc ! (b + q))) (31 - j)" if "j < 32" "32 * q + j < n" for q j
  proof -
    have "32 * q < 32 * (length wc - b)" using that assms(1) by linarith
    then show ?thesis using that by (simp add: mask_bit_def vbit_def)
  qed
  have full: "NOT (wc ! (b + q)) = 0 \<longleftrightarrow> (\<forall>j<32. bit (ntohl (wc ! (b + q))) (31 - j))" for q
    by (subst word_zero_ntohl) (simp add: bit_ntohl_not)
  have part: "(NOT (wc ! (b + m)) AND ntohl (push_bit (32 - r) (- 1))) = 0 \<longleftrightarrow>
      (\<forall>j<r. bit (ntohl (wc ! (b + m))) (31 - j))" if "r \<noteq> 0"
    using n(2) that vbit_prefix_mask [of r]
    by (subst word_zero_ntohl) (auto simp: bit_ntohl_and bit_ntohl_not intro: less_trans simp del: push_bit_minus_one)
  have "mask_prefix_bits_set wc b n \<longleftrightarrow> (\<forall>q<m. NOT (wc ! (b + q)) = 0) \<and>
      (r \<noteq> 0 \<longrightarrow> (NOT (wc ! (b + m)) AND ntohl (push_bit (32 - r) (- 1))) = 0)"
    by (auto simp: mask_prefix_bits_set_def Let_def fold_or_zero or_eq_0_iff m_def r_def simp del: push_bit_minus_one)
  also have "\<dots> \<longleftrightarrow> (\<forall>q<m. \<forall>j<32. mask_bit wc b (32 * q + j)) \<and> (\<forall>j<r. mask_bit wc b (32 * m + j))"
  proof -
    have "(\<forall>j<32. mask_bit wc b (32 * q + j)) \<longleftrightarrow> NOT (wc ! (b + q)) = 0" if "q < m" for q
      using that n by (auto simp: full mb)
    moreover have "(r \<noteq> 0 \<longrightarrow> (NOT (wc ! (b + m)) AND ntohl (push_bit (32 - r) (- 1))) = 0) \<longleftrightarrow>
        (\<forall>j<r. mask_bit wc b (32 * m + j))"
      using n part by (auto simp: mb)
    ultimately show ?thesis by simp
  qed
  also have "\<dots> \<longleftrightarrow> (\<forall>k<n. mask_bit wc b k)"
  proof safe
    fix k assume a: "\<forall>q<m. \<forall>j<32. mask_bit wc b (32 * q + j)" "\<forall>j<r. mask_bit wc b (32 * m + j)" "k < n"
    show "mask_bit wc b k"
    proof (cases "k div 32 < m")
      case True
      then have "mask_bit wc b (32 * (k div 32) + k mod 32)" using a(1) [rule_format, of "k div 32" "k mod 32"] by linarith
      then show ?thesis by (simp only: mult_div_mod_eq)
    next
      case False
      then have "32 * m \<le> k" by (metis div_times_less_eq_dividend le_trans mult.commute mult_le_mono2 not_le)
      then show ?thesis using a(2) [rule_format, of "k - 32 * m"] a(3) n by simp
    qed
  qed (use n in auto)
  finally show ?thesis .
qed

section \<open>The tree as a multiset of prefixes\<close>

text \<open>
  What the classifier relies on when it adds and deletes rules: a multiset of keys with an
  insertion that counts up to a bound, a removal that counts down or reports that the key is absent, for keys
  that are not too long, and a representation that is empty exactly when the multiset is.
\<close>

locale key_counter =
  fixes empty :: 't and ins :: "'t \<Rightarrow> 'p \<Rightarrow> 't" and del :: "'t \<Rightarrow> 'p \<Rightarrow> 't option"
    and key :: "'p \<Rightarrow> 'k" and cnt :: "'t \<Rightarrow> 'k \<Rightarrow> nat" and inv :: "'t \<Rightarrow> bool"
    and bound :: nat and short :: "'p \<Rightarrow> bool"
  assumes empty_inv: "inv empty"
    and empty_cnt: "cnt empty k = 0"
    and ins_inv: "inv t \<Longrightarrow> cnt t (key p) < bound \<Longrightarrow> inv (ins t p)"
    and ins_cnt: "inv t \<Longrightarrow> cnt t (key p) < bound \<Longrightarrow> cnt (ins t p) k = cnt t k + (if k = key p then 1 else 0)"
    and del_None: "inv t \<Longrightarrow> short p \<Longrightarrow> cnt t (key p) = 0 \<Longrightarrow> del t p = None"
    and del_Some: "inv t \<Longrightarrow> short p \<Longrightarrow> cnt t (key p) > 0 \<Longrightarrow> \<exists>t'. del t p = Some t' \<and> inv t' \<and>
          (\<forall>k. cnt t k = cnt t' k + (if k = key p then 1 else 0))"
    and empty_iff: "inv t \<Longrightarrow> (\<forall>k. cnt t k = 0) \<Longrightarrow> t = empty"
begin

lemma fold_ins:
  assumes "inv t" "\<forall>k. cnt t k + length ps \<le> bound"
  shows "inv (foldl ins t ps) \<and> (\<forall>k. cnt (foldl ins t ps) k = cnt t k + count (mset (map key ps)) k)"
  using assms
proof (induction ps arbitrary: t)
  case (Cons p ps)
  have room: "cnt t (key p) < bound" using Cons.prems(2) [rule_format, of "key p"] by simp
  have "cnt (ins t p) k + length ps \<le> bound" for k
    using Cons.prems(2) [rule_format, of k] by (auto simp: ins_cnt [OF Cons.prems(1) room])
  then show ?case using Cons.IH [of "ins t p"] ins_inv [OF Cons.prems(1) room] ins_cnt [OF Cons.prems(1) room] by simp
qed simp

lemma fold_del:
  assumes "inv t" "\<forall>k. cnt t k = count (M + mset (map key ps)) k" "\<forall>p \<in> set ps. short p"
  shows "\<exists>t'. foldl (\<lambda>t p. Option.bind t (\<lambda>t. del t p)) (Some t) ps = Some t' \<and> inv t' \<and> (\<forall>k. cnt t' k = count M k)"
  using assms
proof (induction ps arbitrary: t)
  case (Cons p ps)
  have "cnt t (key p) > 0" using Cons.prems(2) by simp
  then obtain t' where t': "del t p = Some t'" "inv t'" "\<And>k. cnt t k = cnt t' k + (if k = key p then 1 else 0)"
    using del_Some [OF Cons.prems(1), of p] Cons.prems(3) by (meson list.set_intros(1))
  have "cnt t' k = count (M + mset (map key ps)) k" for k
    using t'(3) [of k] Cons.prems(2) by (auto split: if_splits)
  then show ?case using Cons.IH [OF t'(2)] Cons.prems(3) t'(1) by simp
qed auto

lemma ins_del_all:
  assumes "mset (map key ps) = mset (map key qs)" "length ps \<le> bound" "\<forall>q \<in> set qs. short q"
  shows "foldl (\<lambda>t p. Option.bind t (\<lambda>t. del t p)) (Some (foldl ins empty ps)) qs = Some empty"
proof -
  have "inv (foldl ins empty ps)" "\<forall>k. cnt (foldl ins empty ps) k = count ({#} + mset (map key qs)) k"
    using fold_ins [OF empty_inv, of ps] assms(1,2) by (auto simp: empty_cnt)
  from fold_del [OF this assms(3)] show ?thesis using empty_iff by auto
qed

end

text \<open>A prefix to insert: the address of its first word and its length.\<close>

definition prefix_key :: "u32 list \<times> nat \<Rightarrow> bool list" where
  "prefix_key pm = vbits (fst pm) 0 (snd pm)"

text \<open>The tree after a removal that found its rule.\<close>

definition trie_removed :: "trie_node trie_removal \<Rightarrow> trie_node option" where
  "trie_removed res = (case res of Removed t \<Rightarrow> Some t | _ \<Rightarrow> None)"

lemma trie_insert_prefix_correct:
  assumes "trie_wf t" "trie_count t (vbits prefix 0 mlen) < 2 ^ 32 - 1"
  shows "trie_wf (trie_insert_prefix t prefix mlen) \<and>
    trie_count (trie_insert_prefix t prefix mlen) bs = trie_count t bs + (if bs = vbits prefix 0 mlen then 1 else 0)"
  using trie_insert_at_correct [OF assms(1), of 0 mlen prefix] assms(2)
  by (simp add: insert_ok_def trie_insert_prefix_def Let_def single_def)

lemma trie_remove_prefix_correct:
  assumes "trie_wf t"
  shows "case trie_remove_prefix t prefix mlen of
      Edges_Overrun \<Rightarrow> TRIE_MAX_EDGES \<le> trie_edges t (vbits prefix 0 mlen)
    | Not_Found \<Rightarrow> trie_edges t (vbits prefix 0 mlen) < TRIE_MAX_EDGES \<and> trie_count t (vbits prefix 0 mlen) = 0
    | Removed t' \<Rightarrow> trie_edges t (vbits prefix 0 mlen) < TRIE_MAX_EDGES \<and> trie_wf t' \<and>
        (\<forall>bs. trie_count t bs = trie_count t' bs + (if bs = vbits prefix 0 mlen then 1 else 0))"
  using trie_remove_at_correct [OF assms, of 0 mlen 0 prefix]
  by (simp add: remove_ok_def trie_remove_prefix_def single_def fun_eq_iff TRIE_MAX_EDGES_def Let_def split: trie_removal.splits)

lemma short_prefix_fits: "trie_wf t \<Longrightarrow> mlen < TRIE_MAX_EDGES \<Longrightarrow> trie_edges t (vbits prefix 0 mlen) < TRIE_MAX_EDGES"
  using trie_edges_le [of t "vbits prefix 0 mlen"] by simp

interpretation trie_keys: key_counter Null
  "\<lambda>t pm. trie_insert_prefix t (fst pm) (snd pm)" "\<lambda>t pm. trie_removed (trie_remove_prefix t (fst pm) (snd pm))"
  prefix_key trie_count trie_wf "2 ^ 32 - 1" "\<lambda>pm. snd pm < TRIE_MAX_EDGES"
proof
  fix t :: trie_node and p :: "u32 list \<times> nat" and k :: "bool list"
  assume wf: "trie_wf t"
  note r = trie_remove_prefix_correct [OF wf, of "fst p" "snd p", folded prefix_key_def]
  show "t = Null" if "\<forall>k. trie_count t k = 0"
    using trie_count_path [OF wf] that by fastforce
  assume "snd p < TRIE_MAX_EDGES"
  then have fits: "trie_edges t (prefix_key p) < TRIE_MAX_EDGES" unfolding prefix_key_def by (rule short_prefix_fits [OF wf])
  show "trie_removed (trie_remove_prefix t (fst p) (snd p)) = None" if "trie_count t (prefix_key p) = 0"
  proof (cases "trie_remove_prefix t (fst p) (snd p)")
    case (Removed t')
    then have "trie_count t (prefix_key p) = trie_count t' (prefix_key p) + 1" using r by simp
    then show ?thesis using that by simp
  qed (simp_all add: trie_removed_def)
  show "\<exists>t'. trie_removed (trie_remove_prefix t (fst p) (snd p)) = Some t' \<and> trie_wf t' \<and>
      (\<forall>k. trie_count t k = trie_count t' k + (if k = prefix_key p then 1 else 0))" if "trie_count t (prefix_key p) > 0"
    using r that fits by (auto simp: trie_removed_def split: trie_removal.splits)
qed (use trie_insert_prefix_correct in \<open>auto simp: prefix_key_def\<close>)

section \<open>Properties\<close>


definition sample_trie :: trie_node where
  "sample_trie = foldl (\<lambda>t (prefix, mlen). trie_insert_prefix t prefix mlen) Null
     [([0x0000000a], 8), ([0x0000010a], 24), ([0x0001a8c0], 24), ([0x0000010a], 24)]"

lemma sample_trie_wf: "trie_wf sample_trie"
  unfolding sample_trie_def by code_simp

text \<open>
  A tree whose removal overruns: the prefixes of an IPv6 address of every length from 1 to 128, and one prefix that
  starts with the other bit.  It has a root without bits, and below it 128 nodes of one bit.
\<close>

primrec bit_chain :: "nat \<Rightarrow> trie_node" where
  "bit_chain 0 = Null"
| "bit_chain (Suc k) = Node 0 1 1 (bit_chain k) Null"

definition deep_trie :: trie_node where
  "deep_trie = foldl (\<lambda>t m. trie_insert_prefix t [0, 0, 0, 0] m)
     (trie_insert_prefix (trie_insert_prefix Null [0, 0, 0, 0] 1) [0x80, 0, 0, 0] 1) [2..<129]"

lemma vbit_zeros: "k < 128 \<Longrightarrow> \<not> vbit [0, 0, 0, 0] k"
proof -
  assume "k < 128"
  then consider "k div 32 = 0" | "k div 32 = 1" | "k div 32 = 2" | "k div 32 = 3" by linarith
  then have "[0, 0, 0, 0] ! (k div 32) = (0 :: u32)" by cases simp_all
  then show ?thesis by (simp add: vbit_def ntohl_def)
qed

lemma zeros_equal_bits:
  assumes "ofs < mlen" "mlen \<le> 128"
  shows "trie_prefix_equal_bits 0 1 [0, 0, 0, 0] ofs mlen = 1"
proof -
  have "min 1 (mlen - ofs) = 1" using assms(1) by simp
  then show ?thesis
    using prefix_equal_bits_spec [where nbits = 1 and p = 0 and v = "[0, 0, 0, 0]" and ofs = ofs] vbit_zeros [of ofs] assms
    unfolding trie_prefix_equal_bits_def by (cases "prefix_equal_bits 0 1 [0, 0, 0, 0] ofs = 0") auto
qed

lemma insert_bit_chain: "ofs + k < 128 \<Longrightarrow> trie_insert_at (bit_chain k) [0, 0, 0, 0] ofs (ofs + k + 1) = bit_chain (k + 1)"
proof (induction k arbitrary: ofs)
  case 0
  have "trie_get_prefix [0, 0, 0, 0] ofs 1 = 0"
  proof (rule bit_word_eqI)
    fix i :: nat
    assume "i < LENGTH(32)"
    then have i: "i = 31 - (31 - i)" "31 - i < 32" by simp_all
    show "bit (trie_get_prefix [0, 0, 0, 0] ofs 1) i \<longleftrightarrow> bit (0 :: u32) i"
      using bit_trie_get_prefix [of "31 - i" "[0, 0, 0, 0]" ofs 1] vbit_zeros [of ofs] 0 i(1) by auto
  qed
  then show ?case by (simp add: trie_branch_create.simps TRIE_PREFIX_BITS_def)
next
  case (Suc k)
  have "trie_prefix_equal_bits 0 1 [0, 0, 0, 0] ofs (ofs + Suc k + 1) = 1" using Suc.prems by (intro zeros_equal_bits) simp_all
  then show ?case using Suc.IH [of "Suc ofs"] Suc.prems vbit_zeros [of "Suc ofs"] by (simp add: Let_def be_get_bit_at_vbit)
qed

lemma deep_trie_eq: "deep_trie = Node 0 0 0 (bit_chain 128) (Node 0x80000000 1 1 Null Null)"
proof -
  have start: "trie_insert_prefix (trie_insert_prefix Null [0, 0, 0, 0] 1) [0x80, 0, 0, 0] 1 =
      Node 0 0 0 (bit_chain 1) (Node 0x80000000 1 1 Null Null)" by code_simp
  have step: "trie_insert_prefix (Node 0 0 0 (bit_chain k) e) [0, 0, 0, 0] (k + 1) = Node 0 0 0 (bit_chain (k + 1)) e"
    if "k < 128" for k e
  proof -
    have "trie_prefix_equal_bits 0 0 [0, 0, 0, 0] 0 (k + 1) = 0"
      using prefix_equal_bits_spec(1) [where nbits = 0 and p = 0 and v = "[0, 0, 0, 0]" and ofs = 0] by (simp add: trie_prefix_equal_bits_def)
    then show ?thesis using insert_bit_chain [of 0 k] that vbit_zeros [of 0]
      by (simp add: trie_insert_prefix_def Let_def be_get_bit_at_vbit)
  qed
  have "foldl (\<lambda>t m. trie_insert_prefix t [0, 0, 0, 0] m) (Node 0 0 0 (bit_chain 1) e) [2..<2 + k] = Node 0 0 0 (bit_chain (1 + k)) e"
    if "k \<le> 127" for k e
    using that
  proof (induction k)
    case (Suc k)
    have "[2..<2 + Suc k] = [2..<2 + k] @ [1 + k + 1]" by simp
    then show ?case using Suc step [of "1 + k" e] by (simp only: foldl_append) simp
  qed simp
  from this [of 127] show ?thesis unfolding deep_trie_def start by simp
qed

lemma deep_trie_wf: "trie_wf deep_trie"
proof -
  have "trie_wf (bit_chain k) \<and> child_ok False (bit_chain k)" for k
    by (induction k) (simp_all add: clean_def)
  moreover have "clean 0x80000000 1" by code_simp
  ultimately show ?thesis unfolding deep_trie_eq by (simp add: clean_def)
qed

lemma deep_trie_edges: "trie_edges deep_trie (vbits [0, 0, 0, 0] 0 128) = 128"
proof -
  have chain: "trie_edges (bit_chain (Suc k)) (replicate (Suc k) False) = k" for k
  proof (induction k)
    case (Suc k)
    have "strip (pbits 0 1) (replicate (Suc (Suc k)) False) = Some (replicate (Suc k) False)" by (simp add: pbits_def strip_def)
    then show ?case using Suc by simp
  qed (simp add: pbits_def strip_def)
  have "vbits [0, 0, 0, 0] 0 128 = replicate 128 False"
    unfolding vbits_def by (rule nth_equalityI) (simp_all add: vbit_zeros)
  moreover have "trie_edges (Node 0 0 0 (bit_chain (Suc k)) e) (replicate (Suc k) False) = Suc k" for k e
    using chain [of k] by simp
  from this [of 127] have "trie_edges deep_trie (replicate 128 False) = 128" unfolding deep_trie_eq by simp
  ultimately show ?thesis by simp
qed


text \<open>
  C16.  Longest-prefix match.  When no prefix in the tree is longer than the field, the length that
  \<open>trie_lookup_value\<close> returns is that of the longest prefix in the tree that the value matches, or
  0 when it matches none.
\<close>

theorem trie_lookup_longest_match:
  assumes "trie_wf t" "trie_depth_le t n_bits" "(match_len, checkbits) = trie_lookup_value t value n_bits"
  shows "(\<forall>k. trie_count t (vbits value 0 k) > 0 \<longrightarrow> k \<le> match_len) \<and>
    (match_len > 0 \<longrightarrow> trie_count t (vbits value 0 match_len) > 0)"
proof -
  have "fst (trie_lookup_at t Null value n_bits 0 0) = match_len"
    using assms(3) unfolding trie_lookup_value_def by (metis fst_conv)
  then have "lookup_found t value 0 0 match_len"
    using trie_lookup_at_longest [of t n_bits 0 "value" 0 Null] assms(1,2) by simp
  then show ?thesis by (auto simp: lookup_found_def matches_def)
qed

text \<open>The longest prefix of a tree, which bounds its depth.\<close>

primrec trie_height :: "trie_node \<Rightarrow> nat" where
  "trie_height Null = 0"
| "trie_height (Node p n r e0 e1) = n + max (trie_height e0) (trie_height e1)"

lemma trie_count_height: "trie_count t bs > 0 \<Longrightarrow> length bs \<le> trie_height t"
proof (induction t arbitrary: bs)
  case (Node p n r e0 e1)
  then obtain cs where cs: "bs = pbits p n @ cs" by (auto simp: trie_count.simps strip_Some split: option.splits)
  then have "cs = [] \<or> trie_count e0 cs > 0 \<or> trie_count e1 cs > 0"
    using Node.prems by (auto simp: trie_count.simps split: list.splits if_splits)
  then have "length cs \<le> max (trie_height e0) (trie_height e1)" using Node.IH by (auto simp: le_max_iff_disj)
  then show ?case using cs by simp
qed simp

lemma trie_depth_le_height: "trie_height t \<le> n \<Longrightarrow> trie_depth_le t n"
  using trie_count_height unfolding trie_depth_le_def by (meson le_trans)

lemma sample_trie_depth: "trie_depth_le sample_trie 32"
  by (rule trie_depth_le_height) (unfold sample_trie_def, code_simp)

theorem trie_lookup_longest_match_witness:
  "trie_lookup_value sample_trie [0x0700010a] 32 = (24, 24) \<and> trie_count sample_trie (vbits [0x0700010a] 0 24) > 0 \<and>
   trie_lookup_value sample_trie [0x0700020a] 32 = (8, 15) \<and> trie_count sample_trie (vbits [0x0700020a] 0 8) > 0"
proof -
  have e: "trie_lookup_value sample_trie [0x0700010a] 32 = (24, 24)" "trie_lookup_value sample_trie [0x0700020a] 32 = (8, 15)"
    unfolding sample_trie_def by code_simp+
  show ?thesis
    using trie_lookup_longest_match [OF sample_trie_wf sample_trie_depth e(1) [symmetric]]
      trie_lookup_longest_match [OF sample_trie_wf sample_trie_depth e(2) [symmetric]] e by simp
qed

text \<open>
  C17.  The bits reported in \<open>*checkbits\<close> are enough.  Every value that agrees with the looked-up
  one on the first \<open>*checkbits\<close> bits gets the same result, so a flow whose mask covers those bits
  stays valid for every packet it matches.  \<open>*checkbits\<close> never exceeds the width of the field.
\<close>

theorem trie_checkbits_sufficient:
  assumes "trie_wf t" "trie_depth_le t n_bits" "0 < n_bits"
  shows "snd (trie_lookup_value t value n_bits) \<le> n_bits \<and>
    (\<forall>value'. (\<forall>i < snd (trie_lookup_value t value n_bits). vbit value' i = vbit value i) \<longrightarrow>
       trie_lookup_value t value' n_bits = trie_lookup_value t value n_bits)"
proof -
  have p: "trie_wf t" "trie_depth_le t (n_bits - 0)" "0 \<le> n_bits" "0 < n_bits \<or> Null = Null" using assms by simp_all
  show ?thesis
    unfolding trie_lookup_value_def
    using trie_lookup_at_checkbits(2) [OF p] trie_lookup_at_determined [OF p] by blast
qed

theorem trie_checkbits_sufficient_witness:
  "vbits [0x0900030a] 0 15 = vbits [0x0700020a] 0 15 \<and>
   trie_lookup_value sample_trie [0x0900030a] 32 = trie_lookup_value sample_trie [0x0700020a] 32"
proof -
  have e: "trie_lookup_value sample_trie [0x0700020a] 32 = (8, 15)" unfolding sample_trie_def by code_simp
  have a: "vbits [0x0900030a] 0 15 = vbits [0x0700020a] 0 15" by code_simp
  have "\<forall>i\<in>set [0..<15]. vbit [0x0900030a] i = vbit [0x0700020a] i" by code_simp
  then have "\<forall>i < snd (trie_lookup_value sample_trie [0x0700020a] 32). vbit [0x0900030a] i = vbit [0x0700020a] i"
    unfolding e by simp
  moreover have "0 < (32 :: nat)" by simp
  ultimately show ?thesis
    using trie_checkbits_sufficient [OF sample_trie_wf sample_trie_depth, of "[0x0700020a]"] a by blast
qed



text \<open>
  \<open>mask_set_prefix_bits\<close> sets exactly the first \<open>nbits\<close> bits of the field and leaves every
  other bit of it and every other word alone; \<open>mask_prefix_bits_set\<close> holds exactly when those bits
  are set, so it holds after \<open>mask_set_prefix_bits\<close>.
\<close>

theorem mask_prefix_bits_correct:
  assumes "nbits \<le> 32 * (length wc - be32ofs)" "be32ofs \<le> length wc"
  shows "(\<forall>k<32 * (length wc - be32ofs). mask_bit (mask_set_prefix_bits wc be32ofs nbits) be32ofs k \<longleftrightarrow>
      mask_bit wc be32ofs k \<or> k < nbits) \<and>
    (\<forall>j<be32ofs. mask_set_prefix_bits wc be32ofs nbits ! j = wc ! j) \<and>
    (mask_prefix_bits_set wc be32ofs nbits \<longleftrightarrow> (\<forall>k<nbits. mask_bit wc be32ofs k)) \<and>
    mask_prefix_bits_set (mask_set_prefix_bits wc be32ofs nbits) be32ofs nbits"
proof -
  have q: "be32ofs + k div 32 < length wc" if "k < 32 * (length wc - be32ofs)" for k
  proof -
    have "k div 32 < length wc - be32ofs" using that by (simp add: div_less_iff_less_mult mult.commute)
    then show ?thesis by simp
  qed
  have 1: "mask_bit (mask_set_prefix_bits wc be32ofs nbits) be32ofs k \<longleftrightarrow> mask_bit wc be32ofs k \<or> k < nbits"
    if "k < 32 * (length wc - be32ofs)" for k
    using mask_set_prefix_bits_bit [OF q [OF that]] .
  have 2: "mask_set_prefix_bits wc be32ofs nbits ! j = wc ! j" if "j < be32ofs" for j
    using that assms(2) by (subst mask_set_prefix_bits_nth) auto
  have "mask_bit (mask_set_prefix_bits wc be32ofs nbits) be32ofs k" if "k < nbits" for k
    using 1 [of k] that assms(1) by simp
  then have "mask_prefix_bits_set (mask_set_prefix_bits wc be32ofs nbits) be32ofs nbits"
    using mask_prefix_bits_set_iff [of nbits "mask_set_prefix_bits wc be32ofs nbits" be32ofs] assms
    by (simp add: length_mask_set_prefix_bits)
  then show ?thesis using 1 2 mask_prefix_bits_set_iff [OF assms] by blast
qed

theorem mask_prefix_bits_correct_witness:
  "mask_prefix_bits_set (mask_set_prefix_bits [0, 0, 0] 1 44) 1 44 \<and>
   mask_set_prefix_bits [0, 0, 0] 1 44 = [0, 0xffffffff, 0x0000f0ff]"
proof -
  have p: "44 \<le> 32 * (length [0 :: u32, 0, 0] - 1)" "1 \<le> length [0 :: u32, 0, 0]" by simp_all
  have e: "mask_set_prefix_bits [0, 0, 0] 1 44 = [0, 0xffffffff, 0x0000f0ff]" by code_simp
  show ?thesis using mask_prefix_bits_correct [OF p] e by blast
qed

end
