(* ===== verification/Stp.thy ===== *)
theory Stp
  imports Prelude
begin

text \<open>
  The spanning tree protocol entity of \<open>lib/stp.c\<close> and \<open>lib/stp.h\<close> (IEEE 802.1D-1998): the bridge
  and its ports, the BPDUs on the wire, every handler and every call a client can make.

  The array \<open>ports\<close> is a list and a \<open>struct stp_port *\<close> is an index into it; \<open>first_changed_port\<close>
  may also be its length, the C pointer one past the end.  The callback \<open>send_bpdu\<close> is the list
  \<open>st_out\<close> of the packets handed to it, latest last; that it calls back into the same entity (over
  a patch port between two ports of one bridge) is not covered.  \<open>st_seq\<close> counts the calls of
  \<open>seq_change (connectivity_seq_get ())\<close>.  The mutex and the log messages are left out.

  Costs are 32-bit words, because the code mixes \<open>int\<close> and \<open>unsigned int\<close> in comparing them: a
  signed comparison is one of \<open>sint\<close>.  Port identifiers, \<open>int\<close>s that only ever hold 16-bit values,
  are 16-bit words.  Timer values, times in ticks and the packet counters are \<open>int\<close>s; where the
  conversion between milliseconds and ticks can leave the 32 bits of an \<open>int\<close>, the wrap-around is
  written out.
\<close>

section \<open>Constants and data\<close>

definition STP_PROTOCOL_ID :: u16 where "STP_PROTOCOL_ID = 0x0000"
definition STP_PROTOCOL_VERSION :: u8 where "STP_PROTOCOL_VERSION = 0x00"
definition STP_TYPE_CONFIG :: u8 where "STP_TYPE_CONFIG = 0x00"
definition STP_TYPE_TCN :: u8 where "STP_TYPE_TCN = 0x80"
definition STP_CONFIG_TOPOLOGY_CHANGE_ACK :: u8 where "STP_CONFIG_TOPOLOGY_CHANGE_ACK = 0x80"
definition STP_CONFIG_TOPOLOGY_CHANGE :: u8 where "STP_CONFIG_TOPOLOGY_CHANGE = 0x01"
definition STP_LLC_SSAP :: u8 where "STP_LLC_SSAP = 0x42"
definition STP_LLC_DSAP :: u8 where "STP_LLC_DSAP = 0x42"
definition STP_LLC_CNTL :: u8 where "STP_LLC_CNTL = 0x03"
definition STP_DEFAULT_BRIDGE_PRIORITY :: u64 where "STP_DEFAULT_BRIDGE_PRIORITY = 32768"
definition STP_DEFAULT_PORT_PRIORITY :: u16 where "STP_DEFAULT_PORT_PRIORITY = 128"
definition STP_DEFAULT_MAX_AGE :: int where "STP_DEFAULT_MAX_AGE = 20000"
definition STP_DEFAULT_HELLO_TIME :: int where "STP_DEFAULT_HELLO_TIME = 2000"
definition STP_DEFAULT_FWD_DELAY :: int where "STP_DEFAULT_FWD_DELAY = 15000"
definition STP_MAX_PORTS :: nat where "STP_MAX_PORTS = 255"
definition MESSAGE_AGE_INCREMENT :: int where "MESSAGE_AGE_INCREMENT = 1"

definition eth_addr_stp :: "u8 list" where
  "eth_addr_stp = [0x01, 0x80, 0xC2, 0x00, 0x00, 0x00]"

datatype stp_state = STP_DISABLED | STP_LISTENING | STP_LEARNING | STP_FORWARDING | STP_BLOCKING

datatype stp_role = STP_ROLE_ROOT | STP_ROLE_DESIGNATED | STP_ROLE_ALTERNATE | STP_ROLE_DISABLED

record stp_config_bpdu =
  cb_protocol_id :: u16
  cb_protocol_version :: u8
  cb_bpdu_type :: u8
  cb_flags :: u8
  cb_root_id :: u64
  cb_root_path_cost :: u32
  cb_bridge_id :: u64
  cb_port_id :: u16
  cb_message_age :: u16
  cb_max_age :: u16
  cb_hello_time :: u16
  cb_forward_delay :: u16

record stp_timer =
  tm_active :: bool
  tm_value :: int

record stp_port =
  sp_aux :: "addr option"
  sp_port_id :: u16
  sp_state :: stp_state
  sp_path_cost :: u32
  sp_designated_root :: u64
  sp_designated_cost :: u32
  sp_designated_bridge :: u64
  sp_designated_port :: u16
  sp_topology_change_ack :: bool
  sp_config_pending :: bool
  sp_change_detection_enabled :: bool
  sp_message_age_timer :: stp_timer
  sp_forward_delay_timer :: stp_timer
  sp_hold_timer :: stp_timer
  sp_tx_count :: int
  sp_rx_count :: int
  sp_error_count :: int
  sp_state_changed :: bool

record stp =
  st_name :: string
  st_bridge_id :: u64
  st_max_age :: int
  st_hello_time :: int
  st_forward_delay :: int
  st_bridge_max_age :: int
  st_bridge_hello_time :: int
  st_bridge_forward_delay :: int
  st_rq_max_age :: int
  st_rq_hello_time :: int
  st_rq_forward_delay :: int
  st_elapsed_remainder :: int
  st_designated_root :: u64
  st_root_path_cost :: u32
  st_root_port :: "nat option"
  st_topology_change_detected :: bool
  st_topology_change :: bool
  st_hello_timer :: stp_timer
  st_tcn_timer :: stp_timer
  st_topology_change_timer :: stp_timer
  st_ports :: "stp_port list"
  st_fdb_needs_flush :: bool
  st_first_changed_port :: nat
  st_out :: "(nat \<times> u8 list) list"
  st_seq :: nat

section \<open>Wire format\<close>

text \<open>The bytes of the packed structures, and the structure that overlays given bytes.\<close>

definition config_bpdu_bytes :: "stp_config_bpdu \<Rightarrow> u8 list" where
  "config_bpdu_bytes c =
    to_be 2 (cb_protocol_id c) @ [cb_protocol_version c, cb_bpdu_type c] @ [cb_flags c] @
    to_be 8 (cb_root_id c) @ to_be 4 (cb_root_path_cost c) @ to_be 8 (cb_bridge_id c) @
    to_be 2 (cb_port_id c) @ to_be 2 (cb_message_age c) @ to_be 2 (cb_max_age c) @
    to_be 2 (cb_hello_time c) @ to_be 2 (cb_forward_delay c)"

definition config_bpdu_at :: "u8 list \<Rightarrow> stp_config_bpdu" where
  "config_bpdu_at b = \<lparr>
    cb_protocol_id = of_be (take 2 b), cb_protocol_version = b ! 2, cb_bpdu_type = b ! 3, cb_flags = b ! 4,
    cb_root_id = of_be (take 8 (drop 5 b)), cb_root_path_cost = of_be (take 4 (drop 13 b)),
    cb_bridge_id = of_be (take 8 (drop 17 b)), cb_port_id = of_be (take 2 (drop 25 b)),
    cb_message_age = of_be (take 2 (drop 27 b)), cb_max_age = of_be (take 2 (drop 29 b)),
    cb_hello_time = of_be (take 2 (drop 31 b)), cb_forward_delay = of_be (take 2 (drop 33 b)) \<rparr>"

definition tcn_bpdu_bytes :: "u8 list" where
  "tcn_bpdu_bytes = to_be 2 STP_PROTOCOL_ID @ [STP_PROTOCOL_VERSION, STP_TYPE_TCN]"

section \<open>Timers\<close>

definition stp_start_timer :: "int \<Rightarrow> stp_timer" where
  "stp_start_timer v = \<lparr> tm_active = True, tm_value = v \<rparr>"

definition stp_stop_timer :: "stp_timer \<Rightarrow> stp_timer" where
  "stp_stop_timer timer = timer\<lparr> tm_active := False \<rparr>"

definition stp_timer_expired :: "stp_timer \<Rightarrow> int \<Rightarrow> int \<Rightarrow> stp_timer \<times> bool" where
  "stp_timer_expired timer elapsed timeout =
    (if tm_active timer
     then let timer = timer\<lparr> tm_value := tm_value timer + elapsed \<rparr>
          in if tm_value timer \<ge> timeout then (timer\<lparr> tm_active := False \<rparr>, True) else (timer, False)
     else (timer, False))"

definition ms_to_timer :: "int \<Rightarrow> int" where
  "ms_to_timer ms = c_div (int32 (ms * 0x100)) 1000"

definition timer_to_ms :: "int \<Rightarrow> int" where
  "timer_to_ms timer = c_div (int32 (timer * 1000)) 0x100"

definition clamp :: "int \<Rightarrow> int \<Rightarrow> int \<Rightarrow> int" where
  "clamp x lo hi = (if x < lo then lo else if x > hi then hi else x)"

section \<open>Ports\<close>

abbreviation stp_port_at :: "stp \<Rightarrow> nat \<Rightarrow> stp_port" where
  "stp_port_at s p \<equiv> st_ports s ! p"

definition update_port :: "nat \<Rightarrow> (stp_port \<Rightarrow> stp_port) \<Rightarrow> stp \<Rightarrow> stp" where
  "update_port p f s = s\<lparr> st_ports := (st_ports s)[p := f (st_ports s ! p)] \<rparr>"

definition seq_change :: "stp \<Rightarrow> stp" where
  "seq_change s = s\<lparr> st_seq := Suc (st_seq s) \<rparr>"

text \<open>
  \<open>FOR_EACH_ENABLED_PORT\<close>: a port is visited if it is enabled when the loop reaches it, whatever
  the body did for the ports before it.
\<close>

definition for_each_enabled_port :: "(nat \<Rightarrow> stp \<Rightarrow> stp) \<Rightarrow> stp \<Rightarrow> stp" where
  "for_each_enabled_port body s =
    fold (\<lambda>p s. if sp_state (stp_port_at s p) \<noteq> STP_DISABLED then body p s else s) [0..<length (st_ports s)] s"

definition stp_is_root_bridge :: "stp \<Rightarrow> bool" where
  "stp_is_root_bridge s \<longleftrightarrow> st_bridge_id s = st_designated_root s"

definition stp_is_designated_port :: "stp \<Rightarrow> nat \<Rightarrow> bool" where
  "stp_is_designated_port s p \<longleftrightarrow>
    sp_designated_bridge (stp_port_at s p) = st_bridge_id s \<and>
    sp_designated_port (stp_port_at s p) = sp_port_id (stp_port_at s p)"

definition stp_set_port_state :: "nat \<Rightarrow> stp_state \<Rightarrow> stp \<Rightarrow> stp" where
  "stp_set_port_state p state s =
    (let s = (if state \<noteq> sp_state (stp_port_at s p) \<and> \<not> sp_state_changed (stp_port_at s p)
              then let s = update_port p (\<lambda>x. x\<lparr> sp_state_changed := True \<rparr>) s;
                       s = (if p < st_first_changed_port s then s\<lparr> st_first_changed_port := p \<rparr> else s)
                   in seq_change s
              else s)
     in update_port p (\<lambda>x. x\<lparr> sp_state := state \<rparr>) s)"

definition stp_become_designated_port :: "nat \<Rightarrow> stp \<Rightarrow> stp" where
  "stp_become_designated_port p s =
    update_port p (\<lambda>x. x\<lparr> sp_designated_root := st_designated_root s,
      sp_designated_cost := st_root_path_cost s, sp_designated_bridge := st_bridge_id s,
      sp_designated_port := sp_port_id x \<rparr>) s"

section \<open>Sending\<close>

text \<open>The Ethernet and LLC headers in front of a BPDU; the callback fills in the source address.\<close>

definition stp_send_bpdu :: "nat \<Rightarrow> u8 list \<Rightarrow> stp \<Rightarrow> stp" where
  "stp_send_bpdu p bpdu s =
    (let llc = [STP_LLC_DSAP, STP_LLC_SSAP, STP_LLC_CNTL];
         eth = eth_addr_stp @ replicate 6 0 @ to_be 2 (of_nat (length llc + length bpdu) :: u16);
         s = s\<lparr> st_out := st_out s @ [(p, eth @ llc @ bpdu)] \<rparr>
     in update_port p (\<lambda>x. x\<lparr> sp_tx_count := sp_tx_count x + 1 \<rparr>) s)"

text \<open>The BPDU that \<open>stp_transmit_config\<close> fills in, and its sending.\<close>

definition stp_make_config :: "nat \<Rightarrow> stp \<Rightarrow> stp_config_bpdu" where
  "stp_make_config p s =
    (let x = stp_port_at s p
     in \<lparr> cb_protocol_id = STP_PROTOCOL_ID, cb_protocol_version = STP_PROTOCOL_VERSION,
          cb_bpdu_type = STP_TYPE_CONFIG,
          cb_flags = (if sp_topology_change_ack x then STP_CONFIG_TOPOLOGY_CHANGE_ACK else 0) OR
                     (if st_topology_change s then STP_CONFIG_TOPOLOGY_CHANGE else 0),
          cb_root_id = st_designated_root s, cb_root_path_cost = st_root_path_cost s,
          cb_bridge_id = st_bridge_id s, cb_port_id = sp_port_id x,
          cb_message_age = (if stp_is_root_bridge s then 0
            else word_of_int (tm_value (sp_message_age_timer (stp_port_at s (the (st_root_port s))))
                              + MESSAGE_AGE_INCREMENT)),
          cb_max_age = word_of_int (st_max_age s), cb_hello_time = word_of_int (st_hello_time s),
          cb_forward_delay = word_of_int (st_forward_delay s) \<rparr>)"

definition stp_transmit_config :: "nat \<Rightarrow> stp \<Rightarrow> stp" where
  "stp_transmit_config p s =
    (if \<not> stp_is_root_bridge s \<and> st_root_port s = None then s
     else if tm_active (sp_hold_timer (stp_port_at s p)) then update_port p (\<lambda>x. x\<lparr> sp_config_pending := True \<rparr>) s
     else let config = stp_make_config p s
          in if uint (cb_message_age config) < st_max_age s
             then let s = update_port p (\<lambda>x. x\<lparr> sp_topology_change_ack := False, sp_config_pending := False \<rparr>) s;
                      s = stp_send_bpdu p (config_bpdu_bytes config) s
                  in update_port p (\<lambda>x. x\<lparr> sp_hold_timer := stp_start_timer 0 \<rparr>) s
             else s)"

definition stp_config_bpdu_generation :: "stp \<Rightarrow> stp" where
  "stp_config_bpdu_generation s =
    for_each_enabled_port (\<lambda>p s. if stp_is_designated_port s p then stp_transmit_config p s else s) s"

definition stp_transmit_tcn :: "stp \<Rightarrow> stp" where
  "stp_transmit_tcn s = (case st_root_port s of None \<Rightarrow> s | Some p \<Rightarrow> stp_send_bpdu p tcn_bpdu_bytes s)"

section \<open>Topology changes\<close>

definition stp_topology_change_detection :: "stp \<Rightarrow> stp" where
  "stp_topology_change_detection s =
    (let s = (if stp_is_root_bridge s
              then s\<lparr> st_topology_change := True, st_topology_change_timer := stp_start_timer 0 \<rparr>
              else if \<not> st_topology_change_detected s
              then (stp_transmit_tcn s)\<lparr> st_tcn_timer := stp_start_timer 0 \<rparr>
              else s)
     in seq_change (s\<lparr> st_fdb_needs_flush := True, st_topology_change_detected := True \<rparr>))"

definition stp_topology_change_acknowledged :: "stp \<Rightarrow> stp" where
  "stp_topology_change_acknowledged s =
    s\<lparr> st_topology_change_detected := False, st_tcn_timer := stp_stop_timer (st_tcn_timer s) \<rparr>"

definition stp_acknowledge_topology_change :: "nat \<Rightarrow> stp \<Rightarrow> stp" where
  "stp_acknowledge_topology_change p s =
    stp_transmit_config p (update_port p (\<lambda>x. x\<lparr> sp_topology_change_ack := True \<rparr>) s)"

section \<open>Configuration update and port states\<close>

definition stp_supersedes_port_info :: "stp \<Rightarrow> nat \<Rightarrow> stp_config_bpdu \<Rightarrow> bool" where
  "stp_supersedes_port_info s p config =
    (let x = stp_port_at s p
     in if cb_root_id config \<noteq> sp_designated_root x then cb_root_id config < sp_designated_root x
        else if cb_root_path_cost config \<noteq> sp_designated_cost x then cb_root_path_cost config < sp_designated_cost x
        else if cb_bridge_id config \<noteq> sp_designated_bridge x then cb_bridge_id config < sp_designated_bridge x
        else cb_bridge_id config \<noteq> st_bridge_id s \<or> cb_port_id config \<le> sp_designated_port x)"

definition stp_record_config_information :: "nat \<Rightarrow> stp_config_bpdu \<Rightarrow> stp \<Rightarrow> stp" where
  "stp_record_config_information p config s =
    update_port p (\<lambda>x. x\<lparr> sp_designated_root := cb_root_id config, sp_designated_cost := cb_root_path_cost config,
      sp_designated_bridge := cb_bridge_id config, sp_designated_port := cb_port_id config,
      sp_message_age_timer := stp_start_timer (uint (cb_message_age config)) \<rparr>) s"

definition stp_record_config_timeout_values :: "stp_config_bpdu \<Rightarrow> stp \<Rightarrow> stp" where
  "stp_record_config_timeout_values config s =
    s\<lparr> st_max_age := uint (cb_max_age config), st_hello_time := uint (cb_hello_time config),
       st_forward_delay := uint (cb_forward_delay config),
       st_topology_change := (cb_flags config AND STP_CONFIG_TOPOLOGY_CHANGE) \<noteq> 0 \<rparr>"

text \<open>The sums are of two \<open>int\<close>s and are compared as \<open>int\<close>s; all the rest is unsigned.\<close>

definition stp_supersedes_root :: "stp_port \<Rightarrow> stp_port \<Rightarrow> bool" where
  "stp_supersedes_root root p =
    (let p_cost = sp_designated_cost p + sp_path_cost p;
         root_cost = sp_designated_cost root + sp_path_cost root
     in if sp_designated_root p \<noteq> sp_designated_root root then sp_designated_root p < sp_designated_root root
        else if p_cost \<noteq> root_cost then sint p_cost < sint root_cost
        else if sp_designated_bridge p \<noteq> sp_designated_bridge root then sp_designated_bridge p < sp_designated_bridge root
        else if sp_designated_port p \<noteq> sp_designated_port root then sp_designated_port p < sp_designated_port root
        else sp_port_id p < sp_port_id root)"

text \<open>The loop of \<open>stp_root_selection\<close> over the enabled ports, with the best root port so far.\<close>

definition stp_better_root :: "stp \<Rightarrow> nat \<Rightarrow> nat option \<Rightarrow> nat option" where
  "stp_better_root s p root =
    (if sp_state (stp_port_at s p) = STP_DISABLED then root
     else if stp_is_designated_port s p \<or> sp_designated_root (stp_port_at s p) \<ge> st_bridge_id s then root
     else case root of
            None \<Rightarrow> Some p
          | Some r \<Rightarrow> if \<not> stp_supersedes_root (stp_port_at s r) (stp_port_at s p) then root else Some p)"

definition stp_root_selection :: "stp \<Rightarrow> stp" where
  "stp_root_selection s =
    (let root = fold (stp_better_root s) [0..<length (st_ports s)] None
     in case root of
          None \<Rightarrow> s\<lparr> st_root_port := None, st_designated_root := st_bridge_id s, st_root_path_cost := 0 \<rparr>
        | Some r \<Rightarrow> s\<lparr> st_root_port := Some r, st_designated_root := sp_designated_root (stp_port_at s r),
                      st_root_path_cost := sp_designated_cost (stp_port_at s r) + sp_path_cost (stp_port_at s r) \<rparr>)"

definition stp_should_be_designated :: "stp \<Rightarrow> nat \<Rightarrow> bool" where
  "stp_should_be_designated s p \<longleftrightarrow>
    (let x = stp_port_at s p
     in stp_is_designated_port s p \<or> sp_designated_root x \<noteq> st_designated_root s \<or>
        st_root_path_cost s < sp_designated_cost x \<or>
        (st_root_path_cost s = sp_designated_cost x \<and>
         (st_bridge_id s < sp_designated_bridge x \<or>
          (st_bridge_id s = sp_designated_bridge x \<and> sp_port_id x \<le> sp_designated_port x))))"

definition stp_designated_port_selection :: "stp \<Rightarrow> stp" where
  "stp_designated_port_selection s =
    for_each_enabled_port (\<lambda>p s. if stp_should_be_designated s p then stp_become_designated_port p s else s) s"

definition stp_configuration_update :: "stp \<Rightarrow> stp" where
  "stp_configuration_update s = seq_change (stp_designated_port_selection (stp_root_selection s))"

definition stp_make_forwarding :: "nat \<Rightarrow> stp \<Rightarrow> stp" where
  "stp_make_forwarding p s =
    (if sp_state (stp_port_at s p) = STP_BLOCKING
     then update_port p (\<lambda>x. x\<lparr> sp_forward_delay_timer := stp_start_timer 0 \<rparr>) (stp_set_port_state p STP_LISTENING s)
     else s)"

definition stp_make_blocking :: "nat \<Rightarrow> stp \<Rightarrow> stp" where
  "stp_make_blocking p s =
    (if sp_state (stp_port_at s p) \<notin> {STP_DISABLED, STP_BLOCKING}
     then let s = (if sp_state (stp_port_at s p) \<in> {STP_FORWARDING, STP_LEARNING} \<and>
                      sp_change_detection_enabled (stp_port_at s p)
                   then stp_topology_change_detection s else s);
              s = stp_set_port_state p STP_BLOCKING s
          in update_port p (\<lambda>x. x\<lparr> sp_forward_delay_timer := stp_stop_timer (sp_forward_delay_timer x) \<rparr>) s
     else s)"

definition stp_select_port_state :: "nat \<Rightarrow> stp \<Rightarrow> stp" where
  "stp_select_port_state p s =
    (if st_root_port s = Some p
     then stp_make_forwarding p (update_port p (\<lambda>x. x\<lparr> sp_config_pending := False, sp_topology_change_ack := False \<rparr>) s)
     else if stp_is_designated_port s p
     then stp_make_forwarding p (update_port p (\<lambda>x. x\<lparr> sp_message_age_timer := stp_stop_timer (sp_message_age_timer x) \<rparr>) s)
     else stp_make_blocking p (update_port p (\<lambda>x. x\<lparr> sp_config_pending := False, sp_topology_change_ack := False \<rparr>) s))"

definition stp_port_state_selection :: "stp \<Rightarrow> stp" where
  "stp_port_state_selection s = for_each_enabled_port stp_select_port_state s"

text \<open>The assignments with which a root bridge goes back to its own times.\<close>

definition stp_use_bridge_times :: "stp \<Rightarrow> stp" where
  "stp_use_bridge_times s =
    s\<lparr> st_max_age := st_bridge_max_age s, st_hello_time := st_bridge_hello_time s,
       st_forward_delay := st_bridge_forward_delay s \<rparr>"

definition stp_become_root_bridge :: "stp \<Rightarrow> stp" where
  "stp_become_root_bridge s =
    (let s = stp_topology_change_detection (stp_use_bridge_times s);
         s = s\<lparr> st_tcn_timer := stp_stop_timer (st_tcn_timer s) \<rparr>;
         s = stp_config_bpdu_generation s
     in s\<lparr> st_hello_timer := stp_start_timer 0 \<rparr>)"

text \<open>The four statements that follow every change of a port's or the bridge's information.\<close>

definition stp_reconfigure :: "bool \<Rightarrow> stp \<Rightarrow> stp" where
  "stp_reconfigure root s =
    (let s = stp_port_state_selection (stp_configuration_update s)
     in if stp_is_root_bridge s \<and> \<not> root then stp_become_root_bridge s else s)"

section \<open>Received BPDUs\<close>

text \<open>Two blocks of \<open>stp_received_config_bpdu\<close>: no longer the root; heard from the root port.\<close>

definition stp_resign_root :: "stp \<Rightarrow> stp" where
  "stp_resign_root s =
    (let s = s\<lparr> st_hello_timer := stp_stop_timer (st_hello_timer s) \<rparr>
     in if st_topology_change_detected s
        then let s = s\<lparr> st_topology_change_timer := stp_stop_timer (st_topology_change_timer s) \<rparr>
             in (stp_transmit_tcn s)\<lparr> st_tcn_timer := stp_start_timer 0 \<rparr>
        else s)"

definition stp_root_port_heard :: "stp_config_bpdu \<Rightarrow> stp \<Rightarrow> stp" where
  "stp_root_port_heard config s =
    (let s = stp_config_bpdu_generation (stp_record_config_timeout_values config s);
         s = (if (cb_flags config AND STP_CONFIG_TOPOLOGY_CHANGE_ACK) \<noteq> 0
              then stp_topology_change_acknowledged s else s)
     in if (cb_flags config AND STP_CONFIG_TOPOLOGY_CHANGE) \<noteq> 0
        then s\<lparr> st_fdb_needs_flush := True \<rparr> else s)"

definition stp_received_config_bpdu :: "nat \<Rightarrow> stp_config_bpdu \<Rightarrow> stp \<Rightarrow> stp" where
  "stp_received_config_bpdu p config s =
    (if cb_message_age config \<ge> cb_max_age config then s
     else if sp_state (stp_port_at s p) \<noteq> STP_DISABLED
     then let root = stp_is_root_bridge s
          in if stp_supersedes_port_info s p config
             then let s = stp_record_config_information p config s;
                      s = stp_port_state_selection (stp_configuration_update s);
                      s = (if \<not> stp_is_root_bridge s \<and> root then stp_resign_root s else s)
                  in if st_root_port s = Some p then stp_root_port_heard config s else s
             else if stp_is_designated_port s p then stp_transmit_config p s
             else s
     else s)"

definition stp_received_tcn_bpdu :: "nat \<Rightarrow> stp \<Rightarrow> stp" where
  "stp_received_tcn_bpdu p s =
    (if sp_state (stp_port_at s p) \<noteq> STP_DISABLED \<and> stp_is_designated_port s p
     then stp_acknowledge_topology_change p (stp_topology_change_detection s)
     else s)"

definition stp_count_error :: "nat \<Rightarrow> stp \<Rightarrow> stp" where
  "stp_count_error p s = update_port p (\<lambda>x. x\<lparr> sp_error_count := sp_error_count x + 1 \<rparr>) s"

definition stp_received_bpdu :: "nat \<Rightarrow> u8 list \<Rightarrow> stp \<Rightarrow> stp" where
  "stp_received_bpdu p bpdu s =
    (if sp_state (stp_port_at s p) = STP_DISABLED then s
     else if length bpdu < 4 then stp_count_error p s
     else if (of_be (take 2 bpdu) :: u16) \<noteq> STP_PROTOCOL_ID then stp_count_error p s
     else if bpdu ! 3 = STP_TYPE_CONFIG
     then if length bpdu < 35 then stp_count_error p s
          else update_port p (\<lambda>x. x\<lparr> sp_rx_count := sp_rx_count x + 1 \<rparr>)
                 (stp_received_config_bpdu p (config_bpdu_at bpdu) s)
     else if bpdu ! 3 = STP_TYPE_TCN
     then if length bpdu \<noteq> 4 then stp_count_error p s
          else update_port p (\<lambda>x. x\<lparr> sp_rx_count := sp_rx_count x + 1 \<rparr>) (stp_received_tcn_bpdu p s)
     else stp_count_error p s)"

section \<open>Timer expiry\<close>

definition stp_hello_timer_expiry :: "stp \<Rightarrow> stp" where
  "stp_hello_timer_expiry s = (stp_config_bpdu_generation s)\<lparr> st_hello_timer := stp_start_timer 0 \<rparr>"

definition stp_message_age_timer_expiry :: "nat \<Rightarrow> stp \<Rightarrow> stp" where
  "stp_message_age_timer_expiry p s =
    (let root = stp_is_root_bridge s
     in stp_reconfigure root (stp_become_designated_port p s))"

definition stp_is_designated_for_some_port :: "stp \<Rightarrow> bool" where
  "stp_is_designated_for_some_port s \<longleftrightarrow>
    (\<exists>x\<in>set (st_ports s). sp_state x \<noteq> STP_DISABLED \<and> sp_designated_bridge x = st_bridge_id s)"

definition stp_forward_delay_timer_expiry :: "nat \<Rightarrow> stp \<Rightarrow> stp" where
  "stp_forward_delay_timer_expiry p s =
    (if sp_state (stp_port_at s p) = STP_LISTENING
     then update_port p (\<lambda>x. x\<lparr> sp_forward_delay_timer := stp_start_timer 0 \<rparr>) (stp_set_port_state p STP_LEARNING s)
     else if sp_state (stp_port_at s p) = STP_LEARNING
     then let s = stp_set_port_state p STP_FORWARDING s
          in if stp_is_designated_for_some_port s \<and> sp_change_detection_enabled (stp_port_at s p)
             then stp_topology_change_detection s else s
     else s)"

definition stp_tcn_timer_expiry :: "stp \<Rightarrow> stp" where
  "stp_tcn_timer_expiry s = (stp_transmit_tcn s)\<lparr> st_tcn_timer := stp_start_timer 0 \<rparr>"

definition stp_topology_change_timer_expiry :: "stp \<Rightarrow> stp" where
  "stp_topology_change_timer_expiry s = s\<lparr> st_topology_change_detected := False, st_topology_change := False \<rparr>"

definition stp_hold_timer_expiry :: "nat \<Rightarrow> stp \<Rightarrow> stp" where
  "stp_hold_timer_expiry p s =
    (if sp_config_pending (stp_port_at s p) then stp_transmit_config p s else s)"

section \<open>The entity and its clients\<close>

definition stp_initialize_port :: "nat \<Rightarrow> stp_state \<Rightarrow> stp \<Rightarrow> stp" where
  "stp_initialize_port p state s =
    update_port p (\<lambda>x. x\<lparr> sp_topology_change_ack := False, sp_config_pending := False,
        sp_change_detection_enabled := True, sp_aux := None,
        sp_message_age_timer := stp_stop_timer (sp_message_age_timer x),
        sp_forward_delay_timer := stp_stop_timer (sp_forward_delay_timer x),
        sp_hold_timer := stp_stop_timer (sp_hold_timer x),
        sp_tx_count := 0, sp_rx_count := 0, sp_error_count := 0 \<rparr>)
      (stp_set_port_state p state (stp_become_designated_port p s))"

definition stp_update_bridge_timers :: "stp \<Rightarrow> stp" where
  "stp_update_bridge_timers s =
    (let ht = clamp (st_rq_hello_time s) 1000 10000;
         ma = clamp (st_rq_max_age s) (max (2 * (ht + 1000)) 6000) 40000;
         fd = clamp (st_rq_forward_delay s) (c_div ma 2 + 1000) 30000;
         s = s\<lparr> st_bridge_hello_time := ms_to_timer ht, st_bridge_max_age := ms_to_timer ma,
                st_bridge_forward_delay := ms_to_timer fd \<rparr>
     in if stp_is_root_bridge s then stp_use_bridge_times s else s)"

text \<open>
  Memory from \<open>xzalloc\<close>.  Its port states are 0, which is none of the five states; all that
  \<open>stp_create\<close> reads of them is that they differ from \<open>STP_DISABLED\<close>, as the state used here does.
\<close>

definition timer_zero :: stp_timer where
  "timer_zero = \<lparr> tm_active = False, tm_value = 0 \<rparr>"

definition stp_port_zero :: stp_port where
  "stp_port_zero = \<lparr> sp_aux = None, sp_port_id = 0, sp_state = STP_BLOCKING, sp_path_cost = 0,
    sp_designated_root = 0, sp_designated_cost = 0, sp_designated_bridge = 0, sp_designated_port = 0,
    sp_topology_change_ack = False, sp_config_pending = False, sp_change_detection_enabled = False,
    sp_message_age_timer = timer_zero, sp_forward_delay_timer = timer_zero, sp_hold_timer = timer_zero,
    sp_tx_count = 0, sp_rx_count = 0, sp_error_count = 0, sp_state_changed = False \<rparr>"

definition stp_zero :: stp where
  "stp_zero = \<lparr> st_name = [], st_bridge_id = 0, st_max_age = 0, st_hello_time = 0, st_forward_delay = 0,
    st_bridge_max_age = 0, st_bridge_hello_time = 0, st_bridge_forward_delay = 0,
    st_rq_max_age = 0, st_rq_hello_time = 0, st_rq_forward_delay = 0, st_elapsed_remainder = 0,
    st_designated_root = 0, st_root_path_cost = 0, st_root_port = None,
    st_topology_change_detected = False, st_topology_change = False,
    st_hello_timer = timer_zero, st_tcn_timer = timer_zero, st_topology_change_timer = timer_zero,
    st_ports = replicate STP_MAX_PORTS stp_port_zero, st_fdb_needs_flush = False,
    st_first_changed_port = 0, st_out = [], st_seq = 0 \<rparr>"

definition stp_create_port :: "nat \<Rightarrow> stp \<Rightarrow> stp" where
  "stp_create_port p s =
    stp_initialize_port p STP_DISABLED
      (update_port p (\<lambda>x. x\<lparr> sp_port_id := (of_nat p + 1) OR push_bit 8 STP_DEFAULT_PORT_PRIORITY,
                            sp_path_cost := 19 \<rparr>) s)"

text \<open>\<open>stp_create\<close> up to its loop over the ports, and all of it.\<close>

definition stp_create_bridge :: "string \<Rightarrow> u64 \<Rightarrow> stp" where
  "stp_create_bridge name bridge_id =
    (let bridge_id = (if drop_bit 48 bridge_id = 0 then bridge_id OR push_bit 48 STP_DEFAULT_BRIDGE_PRIORITY
                      else bridge_id);
         s = stp_zero\<lparr> st_name := name, st_bridge_id := bridge_id, st_rq_max_age := STP_DEFAULT_MAX_AGE,
               st_rq_hello_time := STP_DEFAULT_HELLO_TIME, st_rq_forward_delay := STP_DEFAULT_FWD_DELAY \<rparr>;
         s = stp_use_bridge_times (stp_update_bridge_timers s)
     in s\<lparr> st_designated_root := st_bridge_id s, st_root_path_cost := 0, st_root_port := None,
                st_topology_change_detected := False, st_topology_change := False,
                st_tcn_timer := stp_stop_timer (st_tcn_timer s),
                st_topology_change_timer := stp_stop_timer (st_topology_change_timer s),
                st_hello_timer := stp_start_timer 0,
                st_first_changed_port := length (st_ports s) \<rparr>)"

definition stp_create :: "string \<Rightarrow> u64 \<Rightarrow> stp" where
  "stp_create name bridge_id =
    (let s = stp_create_bridge name bridge_id in fold stp_create_port [0..<length (st_ports s)] s)"

text \<open>The timers of \<open>stp_tick\<close>, first those of the bridge and then those of a port.\<close>

definition stp_tick_hello :: "int \<Rightarrow> stp \<Rightarrow> stp" where
  "stp_tick_hello elapsed s =
    (let (timer, expired) = stp_timer_expired (st_hello_timer s) elapsed (st_hello_time s);
         s = s\<lparr> st_hello_timer := timer \<rparr>
     in if expired then stp_hello_timer_expiry s else s)"

definition stp_tick_tcn :: "int \<Rightarrow> stp \<Rightarrow> stp" where
  "stp_tick_tcn elapsed s =
    (let (timer, expired) = stp_timer_expired (st_tcn_timer s) elapsed (st_bridge_hello_time s);
         s = s\<lparr> st_tcn_timer := timer \<rparr>
     in if expired then stp_tcn_timer_expiry s else s)"

definition stp_tick_topology_change :: "int \<Rightarrow> stp \<Rightarrow> stp" where
  "stp_tick_topology_change elapsed s =
    (let (timer, expired) = stp_timer_expired (st_topology_change_timer s) elapsed
                              (st_max_age s + st_forward_delay s);
         s = s\<lparr> st_topology_change_timer := timer \<rparr>
     in if expired then stp_topology_change_timer_expiry s else s)"

definition stp_tick_message_age :: "int \<Rightarrow> nat \<Rightarrow> stp \<Rightarrow> stp" where
  "stp_tick_message_age elapsed p s =
    (let (timer, expired) = stp_timer_expired (sp_message_age_timer (stp_port_at s p)) elapsed (st_max_age s);
         s = update_port p (\<lambda>x. x\<lparr> sp_message_age_timer := timer \<rparr>) s
     in if expired then stp_message_age_timer_expiry p s else s)"

definition stp_tick_forward_delay :: "int \<Rightarrow> nat \<Rightarrow> stp \<Rightarrow> stp" where
  "stp_tick_forward_delay elapsed p s =
    (let (timer, expired) = stp_timer_expired (sp_forward_delay_timer (stp_port_at s p)) elapsed (st_forward_delay s);
         s = update_port p (\<lambda>x. x\<lparr> sp_forward_delay_timer := timer \<rparr>) s
     in if expired then stp_forward_delay_timer_expiry p s else s)"

definition stp_tick_hold :: "int \<Rightarrow> nat \<Rightarrow> stp \<Rightarrow> stp" where
  "stp_tick_hold elapsed p s =
    (let (timer, expired) = stp_timer_expired (sp_hold_timer (stp_port_at s p)) elapsed (ms_to_timer 1000);
         s = update_port p (\<lambda>x. x\<lparr> sp_hold_timer := timer \<rparr>) s
     in if expired then stp_hold_timer_expiry p s else s)"

definition stp_tick_timers :: "int \<Rightarrow> stp \<Rightarrow> stp" where
  "stp_tick_timers elapsed s =
    (let s = stp_tick_topology_change elapsed (stp_tick_tcn elapsed (stp_tick_hello elapsed s));
         s = for_each_enabled_port (stp_tick_message_age elapsed) s
     in for_each_enabled_port (\<lambda>p s. stp_tick_hold elapsed p (stp_tick_forward_delay elapsed p s)) s)"

definition stp_tick :: "int \<Rightarrow> stp \<Rightarrow> stp" where
  "stp_tick ms s =
    (let ms = int32 (clamp ms 0 (2147483647 - 1000) + st_elapsed_remainder s);
         elapsed = ms_to_timer ms;
         s = s\<lparr> st_elapsed_remainder := int32 (ms - timer_to_ms elapsed) \<rparr>
     in if elapsed = 0 then s else stp_tick_timers elapsed s)"

definition set_bridge_id :: "u64 \<Rightarrow> stp \<Rightarrow> stp" where
  "set_bridge_id new_bridge_id s =
    (if new_bridge_id \<noteq> st_bridge_id s
     then let root = stp_is_root_bridge s;
              s = for_each_enabled_port (\<lambda>p s. if stp_is_designated_port s p
                    then update_port p (\<lambda>x. x\<lparr> sp_designated_bridge := new_bridge_id \<rparr>) s else s) s
          in stp_reconfigure root (s\<lparr> st_bridge_id := new_bridge_id \<rparr>)
     else s)"

definition stp_set_bridge_id :: "u64 \<Rightarrow> stp \<Rightarrow> stp" where
  "stp_set_bridge_id bridge_id s =
    (let mac_bits = mask 48; pri_bits = NOT mac_bits
     in set_bridge_id ((st_bridge_id s AND pri_bits) OR (bridge_id AND mac_bits)) s)"

definition stp_set_bridge_priority :: "u16 \<Rightarrow> stp \<Rightarrow> stp" where
  "stp_set_bridge_priority new_priority s =
    (let mac_bits = mask 48
     in set_bridge_id ((st_bridge_id s AND mac_bits) OR push_bit 48 (ucast new_priority)) s)"

definition stp_set_hello_time :: "int \<Rightarrow> stp \<Rightarrow> stp" where
  "stp_set_hello_time ms s = stp_update_bridge_timers (s\<lparr> st_rq_hello_time := ms \<rparr>)"

definition stp_set_max_age :: "int \<Rightarrow> stp \<Rightarrow> stp" where
  "stp_set_max_age ms s = stp_update_bridge_timers (s\<lparr> st_rq_max_age := ms \<rparr>)"

definition stp_set_forward_delay :: "int \<Rightarrow> stp \<Rightarrow> stp" where
  "stp_set_forward_delay ms s = stp_update_bridge_timers (s\<lparr> st_rq_forward_delay := ms \<rparr>)"

definition stp_get_hello_time :: "stp \<Rightarrow> int" where
  "stp_get_hello_time s = timer_to_ms (st_bridge_hello_time s)"

definition stp_get_max_age :: "stp \<Rightarrow> int" where
  "stp_get_max_age s = timer_to_ms (st_bridge_max_age s)"

definition stp_get_forward_delay :: "stp \<Rightarrow> int" where
  "stp_get_forward_delay s = timer_to_ms (st_bridge_forward_delay s)"

definition stp_check_and_reset_fdb_flush :: "stp \<Rightarrow> stp \<times> bool" where
  "stp_check_and_reset_fdb_flush s = (s\<lparr> st_fdb_needs_flush := False \<rparr>, st_fdb_needs_flush s)"

definition stp_get_changed_port :: "stp \<Rightarrow> stp \<times> nat option" where
  "stp_get_changed_port s =
    (let end = length (st_ports s)
     in case find (\<lambda>p. sp_state_changed (stp_port_at s p)) [st_first_changed_port s..<end] of
          Some p \<Rightarrow> ((update_port p (\<lambda>x. x\<lparr> sp_state_changed := False \<rparr>) s)\<lparr> st_first_changed_port := Suc p \<rparr>, Some p)
        | None \<Rightarrow> (s\<lparr> st_first_changed_port := end \<rparr>, None))"

fun stp_state_name :: "stp_state \<Rightarrow> string" where
  "stp_state_name STP_DISABLED = ''disabled''"
| "stp_state_name STP_LISTENING = ''listening''"
| "stp_state_name STP_LEARNING = ''learning''"
| "stp_state_name STP_FORWARDING = ''forwarding''"
| "stp_state_name STP_BLOCKING = ''blocking''"

definition stp_forward_in_state :: "stp_state \<Rightarrow> bool" where
  "stp_forward_in_state state \<longleftrightarrow> state \<in> {STP_DISABLED, STP_FORWARDING}"

definition stp_learn_in_state :: "stp_state \<Rightarrow> bool" where
  "stp_learn_in_state state \<longleftrightarrow> state \<in> {STP_DISABLED, STP_LEARNING, STP_FORWARDING}"

definition stp_should_forward_bpdu :: "stp_state \<Rightarrow> bool" where
  "stp_should_forward_bpdu state \<longleftrightarrow> state \<in> {STP_DISABLED, STP_LISTENING, STP_LEARNING, STP_FORWARDING}"

fun stp_role_name :: "stp_role \<Rightarrow> string" where
  "stp_role_name STP_ROLE_ROOT = ''root''"
| "stp_role_name STP_ROLE_DESIGNATED = ''designated''"
| "stp_role_name STP_ROLE_ALTERNATE = ''alternate''"
| "stp_role_name STP_ROLE_DISABLED = ''disabled''"

definition stp_port_get_role :: "stp \<Rightarrow> nat \<Rightarrow> stp_role" where
  "stp_port_get_role s p =
    (if (case st_root_port s of None \<Rightarrow> False
         | Some r \<Rightarrow> sp_port_id (stp_port_at s r) = sp_port_id (stp_port_at s p)) then STP_ROLE_ROOT
     else if stp_is_designated_port s p then STP_ROLE_DESIGNATED
     else if sp_state (stp_port_at s p) = STP_DISABLED then STP_ROLE_DISABLED
     else STP_ROLE_ALTERNATE)"

definition stp_port_get_counts :: "stp \<Rightarrow> nat \<Rightarrow> int \<times> int \<times> int" where
  "stp_port_get_counts s p =
    (let x = stp_port_at s p in (sp_tx_count x, sp_rx_count x, sp_error_count x))"

definition stp_port_set_aux :: "nat \<Rightarrow> addr option \<Rightarrow> stp \<Rightarrow> stp" where
  "stp_port_set_aux p aux s = update_port p (\<lambda>x. x\<lparr> sp_aux := aux \<rparr>) s"

definition stp_port_disable :: "nat \<Rightarrow> stp \<Rightarrow> stp" where
  "stp_port_disable p s =
    (if sp_state (stp_port_at s p) \<noteq> STP_DISABLED
     then let root = stp_is_root_bridge s;
              s = stp_set_port_state p STP_DISABLED (stp_become_designated_port p s);
              s = update_port p (\<lambda>x. x\<lparr> sp_topology_change_ack := False, sp_config_pending := False,
                    sp_message_age_timer := stp_stop_timer (sp_message_age_timer x),
                    sp_forward_delay_timer := stp_stop_timer (sp_forward_delay_timer x) \<rparr>) s
          in update_port p (\<lambda>x. x\<lparr> sp_aux := None \<rparr>) (stp_reconfigure root s)
     else s)"

definition stp_port_enable :: "nat \<Rightarrow> stp \<Rightarrow> stp" where
  "stp_port_enable p s =
    (if sp_state (stp_port_at s p) = STP_DISABLED
     then stp_port_state_selection (stp_initialize_port p STP_BLOCKING s)
     else s)"

definition stp_port_set_priority :: "nat \<Rightarrow> u8 \<Rightarrow> stp \<Rightarrow> stp" where
  "stp_port_set_priority p new_priority s =
    (let new_port_id = (sp_port_id (stp_port_at s p) AND 0xff) OR push_bit 8 (ucast new_priority)
     in if sp_port_id (stp_port_at s p) \<noteq> new_port_id
        then let s = (if stp_is_designated_port s p
                      then update_port p (\<lambda>x. x\<lparr> sp_designated_port := new_port_id \<rparr>) s else s);
                 s = update_port p (\<lambda>x. x\<lparr> sp_port_id := new_port_id \<rparr>) s
             in if st_bridge_id s = sp_designated_bridge (stp_port_at s p) \<and>
                   sp_port_id (stp_port_at s p) < sp_designated_port (stp_port_at s p)
                then stp_port_state_selection (stp_become_designated_port p s)
                else s
        else s)"

definition stp_convert_speed_to_cost :: "nat \<Rightarrow> u16" where
  "stp_convert_speed_to_cost speed =
    (if speed \<ge> 10000 then 2 else if speed \<ge> 1000 then 4 else if speed \<ge> 100 then 19
     else if speed \<ge> 16 then 62 else if speed \<ge> 10 then 100 else if speed \<ge> 4 then 250 else 19)"

definition stp_port_set_path_cost :: "nat \<Rightarrow> u16 \<Rightarrow> stp \<Rightarrow> stp" where
  "stp_port_set_path_cost p path_cost s =
    (if sp_path_cost (stp_port_at s p) \<noteq> ucast path_cost
     then stp_port_state_selection (stp_configuration_update
            (update_port p (\<lambda>x. x\<lparr> sp_path_cost := ucast path_cost \<rparr>) s))
     else s)"

definition stp_port_set_speed :: "nat \<Rightarrow> nat \<Rightarrow> stp \<Rightarrow> stp" where
  "stp_port_set_speed p speed s = stp_port_set_path_cost p (stp_convert_speed_to_cost speed) s"

definition stp_port_enable_change_detection :: "nat \<Rightarrow> stp \<Rightarrow> stp" where
  "stp_port_enable_change_detection p s = update_port p (\<lambda>x. x\<lparr> sp_change_detection_enabled := True \<rparr>) s"

definition stp_port_disable_change_detection :: "nat \<Rightarrow> stp \<Rightarrow> stp" where
  "stp_port_disable_change_detection p s = update_port p (\<lambda>x. x\<lparr> sp_change_detection_enabled := False \<rparr>) s"

text \<open>The entities of the process, and the control command that reports a topology change.\<close>

definition stp_find :: "string \<Rightarrow> stp list \<Rightarrow> nat option" where
  "stp_find name all_stps = find (\<lambda>i. st_name (all_stps ! i) = name) [0..<length all_stps]"

definition stp_unixctl_tcn :: "string list \<Rightarrow> stp list \<Rightarrow> stp list \<times> (string + string)" where
  "stp_unixctl_tcn argv all_stps =
    (if length argv > 1
     then case stp_find (argv ! 1) all_stps of
            None \<Rightarrow> (all_stps, Inl ''no such stp object'')
          | Some i \<Rightarrow> (all_stps[i := stp_topology_change_detection (all_stps ! i)], Inr ''OK'')
     else (map stp_topology_change_detection all_stps, Inr ''OK''))"

end
