(* ===== verification/Stp_Inv.thy ===== *)
theory Stp_Inv
  imports Stp
begin

text \<open>
  The invariant of the spanning tree entity of \<^verbatim>\<open>Stp\<close> and that every call a client can make keeps
  it.  The functions that only send BPDUs or note topology changes leave the \<open>quiet\<close> part of the
  entity alone; the state selection leaves its \<open>core\<close>, what the port roles depend on, alone.
\<close>

section \<open>Updates of one port\<close>

lemma st_ports_update_port [frame_simps]:
  "st_ports (update_port p f s) = (st_ports s)[p := f (st_ports s ! p)]"
  by (simp add: update_port_def)

lemma update_port_frame [frame_simps]:
  "st_bridge_id (update_port p f s) = st_bridge_id s"
  "st_designated_root (update_port p f s) = st_designated_root s"
  "st_root_path_cost (update_port p f s) = st_root_path_cost s"
  "st_root_port (update_port p f s) = st_root_port s"
  "st_first_changed_port (update_port p f s) = st_first_changed_port s"
  "st_out (update_port p f s) = st_out s"
  "st_max_age (update_port p f s) = st_max_age s"
  "st_hello_time (update_port p f s) = st_hello_time s"
  "st_forward_delay (update_port p f s) = st_forward_delay s"
  "st_bridge_max_age (update_port p f s) = st_bridge_max_age s"
  "st_bridge_hello_time (update_port p f s) = st_bridge_hello_time s"
  "st_bridge_forward_delay (update_port p f s) = st_bridge_forward_delay s"
  by (simp_all add: update_port_def)

lemma set_state_and_flag:
  "x\<lparr> sp_state_changed := True, sp_state := v \<rparr> = x\<lparr> sp_state := v, sp_state_changed := True \<rparr>"
  "sp_state_changed x \<Longrightarrow> x\<lparr> sp_state := v, sp_state_changed := True \<rparr> = x\<lparr> sp_state := v \<rparr>"
  "sp_state x = v \<Longrightarrow> x\<lparr> sp_state := v, sp_state_changed := sp_state_changed x \<rparr> = x\<lparr> sp_state := v \<rparr>"
  by (cases x; simp)+

lemma st_ports_set_port_state [frame_simps]:
  "p < length (st_ports s) \<Longrightarrow> st_ports (stp_set_port_state p v s) = (st_ports s)[p := (stp_port_at s p)\<lparr>
     sp_state := v, sp_state_changed := sp_state_changed (stp_port_at s p) \<or> v \<noteq> sp_state (stp_port_at s p) \<rparr>]"
  by (simp add: stp_set_port_state_def update_port_def seq_change_def Let_def set_state_and_flag)

lemma set_port_state_frame [frame_simps]:
  "st_bridge_id (stp_set_port_state p v s) = st_bridge_id s"
  "st_designated_root (stp_set_port_state p v s) = st_designated_root s"
  "st_root_path_cost (stp_set_port_state p v s) = st_root_path_cost s"
  "st_root_port (stp_set_port_state p v s) = st_root_port s"
  "st_out (stp_set_port_state p v s) = st_out s"
  "st_first_changed_port (stp_set_port_state p v s) =
    (if v \<noteq> sp_state (stp_port_at s p) \<and> \<not> sp_state_changed (stp_port_at s p)
     then min p (st_first_changed_port s) else st_first_changed_port s)"
  by (simp_all add: stp_set_port_state_def update_port_def seq_change_def Let_def)

lemma seq_change_frame [frame_simps]:
  "st_ports (seq_change s) = st_ports s"
  "st_bridge_id (seq_change s) = st_bridge_id s"
  "st_designated_root (seq_change s) = st_designated_root s"
  "st_root_path_cost (seq_change s) = st_root_path_cost s"
  "st_root_port (seq_change s) = st_root_port s"
  "st_first_changed_port (seq_change s) = st_first_changed_port s"
  "st_out (seq_change s) = st_out s"
  by (simp_all add: seq_change_def)

text \<open>The rule for the port loop: an invariant indexed by the number of ports visited.\<close>

lemma for_each_enabled_port_rule:
  assumes "I 0 s"
    and step: "\<And>p t. p < n \<Longrightarrow> I p t \<Longrightarrow> sp_state (stp_port_at t p) \<noteq> STP_DISABLED \<Longrightarrow> I (Suc p) (body p t)"
    and skip: "\<And>p t. p < n \<Longrightarrow> I p t \<Longrightarrow> sp_state (stp_port_at t p) = STP_DISABLED \<Longrightarrow> I (Suc p) t"
    and n: "length (st_ports s) = n"
  shows "I n (for_each_enabled_port body s)"
proof -
  let ?b = "\<lambda>p s. if sp_state (stp_port_at s p) \<noteq> STP_DISABLED then body p s else s"
  have "m \<le> n \<Longrightarrow> I m (fold ?b [0..<m] s)" for m
  proof (induction m)
    case 0
    then show ?case using assms(1) by simp
  next
    case (Suc m)
    then show ?case using step [of m "fold ?b [0..<m] s"] skip [of m "fold ?b [0..<m] s"] by simp
  qed
  then show ?thesis using n unfolding for_each_enabled_port_def by simp
qed

lemma for_each_enabled_port_inv:
  assumes "I s" and "\<And>p t. p < n \<Longrightarrow> I t \<Longrightarrow> sp_state (stp_port_at t p) \<noteq> STP_DISABLED \<Longrightarrow> I (body p t)"
    and "length (st_ports s) = n"
  shows "I (for_each_enabled_port body s)"
  using for_each_enabled_port_rule [of "\<lambda>_. I"] assms by blast

section \<open>What the sending functions leave alone\<close>

definition quiet_port :: "stp_port \<Rightarrow> stp_port" where
  "quiet_port x = x\<lparr> sp_topology_change_ack := False, sp_config_pending := False,
    sp_hold_timer := timer_zero, sp_tx_count := 0 \<rparr>"

definition quiet :: "stp \<Rightarrow> stp" where
  "quiet s = s\<lparr> st_max_age := 0, st_hello_time := 0, st_forward_delay := 0,
    st_topology_change_detected := False, st_topology_change := False, st_hello_timer := timer_zero,
    st_tcn_timer := timer_zero, st_topology_change_timer := timer_zero,
    st_ports := map quiet_port (st_ports s), st_fdb_needs_flush := False, st_out := [], st_seq := 0 \<rparr>"

named_theorems quiet_simps

lemma map_list_update_same: "g (f (xs ! p)) = g (xs ! p) \<Longrightarrow> map g (xs[p := f (xs ! p)]) = map g xs"
  by (cases "p < length xs") (simp_all add: map_update list_update_same_conv list_update_beyond)

lemma quiet_update_port [quiet_simps]:
  "quiet_port (f (stp_port_at s p)) = quiet_port (stp_port_at s p) \<Longrightarrow> quiet (update_port p f s) = quiet s"
  by (simp add: quiet_def update_port_def map_list_update_same)

lemma quiet_send_bpdu [quiet_simps]: "quiet (stp_send_bpdu p b s) = quiet s"
  unfolding stp_send_bpdu_def Let_def
  by (subst quiet_update_port) (simp add: quiet_port_def, simp add: quiet_def)

lemma quiet_transmit_config [quiet_simps]: "quiet (stp_transmit_config p s) = quiet s"
  unfolding stp_transmit_config_def Let_def by (simp add: quiet_simps quiet_port_def)

lemma quiet_config_bpdu_generation [quiet_simps]: "quiet (stp_config_bpdu_generation s) = quiet s"
  unfolding stp_config_bpdu_generation_def
  by (rule for_each_enabled_port_inv [where n = "length (st_ports s)"]) (auto simp: quiet_simps)

lemma quiet_transmit_tcn [quiet_simps]: "quiet (stp_transmit_tcn s) = quiet s"
  by (simp add: stp_transmit_tcn_def quiet_simps split: option.splits)

lemma quiet_bridge_update [quiet_simps]:
  "quiet (s\<lparr> st_hello_timer := t \<rparr>) = quiet s"
  "quiet (s\<lparr> st_tcn_timer := t \<rparr>) = quiet s"
  "quiet (s\<lparr> st_topology_change_timer := t \<rparr>) = quiet s"
  "quiet (s\<lparr> st_topology_change := b \<rparr>) = quiet s"
  "quiet (s\<lparr> st_topology_change_detected := b \<rparr>) = quiet s"
  "quiet (s\<lparr> st_fdb_needs_flush := b \<rparr>) = quiet s"
  "quiet (seq_change s) = quiet s"
  "quiet (stp_use_bridge_times s) = quiet s"
  "quiet (stp_record_config_timeout_values c s) = quiet s"
  by (simp_all add: quiet_def seq_change_def stp_use_bridge_times_def stp_record_config_timeout_values_def)

lemma quiet_topology_change_detection [quiet_simps]: "quiet (stp_topology_change_detection s) = quiet s"
proof -
  have "quiet (s\<lparr> st_topology_change := True, st_topology_change_timer := t \<rparr>) = quiet s" for t
    by (simp add: quiet_def)
  moreover have "quiet (t\<lparr> st_fdb_needs_flush := a, st_topology_change_detected := b \<rparr>) = quiet t" for a b t
    by (simp add: quiet_def)
  ultimately show ?thesis
    by (simp add: stp_topology_change_detection_def Let_def quiet_simps)
qed

lemma quiet_topology_change_acknowledged [quiet_simps]:
  "quiet (stp_topology_change_acknowledged s) = quiet s"
  "quiet (stp_acknowledge_topology_change p s) = quiet s"
  "quiet (stp_topology_change_timer_expiry s) = quiet s"
  by (simp add: stp_topology_change_acknowledged_def quiet_def)
    (simp add: stp_acknowledge_topology_change_def quiet_simps quiet_port_def,
     simp add: stp_topology_change_timer_expiry_def quiet_def)

lemma quiet_received_config [quiet_simps]:
  "quiet (stp_resign_root s) = quiet s"
  "quiet (stp_root_port_heard c s) = quiet s"
  by (simp_all add: stp_resign_root_def stp_root_port_heard_def Let_def quiet_simps)

lemma quiet_become_root_bridge [quiet_simps]: "quiet (stp_become_root_bridge s) = quiet s"
  by (simp add: stp_become_root_bridge_def Let_def quiet_simps)

lemma quiet_timer_expiry [quiet_simps]:
  "quiet (stp_hello_timer_expiry s) = quiet s"
  "quiet (stp_tcn_timer_expiry s) = quiet s"
  "quiet (stp_hold_timer_expiry p s) = quiet s"
  by (simp_all add: stp_hello_timer_expiry_def stp_tcn_timer_expiry_def stp_hold_timer_expiry_def quiet_simps)

lemma quiet_tick_bridge [quiet_simps]:
  "quiet (stp_tick_hello e s) = quiet s"
  "quiet (stp_tick_tcn e s) = quiet s"
  "quiet (stp_tick_topology_change e s) = quiet s"
  by (simp_all add: stp_tick_hello_def stp_tick_tcn_def stp_tick_topology_change_def Let_def case_prod_beta quiet_simps)

lemma quiet_tick_hold [quiet_simps]: "quiet (stp_tick_hold e p s) = quiet s"
  by (simp add: stp_tick_hold_def Let_def case_prod_beta quiet_simps quiet_port_def)

section \<open>The invariant\<close>

definition core_port :: "stp_port \<Rightarrow> u16 \<times> u32 \<times> u64 \<times> u32 \<times> u64 \<times> u16 \<times> bool" where
  "core_port x = (sp_port_id x, sp_path_cost x, sp_designated_root x, sp_designated_cost x,
    sp_designated_bridge x, sp_designated_port x, sp_state x \<noteq> STP_DISABLED)"

definition core :: "stp \<Rightarrow> u64 \<times> u64 \<times> u32 \<times> nat option \<times> (u16 \<times> u32 \<times> u64 \<times> u32 \<times> u64 \<times> u16 \<times> bool) list" where
  "core s = (st_bridge_id s, st_designated_root s, st_root_path_cost s, st_root_port s, map core_port (st_ports s))"

definition stp_root_ok :: "stp \<Rightarrow> bool" where
  "stp_root_ok s \<longleftrightarrow>
    (case st_root_port s of
       None \<Rightarrow> st_designated_root s = st_bridge_id s \<and> st_root_path_cost s = 0
     | Some r \<Rightarrow> r < length (st_ports s) \<and> sp_state (stp_port_at s r) \<noteq> STP_DISABLED \<and>
                st_designated_root s < st_bridge_id s)"

definition stp_port_ok :: "stp \<Rightarrow> nat \<Rightarrow> bool" where
  "stp_port_ok s p \<longleftrightarrow> sp_state (stp_port_at s p) \<in> {STP_DISABLED, STP_BLOCKING} \<or>
    st_root_port s = Some p \<or> stp_is_designated_port s p"

definition stp_timer_ok :: "stp_port \<Rightarrow> bool" where
  "stp_timer_ok x \<longleftrightarrow> tm_active (sp_forward_delay_timer x) = (sp_state x \<in> {STP_LISTENING, STP_LEARNING})"

text \<open>
  For every port: its forward delay timer runs in the two states it times; a change of its state not
  yet reported is at or after \<open>first_changed_port\<close>; the low byte of its identifier is its number.
\<close>

definition stp_base_ok :: "stp \<Rightarrow> bool" where
  "stp_base_ok s \<longleftrightarrow> length (st_ports s) = STP_MAX_PORTS \<and> st_first_changed_port s \<le> STP_MAX_PORTS \<and>
    (\<forall>p<STP_MAX_PORTS. stp_timer_ok (stp_port_at s p) \<and>
       (sp_state_changed (stp_port_at s p) \<longrightarrow> st_first_changed_port s \<le> p) \<and>
       sp_port_id (stp_port_at s p) AND 0xff = of_nat (Suc p))"

definition stp_inv :: "stp \<Rightarrow> bool" where
  "stp_inv s \<longleftrightarrow> stp_base_ok s \<and> stp_root_ok s \<and> (\<forall>p<length (st_ports s). stp_port_ok s p)"

text \<open>All of it can be read off the quiet part of the entity.\<close>

lemma quiet_port_fields:
  "sp_state (quiet_port x) = sp_state x"
  "sp_forward_delay_timer (quiet_port x) = sp_forward_delay_timer x"
  "sp_state_changed (quiet_port x) = sp_state_changed x"
  "sp_port_id (quiet_port x) = sp_port_id x"
  "sp_designated_bridge (quiet_port x) = sp_designated_bridge x"
  "sp_designated_port (quiet_port x) = sp_designated_port x"
  "core_port (quiet_port x) = core_port x"
  by (simp_all add: quiet_port_def core_port_def)

lemma quiet_fields:
  "st_ports (quiet s) = map quiet_port (st_ports s)"
  "st_root_port (quiet s) = st_root_port s"
  "st_designated_root (quiet s) = st_designated_root s"
  "st_bridge_id (quiet s) = st_bridge_id s"
  "st_root_path_cost (quiet s) = st_root_path_cost s"
  "st_first_changed_port (quiet s) = st_first_changed_port s"
  by (simp_all add: quiet_def)

lemma core_quiet: "core (quiet s) = core s"
  by (simp add: core_def quiet_fields quiet_port_fields)

lemma base_ok_quiet: "stp_base_ok (quiet s) = stp_base_ok s"
  by (simp add: stp_base_ok_def stp_timer_ok_def quiet_fields quiet_port_fields cong: conj_cong)

lemma inv_quiet: "stp_inv (quiet s) = stp_inv s"
  by (auto simp: stp_inv_def base_ok_quiet stp_root_ok_def stp_port_ok_def stp_is_designated_port_def
      quiet_fields quiet_port_fields split: option.splits)

lemma quiet_cong:
  assumes "quiet s = quiet t"
  shows "stp_inv s = stp_inv t" "stp_base_ok s = stp_base_ok t" "core s = core t"
    "length (st_ports s) = length (st_ports t)"
    "p < length (st_ports t) \<Longrightarrow> quiet_port (stp_port_at s p) = quiet_port (stp_port_at t p)"
proof -
  show "stp_inv s = stp_inv t" "stp_base_ok s = stp_base_ok t" "core s = core t"
    using assms inv_quiet [of s] inv_quiet [of t] base_ok_quiet [of s] base_ok_quiet [of t]
      core_quiet [of s] core_quiet [of t] by simp_all
  have ports: "map quiet_port (st_ports s) = map quiet_port (st_ports t)"
    using assms quiet_fields(1) [of s] quiet_fields(1) [of t] by simp
  then show len: "length (st_ports s) = length (st_ports t)"
    by (rule map_eq_imp_length_eq)
  show "p < length (st_ports t) \<Longrightarrow> quiet_port (stp_port_at s p) = quiet_port (stp_port_at t p)"
    using ports len by (metis nth_map)
qed

lemma core_cong:
  assumes "core s = core t"
  shows "stp_root_ok s = stp_root_ok t" "length (st_ports s) = length (st_ports t)"
    "p < length (st_ports t) \<Longrightarrow> core_port (stp_port_at s p) = core_port (stp_port_at t p)"
    "p < length (st_ports t) \<Longrightarrow> stp_is_designated_port s p = stp_is_designated_port t p"
    "st_root_port s = st_root_port t" "st_bridge_id s = st_bridge_id t"
    "st_designated_root s = st_designated_root t"
    "p < length (st_ports t) \<Longrightarrow> (sp_state (stp_port_at s p) = STP_DISABLED) = (sp_state (stp_port_at t p) = STP_DISABLED)"
proof -
  have ports: "map core_port (st_ports s) = map core_port (st_ports t)"
    and rest: "st_root_port s = st_root_port t" "st_bridge_id s = st_bridge_id t"
      "st_designated_root s = st_designated_root t" "st_root_path_cost s = st_root_path_cost t"
    using assms by (simp_all add: core_def)
  show len: "length (st_ports s) = length (st_ports t)"
    using ports by (rule map_eq_imp_length_eq)
  show port: "core_port (stp_port_at s p) = core_port (stp_port_at t p)" if "p < length (st_ports t)" for p
    using ports len that by (metis nth_map)
  show "p < length (st_ports t) \<Longrightarrow> stp_is_designated_port s p = stp_is_designated_port t p"
    using port [of p] rest by (simp add: core_port_def stp_is_designated_port_def)
  show "p < length (st_ports t) \<Longrightarrow> (sp_state (stp_port_at s p) = STP_DISABLED) = (sp_state (stp_port_at t p) = STP_DISABLED)"
    using port [of p] by (auto simp: core_port_def)
  show "stp_root_ok s = stp_root_ok t"
    using port rest len by (auto simp: stp_root_ok_def core_port_def split: option.splits)
  show "st_root_port s = st_root_port t" "st_bridge_id s = st_bridge_id t"
    "st_designated_root s = st_designated_root t" by (rule rest)+
qed

text \<open>Updates of one port and of its state.\<close>

lemma core_update_port [frame_simps]:
  "core_port (f (stp_port_at s p)) = core_port (stp_port_at s p) \<Longrightarrow> core (update_port p f s) = core s"
  by (simp add: core_def frame_simps map_list_update_same)

lemma core_seq_change [frame_simps]: "core (seq_change s) = core s"
  by (simp add: core_def frame_simps)

lemma core_set_port_state [frame_simps]:
  assumes "p < length (st_ports s)" "(v \<noteq> STP_DISABLED) = (sp_state (stp_port_at s p) \<noteq> STP_DISABLED)"
  shows "core (stp_set_port_state p v s) = core s"
  using assms map_list_update_same [of core_port "\<lambda>x. x\<lparr> sp_state := v, sp_state_changed :=
    sp_state_changed x \<or> v \<noteq> sp_state x \<rparr>" "st_ports s" p]
  by (simp add: core_def frame_simps core_port_def)

lemma base_ok_update_port:
  assumes "stp_base_ok s"
    and "stp_timer_ok (f (stp_port_at s p))"
    and "sp_state_changed (f (stp_port_at s p)) \<Longrightarrow> sp_state_changed (stp_port_at s p)"
    and "sp_port_id (f (stp_port_at s p)) AND 0xff = sp_port_id (stp_port_at s p) AND 0xff"
  shows "stp_base_ok (update_port p f s)"
  using assms by (auto simp: stp_base_ok_def frame_simps nth_list_update_at)

lemma base_ok_update_same:
  assumes "stp_base_ok s"
    and "\<And>x. sp_state (f x) = sp_state x" "\<And>x. tm_active (sp_forward_delay_timer (f x)) = tm_active (sp_forward_delay_timer x)"
    and "\<And>x. sp_state_changed (f x) = sp_state_changed x" "\<And>x. sp_port_id (f x) = sp_port_id x"
  shows "stp_base_ok (update_port p f s)"
proof (cases "p < length (st_ports s)")
  case True
  then have "stp_timer_ok (stp_port_at s p)" using assms(1) by (simp add: stp_base_ok_def)
  then show ?thesis using assms by (intro base_ok_update_port) (simp_all add: stp_timer_ok_def)
qed (use assms(1) in \<open>simp add: update_port_def list_update_beyond\<close>)

lemma base_ok_set_port_state:
  assumes "stp_base_ok s" "p < length (st_ports s)"
    and f: "\<And>x. sp_state x = v \<Longrightarrow> stp_timer_ok (f x)"
      "\<And>x. sp_state_changed (f x) = sp_state_changed x" "\<And>x. sp_port_id (f x) = sp_port_id x"
  shows "stp_base_ok (update_port p f (stp_set_port_state p v s))"
  using assms by (simp add: stp_base_ok_def frame_simps nth_list_update_at min_le_iff_disj)

section \<open>Configuration update and state selection\<close>

lemma root_selection_frame [frame_simps]:
  "st_ports (stp_root_selection s) = st_ports s"
  "st_bridge_id (stp_root_selection s) = st_bridge_id s"
  "st_first_changed_port (stp_root_selection s) = st_first_changed_port s"
  "st_out (stp_root_selection s) = st_out s"
  by (simp_all add: stp_root_selection_def Let_def split: option.splits)

definition stp_root_candidate :: "stp \<Rightarrow> nat \<Rightarrow> bool" where
  "stp_root_candidate s p \<longleftrightarrow> p < length (st_ports s) \<and> sp_state (stp_port_at s p) \<noteq> STP_DISABLED \<and>
    \<not> stp_is_designated_port s p \<and> sp_designated_root (stp_port_at s p) < st_bridge_id s"

lemma better_root_cases:
  "stp_better_root s p root = root \<or>
   (stp_better_root s p root = Some p \<and> sp_state (stp_port_at s p) \<noteq> STP_DISABLED \<and>
    \<not> stp_is_designated_port s p \<and> sp_designated_root (stp_port_at s p) < st_bridge_id s)"
  by (simp add: stp_better_root_def not_le split: option.split)

lemma fold_better_root_candidate:
  "m \<le> length (st_ports s) \<Longrightarrow> fold (stp_better_root s) [0..<m] None = Some r \<Longrightarrow> stp_root_candidate s r"
proof (induction m arbitrary: r)
  case (Suc m)
  then show ?case
    using better_root_cases [of s m "fold (stp_better_root s) [0..<m] None"]
    by (auto simp: stp_root_candidate_def)
qed simp

lemma root_ok_root_selection: "stp_root_ok (stp_root_selection s)"
proof (cases "fold (stp_better_root s) [0..<length (st_ports s)] None")
  case (Some r)
  then have "stp_root_candidate s r" by (rule fold_better_root_candidate [OF order_refl])
  then show ?thesis
    using Some by (simp add: stp_root_ok_def stp_root_selection_def stp_root_candidate_def Let_def)
qed (simp add: stp_root_ok_def stp_root_selection_def Let_def)

lemma become_designated_port_frame [frame_simps]:
  "st_ports (stp_become_designated_port p s) = (st_ports s)[p := (stp_port_at s p)\<lparr>
     sp_designated_root := st_designated_root s, sp_designated_cost := st_root_path_cost s,
     sp_designated_bridge := st_bridge_id s, sp_designated_port := sp_port_id (stp_port_at s p) \<rparr>]"
  "st_bridge_id (stp_become_designated_port p s) = st_bridge_id s"
  "st_designated_root (stp_become_designated_port p s) = st_designated_root s"
  "st_root_path_cost (stp_become_designated_port p s) = st_root_path_cost s"
  "st_root_port (stp_become_designated_port p s) = st_root_port s"
  "st_first_changed_port (stp_become_designated_port p s) = st_first_changed_port s"
  "st_out (stp_become_designated_port p s) = st_out s"
  by (simp_all add: stp_become_designated_port_def frame_simps)

lemma base_ok_become_designated_port:
  "stp_base_ok s \<Longrightarrow> stp_base_ok (stp_become_designated_port p s)"
  unfolding stp_become_designated_port_def by (rule base_ok_update_same) simp_all

lemma root_ok_become_designated_port:
  "stp_root_ok s \<Longrightarrow> stp_root_ok (stp_become_designated_port p s)"
  by (cases "p < length (st_ports s)")
    (auto simp: stp_root_ok_def frame_simps nth_list_update_if list_update_beyond split: option.splits)

lemma designated_port_selection_ok:
  assumes "stp_base_ok s" "stp_root_ok s"
  shows "stp_base_ok (stp_designated_port_selection s) \<and> stp_root_ok (stp_designated_port_selection s)"
  unfolding stp_designated_port_selection_def
  by (rule for_each_enabled_port_inv [where n = "length (st_ports s)"])
    (use assms in \<open>auto intro: base_ok_become_designated_port root_ok_become_designated_port\<close>)

lemma base_ok_frame:
  "st_ports t = st_ports s \<Longrightarrow> st_first_changed_port t = st_first_changed_port s \<Longrightarrow> stp_base_ok t = stp_base_ok s"
  by (simp add: stp_base_ok_def)

lemma configuration_update_ok:
  assumes "stp_base_ok s"
  shows "stp_base_ok (stp_configuration_update s) \<and> stp_root_ok (stp_configuration_update s)"
proof -
  have "stp_base_ok (stp_root_selection s)"
    using assms base_ok_frame [of "stp_root_selection s" s] by (simp add: frame_simps)
  then have "stp_base_ok (stp_designated_port_selection (stp_root_selection s)) \<and>
      stp_root_ok (stp_designated_port_selection (stp_root_selection s))"
    using designated_port_selection_ok root_ok_root_selection by blast
  then show ?thesis
    using quiet_cong(2) [OF quiet_bridge_update(7)] core_cong(1) [OF core_seq_change]
    by (simp add: stp_configuration_update_def)
qed

lemma make_forwarding:
  assumes "stp_base_ok s" "p < length (st_ports s)"
  shows "stp_base_ok (stp_make_forwarding p s)" "core (stp_make_forwarding p s) = core s"
    "q < length (st_ports s) \<Longrightarrow> q \<noteq> p \<Longrightarrow> stp_port_at (stp_make_forwarding p s) q = stp_port_at s q"
proof -
  let ?f = "\<lambda>x. x\<lparr> sp_forward_delay_timer := stp_start_timer 0 \<rparr>"
  have "stp_base_ok (update_port p ?f (stp_set_port_state p STP_LISTENING s))"
    by (rule base_ok_set_port_state [OF assms]) (simp_all add: stp_timer_ok_def stp_start_timer_def)
  then show "stp_base_ok (stp_make_forwarding p s)"
    using assms(1) by (simp add: stp_make_forwarding_def)
  show "core (stp_make_forwarding p s) = core s"
    using assms(2) by (simp add: stp_make_forwarding_def core_update_port core_port_def core_set_port_state)
  show "stp_port_at (stp_make_forwarding p s) q = stp_port_at s q" if "q < length (st_ports s)" "q \<noteq> p"
    using that assms(2) by (simp add: stp_make_forwarding_def frame_simps)
qed

lemma make_blocking:
  assumes "stp_base_ok s" "p < length (st_ports s)"
  shows "stp_base_ok (stp_make_blocking p s)" "core (stp_make_blocking p s) = core s"
    "q < length (st_ports s) \<Longrightarrow> q \<noteq> p \<Longrightarrow> quiet_port (stp_port_at (stp_make_blocking p s) q) = quiet_port (stp_port_at s q)"
    "sp_state (stp_port_at (stp_make_blocking p s) p) \<in> {STP_DISABLED, STP_BLOCKING}"
proof -
  define t where "t = (if sp_state (stp_port_at s p) \<in> {STP_FORWARDING, STP_LEARNING} \<and>
    sp_change_detection_enabled (stp_port_at s p) then stp_topology_change_detection s else s)"
  have q: "quiet t = quiet s" by (simp add: t_def quiet_simps)
  note t = quiet_cong [OF q]
  have st: "sp_state (stp_port_at t p) = sp_state (stp_port_at s p)"
    using t(5) assms(2) by (metis quiet_port_fields(1))
  have eq: "stp_make_blocking p s = (if sp_state (stp_port_at s p) \<notin> {STP_DISABLED, STP_BLOCKING}
    then update_port p (\<lambda>x. x\<lparr> sp_forward_delay_timer := stp_stop_timer (sp_forward_delay_timer x) \<rparr>)
      (stp_set_port_state p STP_BLOCKING t) else s)"
    by (simp add: stp_make_blocking_def t_def Let_def)
  have b: "stp_base_ok t" and p: "p < length (st_ports t)" using t(2,4) assms by simp_all
  let ?u = "update_port p (\<lambda>x. x\<lparr> sp_forward_delay_timer := stp_stop_timer (sp_forward_delay_timer x) \<rparr>)
      (stp_set_port_state p STP_BLOCKING t)"
  have "stp_base_ok ?u"
    by (rule base_ok_set_port_state [OF b p]) (simp_all add: stp_timer_ok_def stp_stop_timer_def)
  then show "stp_base_ok (stp_make_blocking p s)" using assms(1) eq by simp
  have "sp_state (stp_port_at s p) \<noteq> STP_DISABLED \<Longrightarrow> core ?u = core t"
    using p st by (simp add: core_update_port core_port_def core_set_port_state)
  then show "core (stp_make_blocking p s) = core s" using eq t(3) by simp
  have "q \<noteq> p \<Longrightarrow> stp_port_at ?u q = stp_port_at t q"
    using p by (simp add: frame_simps)
  then show "quiet_port (stp_port_at (stp_make_blocking p s) q) = quiet_port (stp_port_at s q)"
    if "q < length (st_ports s)" "q \<noteq> p"
    using that t(5) [of q] eq by simp
  have "sp_state (stp_port_at ?u p) = STP_BLOCKING"
    using p by (simp add: frame_simps)
  then show "sp_state (stp_port_at (stp_make_blocking p s) p) \<in> {STP_DISABLED, STP_BLOCKING}"
    using eq by simp
qed

text \<open>
  How a port's state may change other than by its timers: never into learning or forwarding, and
  never between disabled and enabled.
\<close>

definition calm :: "stp_state \<Rightarrow> stp_state \<Rightarrow> bool" where
  "calm a b \<longleftrightarrow> (a = STP_DISABLED) = (b = STP_DISABLED) \<and> (b \<in> {STP_LEARNING, STP_FORWARDING} \<longrightarrow> a = b)"

definition stp_calm :: "stp \<Rightarrow> stp \<Rightarrow> bool" where
  "stp_calm s t \<longleftrightarrow> length (st_ports t) = length (st_ports s) \<and>
    (\<forall>p<length (st_ports s). calm (sp_state (stp_port_at s p)) (sp_state (stp_port_at t p)))"

lemma stp_calm_refl [simp]: "stp_calm s s"
  by (simp add: stp_calm_def calm_def)

lemma stp_calm_trans: "stp_calm s t \<Longrightarrow> stp_calm t u \<Longrightarrow> stp_calm s u"
  by (auto simp: stp_calm_def calm_def)

lemma stp_calm_quiet:
  assumes "quiet t = quiet s"
  shows "stp_calm s t"
proof -
  have "sp_state (stp_port_at t p) = sp_state (stp_port_at s p)" if "p < length (st_ports s)" for p
    using quiet_cong(5) [OF assms that] by (metis quiet_port_fields(1))
  then show ?thesis using quiet_cong(4) [OF assms] by (simp add: stp_calm_def calm_def)
qed

lemma port_ok_cong:
  assumes "core s = core t" "p < length (st_ports t)" "sp_state (stp_port_at s p) = sp_state (stp_port_at t p)"
  shows "stp_port_ok s p = stp_port_ok t p"
  using core_cong(4,5) [OF assms(1)] assms(2,3) by (simp add: stp_port_ok_def)

lemma make_forwarding_state:
  assumes "p < length (st_ports s)"
  shows "sp_state (stp_port_at (stp_make_forwarding p s) p) =
    (if sp_state (stp_port_at s p) = STP_BLOCKING then STP_LISTENING else sp_state (stp_port_at s p))"
  using assms by (simp add: stp_make_forwarding_def frame_simps)

text \<open>The state that the selection gives to a port, by whether it is a root or designated port.\<close>

definition selected_state :: "bool \<Rightarrow> stp_state \<Rightarrow> stp_state" where
  "selected_state active a =
    (if a = STP_DISABLED then STP_DISABLED
     else if active then if a = STP_BLOCKING then STP_LISTENING else a
     else STP_BLOCKING)"

abbreviation stp_active_port :: "stp \<Rightarrow> nat \<Rightarrow> bool" where
  "stp_active_port s p \<equiv> st_root_port s = Some p \<or> stp_is_designated_port s p"

lemma select_port_state:
  assumes "stp_base_ok s" "p < length (st_ports s)" "sp_state (stp_port_at s p) \<noteq> STP_DISABLED"
  defines "t \<equiv> stp_select_port_state p s"
  shows "stp_base_ok t \<and> core t = core s \<and>
    sp_state (stp_port_at t p) = selected_state (stp_active_port s p) (sp_state (stp_port_at s p)) \<and>
    (\<forall>q<length (st_ports s). q \<noteq> p \<longrightarrow> sp_state (stp_port_at t q) = sp_state (stp_port_at s q))"
proof -
  let ?f = "\<lambda>x. x\<lparr> sp_config_pending := False, sp_topology_change_ack := False \<rparr>"
  let ?g = "\<lambda>x. x\<lparr> sp_message_age_timer := stp_stop_timer (sp_message_age_timer x) \<rparr>"
  let ?s = "\<lambda>f. update_port p f s"
  have base: "stp_base_ok (?s ?f)" "stp_base_ok (?s ?g)"
    using assms(1) by (auto intro!: base_ok_update_same)
  have core: "core (?s ?f) = core s" "core (?s ?g) = core s"
    by (simp_all add: core_update_port core_port_def)
  have len: "p < length (st_ports (?s f))" "length (st_ports (?s f)) = length (st_ports s)" for f
    using assms(2) by (simp_all add: frame_simps)
  have st: "sp_state (stp_port_at (?s ?f) q) = sp_state (stp_port_at s q)"
    "sp_state (stp_port_at (?s ?g) q) = sp_state (stp_port_at s q)" for q
    using assms(2) by (simp_all add: frame_simps nth_list_update_if)
  show ?thesis
  proof (cases "stp_active_port s p")
    case True
    define f :: "stp_port \<Rightarrow> stp_port" where "f = (if st_root_port s = Some p then ?f else ?g)"
    have t: "t = stp_make_forwarding p (?s f)"
      using True by (auto simp: t_def f_def stp_select_port_state_def)
    have f: "stp_base_ok (?s f)" "core (?s f) = core s" "sp_state (stp_port_at (?s f) q) = sp_state (stp_port_at s q)" for q
      using base core st by (simp_all add: f_def)
    note m = make_forwarding [OF f(1) len(1)]
    have "sp_state (stp_port_at t q) = sp_state (stp_port_at s q)" if "q < length (st_ports s)" "q \<noteq> p" for q
      using m(3) [of q] that f(3) [of q] len t by simp
    then show ?thesis
      using True assms(3) m(1,2) f(2,3) t make_forwarding_state [OF len(1)] by (simp add: selected_state_def)
  next
    case False
    then have t: "t = stp_make_blocking p (?s ?f)"
      unfolding t_def stp_select_port_state_def by auto
    note b = make_blocking [OF base(1) len(1)]
    have "sp_state (stp_port_at t q) = sp_state (stp_port_at s q)" if "q < length (st_ports s)" "q \<noteq> p" for q
      using b(3) [of q] that st(1) len t by (metis quiet_port_fields(1))
    moreover have "sp_state (stp_port_at t p) = STP_BLOCKING"
      using b(4) core_cong(8) [OF b(2) len(1)] st(1) [of p] assms(3) t by auto
    ultimately show ?thesis
      using b(1,2) core(1) t False assms(3) by (simp add: selected_state_def)
  qed
qed

lemma port_state_selection_ok:
  assumes "stp_base_ok s"
  defines "t \<equiv> stp_port_state_selection s"
  shows "stp_base_ok t" "core t = core s" "p < length (st_ports s) \<Longrightarrow> stp_port_ok t p" "stp_calm s t"
    "p < length (st_ports s) \<Longrightarrow> sp_state (stp_port_at t p) = selected_state (stp_active_port s p) (sp_state (stp_port_at s p))"
proof -
  let ?n = "length (st_ports s)"
  let ?st = "\<lambda>t p. sp_state (stp_port_at t p)"
  let ?sel = "\<lambda>p. selected_state (stp_active_port s p) (?st s p)"
  let ?I = "\<lambda>m t. stp_base_ok t \<and> core t = core s \<and> (\<forall>p<m. ?st t p = ?sel p) \<and> (\<forall>p<?n. p \<ge> m \<longrightarrow> ?st t p = ?st s p)"
  have I: "?I ?n t"
    unfolding t_def stp_port_state_selection_def
  proof (rule for_each_enabled_port_rule [where I = ?I])
    fix p u
    assume p: "p < ?n" and I: "?I p u"
    then have u: "stp_base_ok u" "core u = core s" "p < length (st_ports u)" "?st u p = ?st s p"
      using core_cong(2) [of u s] by simp_all
    have act: "stp_active_port u p = stp_active_port s p"
      using core_cong(4,5) [OF u(2)] p by simp
    show "?I (Suc p) (stp_select_port_state p u)" if "?st u p \<noteq> STP_DISABLED"
      using select_port_state [OF u(1,3) that] I p u(4) act core_cong(2) [OF u(2)] by (simp add: less_Suc_eq)
    show "?I (Suc p) u" if "?st u p = STP_DISABLED"
      using I u(4) that p by (simp add: less_Suc_eq selected_state_def)
  qed (use assms(1) in simp_all)
  then have c: "core t = core s" by blast
  then show "stp_base_ok t" "core t = core s" using I by simp_all
  show sel: "?st t p = ?sel p" if "p < ?n" for p using I that by simp
  show "stp_port_ok t p" if "p < ?n"
    using sel [OF that] core_cong(4,5) [OF c] that
    by (auto simp: stp_port_ok_def selected_state_def split: if_splits)
  show "stp_calm s t"
    using sel core_cong(2) [OF c] by (auto simp: stp_calm_def calm_def selected_state_def)
qed

lemma states_update_port:
  "(\<And>x. sp_state (f x) = sp_state x) \<Longrightarrow> map sp_state (st_ports (update_port p f s)) = map sp_state (st_ports s)"
  by (simp add: st_ports_update_port map_list_update_same)

lemma designated_port_selection_states:
  "map sp_state (st_ports (stp_designated_port_selection s)) = map sp_state (st_ports s)"
  unfolding stp_designated_port_selection_def
  by (rule for_each_enabled_port_inv [where n = "length (st_ports s)"])
    (simp_all add: stp_become_designated_port_def states_update_port)

lemma configuration_update_calm: "stp_calm s (stp_configuration_update s)"
proof -
  have "map sp_state (st_ports (stp_configuration_update s)) = map sp_state (st_ports s)"
    by (simp add: stp_configuration_update_def designated_port_selection_states frame_simps)
  then show ?thesis
    unfolding stp_calm_def calm_def by (metis length_map nth_map)
qed

lemma update_and_select_ok:
  assumes "stp_base_ok s"
  shows "stp_inv (stp_port_state_selection (stp_configuration_update s))"
    "stp_calm s (stp_port_state_selection (stp_configuration_update s))"
proof -
  note c = configuration_update_ok [OF assms]
  note t = port_state_selection_ok [OF conjunct1 [OF c]]
  show "stp_inv (stp_port_state_selection (stp_configuration_update s))"
    using c t(1,3) core_cong(1,2) [OF t(2)] by (simp add: stp_inv_def)
  show "stp_calm s (stp_port_state_selection (stp_configuration_update s))"
    using configuration_update_calm t(4) by (rule stp_calm_trans)
qed

lemma reconfigure_ok:
  assumes "stp_base_ok s"
  shows "stp_inv (stp_reconfigure root s)" "stp_calm s (stp_reconfigure root s)"
  using update_and_select_ok [OF assms] quiet_cong(1) [OF quiet_become_root_bridge]
    stp_calm_trans [OF _ stp_calm_quiet [OF quiet_become_root_bridge]]
  by (simp_all add: stp_reconfigure_def Let_def)

lemma inv_update_same:
  assumes "stp_inv s"
    and "\<And>x. core_port (f x) = core_port x" "\<And>x. sp_state (f x) = sp_state x"
      "\<And>x. tm_active (sp_forward_delay_timer (f x)) = tm_active (sp_forward_delay_timer x)"
      "\<And>x. sp_state_changed (f x) = sp_state_changed x"
  shows "stp_inv (update_port p f s)"
proof -
  have c: "core (update_port p f s) = core s" using assms(2) by (rule core_update_port)
  have "sp_port_id (f x) = sp_port_id x" for x using assms(2) [of x] by (simp add: core_port_def)
  then have "stp_base_ok (update_port p f s)"
    using assms by (intro base_ok_update_same) (simp_all add: stp_inv_def)
  moreover have "stp_port_ok (update_port p f s) q" if "q < length (st_ports s)" for q
    using that assms port_ok_cong [OF c that] by (simp add: stp_inv_def frame_simps nth_list_update_at)
  ultimately show ?thesis
    using assms(1) core_cong(1) [OF c] by (simp add: stp_inv_def frame_simps)
qed

lemma calm_update_same: "(\<And>x. sp_state (f x) = sp_state x) \<Longrightarrow> stp_calm s (update_port p f s)"
  by (simp add: stp_calm_def calm_def frame_simps nth_list_update_at)

section \<open>Timers\<close>

lemma tick_message_age_ok:
  assumes "stp_inv s"
  shows "stp_inv (stp_tick_message_age e p s) \<and> stp_calm s (stp_tick_message_age e p s)"
proof -
  define tm where "tm = fst (stp_timer_expired (sp_message_age_timer (stp_port_at s p)) e (st_max_age s))"
  let ?u = "update_port p (\<lambda>x. x\<lparr> sp_message_age_timer := tm \<rparr>) s"
  let ?d = "stp_become_designated_port p ?u"
  have u: "stp_inv ?u" using assms by (intro inv_update_same) (simp_all add: core_port_def)
  have d: "stp_base_ok ?d" using u by (intro base_ok_become_designated_port) (simp add: stp_inv_def)
  have "stp_calm s ?u" by (rule calm_update_same) simp
  also have "stp_calm ?u ?d" unfolding stp_become_designated_port_def by (rule calm_update_same) simp
  finally (stp_calm_trans) have sd: "stp_calm s ?d" .
  have eq: "stp_tick_message_age e p s = ?u \<or> stp_tick_message_age e p s = stp_reconfigure (stp_is_root_bridge ?u) ?d"
    by (simp add: stp_tick_message_age_def stp_message_age_timer_expiry_def Let_def tm_def case_prod_beta)
  show ?thesis
    using eq u \<open>stp_calm s ?u\<close> reconfigure_ok(1) [OF d] stp_calm_trans [OF sd reconfigure_ok(2) [OF d]] by metis
qed

lemma base_ok_advance:
  assumes "stp_base_ok s" "p < length (st_ports s)" "\<not> tm_active tm"
  defines "u \<equiv> update_port p (\<lambda>x. x\<lparr> sp_forward_delay_timer := tm \<rparr>) s"
  shows "stp_base_ok (stp_set_port_state p STP_FORWARDING u)"
    "stp_base_ok (update_port p (\<lambda>x. x\<lparr> sp_forward_delay_timer := stp_start_timer 0 \<rparr>) (stp_set_port_state p STP_LEARNING u))"
  using assms by (simp_all add: u_def stp_base_ok_def frame_simps nth_list_update_at min_le_iff_disj
      stp_timer_ok_def stp_start_timer_def)

text \<open>The forward delay timer: listening to learning, or learning to forwarding, of one port.\<close>

definition advance :: "stp_state \<Rightarrow> stp_state \<Rightarrow> bool" where
  "advance a b \<longleftrightarrow> b = a \<or> (a = STP_LISTENING \<and> b = STP_LEARNING) \<or> (a = STP_LEARNING \<and> b = STP_FORWARDING)"

definition stp_advances :: "nat \<Rightarrow> stp \<Rightarrow> stp \<Rightarrow> bool" where
  "stp_advances p s t \<longleftrightarrow> stp_base_ok t \<and> core t = core s \<and>
    advance (sp_state (stp_port_at s p)) (sp_state (stp_port_at t p)) \<and>
    (\<forall>q<length (st_ports s). q \<noteq> p \<longrightarrow> sp_state (stp_port_at t q) = sp_state (stp_port_at s q))"

lemma stp_advances_inv:
  assumes "stp_inv s" "p < length (st_ports s)" "stp_advances p s t"
  shows "stp_inv t"
proof -
  have c: "core t = core s" using assms(3) by (simp add: stp_advances_def)
  have "stp_port_ok t q" if q: "q < length (st_ports s)" for q
    using assms q core_cong(4,5) [OF c]
    by (cases "q = p") (auto simp: stp_inv_def stp_port_ok_def advance_def stp_advances_def)
  then show ?thesis
    using assms(1,3) core_cong(1,2) [OF c] by (simp add: stp_inv_def stp_advances_def)
qed

lemma stp_advances_quiet:
  assumes "stp_advances p s t" "quiet u = quiet t" "p < length (st_ports s)"
  shows "stp_advances p s u"
proof -
  have c: "core t = core s" using assms(1) by (simp add: stp_advances_def)
  have "sp_state (stp_port_at u q) = sp_state (stp_port_at t q)" if "q < length (st_ports s)" for q
    using quiet_cong(5) [OF assms(2), of q] that core_cong(2) [OF c] by (metis quiet_port_fields(1))
  then show ?thesis
    using assms(1,3) quiet_cong(2,3) [OF assms(2)] by (simp add: stp_advances_def)
qed

lemma forward_delay_timer_expiry_advances:
  assumes "stp_base_ok s" "p < length (st_ports s)" "\<not> tm_active tm"
    and "sp_state (stp_port_at s p) \<in> {STP_LISTENING, STP_LEARNING}"
  defines "u \<equiv> update_port p (\<lambda>x. x\<lparr> sp_forward_delay_timer := tm \<rparr>) s"
  shows "stp_advances p s (stp_forward_delay_timer_expiry p u)"
proof -
  have pu: "p < length (st_ports u)" using assms(2) by (simp add: u_def frame_simps)
  have su: "sp_state (stp_port_at u q) = sp_state (stp_port_at s q)" for q
    using assms(2) by (simp add: u_def frame_simps nth_list_update_if)
  have cu: "core u = core s" unfolding u_def by (rule core_update_port) (simp add: core_port_def)
  note base = base_ok_advance [OF assms(1-3), folded u_def]
  show ?thesis
  proof (cases "sp_state (stp_port_at s p) = STP_LISTENING")
    case True
    then have "stp_forward_delay_timer_expiry p u = update_port p
        (\<lambda>x. x\<lparr> sp_forward_delay_timer := stp_start_timer 0 \<rparr>) (stp_set_port_state p STP_LEARNING u)"
      using su by (simp add: stp_forward_delay_timer_expiry_def)
    then show ?thesis
      using True base(2) pu su cu
      by (simp add: stp_advances_def advance_def frame_simps core_port_def nth_list_update_if)
  next
    case False
    with assms(4) have l: "sp_state (stp_port_at s p) = STP_LEARNING" by simp
    let ?f = "stp_set_port_state p STP_FORWARDING u"
    have "stp_advances p s ?f"
      using l base(1) pu su cu by (simp add: stp_advances_def advance_def frame_simps core_port_def nth_list_update_if)
    moreover have "quiet (stp_forward_delay_timer_expiry p u) = quiet ?f"
      using l su [of p] by (simp add: stp_forward_delay_timer_expiry_def Let_def quiet_simps)
    ultimately show ?thesis using stp_advances_quiet assms(2) by blast
  qed
qed

lemma tick_forward_delay_advances:
  assumes "stp_inv s" "p < length (st_ports s)"
  shows "stp_advances p s (stp_tick_forward_delay e p s)"
proof -
  let ?tm = "sp_forward_delay_timer (stp_port_at s p)"
  obtain tm expired where te: "stp_timer_expired ?tm e (st_forward_delay s) = (tm, expired)" by fastforce
  define u where "u = update_port p (\<lambda>x. x\<lparr> sp_forward_delay_timer := tm \<rparr>) s"
  have t: "stp_tick_forward_delay e p s = (if expired then stp_forward_delay_timer_expiry p u else u)"
    by (simp add: stp_tick_forward_delay_def u_def te Let_def)
  have base: "stp_base_ok s" using assms(1) by (simp add: stp_inv_def)
  then have tmok: "tm_active ?tm = (sp_state (stp_port_at s p) \<in> {STP_LISTENING, STP_LEARNING})"
    using assms(2) by (simp add: stp_base_ok_def stp_timer_ok_def)
  show ?thesis
  proof (cases expired)
    case True
    then have "\<not> tm_active tm" "tm_active ?tm"
      using te by (auto simp: stp_timer_expired_def Let_def split: if_splits)
    then show ?thesis
      using forward_delay_timer_expiry_advances [OF base assms(2)] tmok t True u_def by simp
  next
    case False
    then have "tm_active tm = tm_active ?tm"
      using te by (auto simp: stp_timer_expired_def Let_def split: if_splits)
    then have "stp_base_ok u"
      unfolding u_def using base tmok by (intro base_ok_update_port) (simp_all add: stp_timer_ok_def)
    moreover have "core u = core s" unfolding u_def by (rule core_update_port) (simp add: core_port_def)
    moreover have "sp_state (stp_port_at u q) = sp_state (stp_port_at s q)" for q
      using assms(2) by (simp add: u_def frame_simps nth_list_update_if)
    ultimately show ?thesis using False t by (simp add: stp_advances_def advance_def)
  qed
qed

lemma inv_frame:
  "st_ports t = st_ports s \<Longrightarrow> st_first_changed_port t = st_first_changed_port s \<Longrightarrow>
   st_root_port t = st_root_port s \<Longrightarrow> st_bridge_id t = st_bridge_id s \<Longrightarrow>
   st_designated_root t = st_designated_root s \<Longrightarrow> st_root_path_cost t = st_root_path_cost s \<Longrightarrow> stp_inv t = stp_inv s"
  by (simp add: stp_inv_def stp_base_ok_def stp_root_ok_def stp_port_ok_def stp_is_designated_port_def cong: option.case_cong)

lemma tick_message_age_loop:
  assumes "stp_inv s"
  shows "stp_inv (for_each_enabled_port (stp_tick_message_age e) s) \<and>
    stp_calm s (for_each_enabled_port (stp_tick_message_age e) s)"
proof (rule for_each_enabled_port_inv [where n = "length (st_ports s)"])
  show "stp_inv (stp_tick_message_age e p t) \<and> stp_calm s (stp_tick_message_age e p t)"
    if "stp_inv t \<and> stp_calm s t" for p t
    using that tick_message_age_ok [of t e p] stp_calm_trans [of s t] by simp
qed (use assms in simp_all)

lemma tick_forward_delay_loop:
  fixes e :: int
  assumes "stp_inv s"
  defines "body \<equiv> \<lambda>p t. stp_tick_hold e p (stp_tick_forward_delay e p t)"
  defines "t \<equiv> for_each_enabled_port body s"
  shows "stp_inv t" "length (st_ports t) = length (st_ports s)"
    "p < length (st_ports s) \<Longrightarrow> advance (sp_state (stp_port_at s p)) (sp_state (stp_port_at t p))"
proof -
  let ?n = "length (st_ports s)"
  let ?st = "\<lambda>t p. sp_state (stp_port_at t p)"
  let ?I = "\<lambda>m t. stp_inv t \<and> length (st_ports t) = ?n \<and> (\<forall>p<m. advance (?st s p) (?st t p)) \<and>
    (\<forall>p<?n. p \<ge> m \<longrightarrow> ?st t p = ?st s p)"
  have "?I ?n t"
    unfolding t_def
  proof (rule for_each_enabled_port_rule [where I = ?I])
    fix p t
    assume p: "p < ?n" and I: "?I p t"
    have tp: "stp_inv t" "p < length (st_ports t)" using I p by simp_all
    have adv: "stp_advances p t (body p t)"
      unfolding body_def
      using stp_advances_quiet [OF tick_forward_delay_advances [OF tp] quiet_tick_hold tp(2)] .
    then have "core (body p t) = core t" by (simp add: stp_advances_def)
    then have "length (st_ports (body p t)) = ?n" using I core_cong(2) by metis
    moreover have "advance (?st s q) (?st (body p t) q)" if "q < Suc p" for q
      using that p I adv by (cases "q = p") (simp_all add: stp_advances_def)
    moreover have "?st (body p t) q = ?st s q" if "q < ?n" "q \<ge> Suc p" for q
      using that I adv by (simp add: stp_advances_def)
    ultimately show "?I (Suc p) (body p t)" using stp_advances_inv [OF tp adv] by blast
    show "?I (Suc p) t" using p I by (simp add: less_Suc_eq advance_def)
  qed (use assms in simp_all)
  then show "stp_inv t" "length (st_ports t) = ?n" "p < ?n \<Longrightarrow> advance (?st s p) (?st t p)"
    by simp_all
qed

text \<open>A whole tick: calm while received information ages, then each port advances at most once.\<close>

lemma tick_ok:
  assumes "stp_inv s"
  obtains t where "stp_calm s t" "stp_inv (stp_tick ms s)" "length (st_ports (stp_tick ms s)) = length (st_ports s)"
    "\<And>p. p < length (st_ports s) \<Longrightarrow> advance (sp_state (stp_port_at t p)) (sp_state (stp_port_at (stp_tick ms s) p))"
proof -
  define e where "e = ms_to_timer (int32 (clamp ms 0 (2147483647 - 1000) + st_elapsed_remainder s))"
  define s1 where "s1 = s\<lparr> st_elapsed_remainder :=
    int32 (int32 (clamp ms 0 (2147483647 - 1000) + st_elapsed_remainder s) - timer_to_ms e) \<rparr>"
  define s2 where "s2 = stp_tick_topology_change e (stp_tick_tcn e (stp_tick_hello e s1))"
  define s3 where "s3 = for_each_enabled_port (stp_tick_message_age e) s2"
  define s4 where "s4 = for_each_enabled_port (\<lambda>p s. stp_tick_hold e p (stp_tick_forward_delay e p s)) s3"
  have eq: "stp_tick ms s = (if e = 0 then s1 else s4)"
    by (simp add: stp_tick_def stp_tick_timers_def Let_def e_def s1_def s2_def s3_def s4_def)
  have s1: "stp_inv s1" "stp_calm s s1" "length (st_ports s1) = length (st_ports s)"
    using assms inv_frame [of s1 s] by (simp_all add: s1_def stp_calm_def calm_def)
  have q: "quiet s2 = quiet s1" by (simp add: s2_def quiet_simps)
  have s2: "stp_inv s2" "stp_calm s s2"
    using s1 quiet_cong(1) [OF q] stp_calm_trans [OF s1(2) stp_calm_quiet [OF q]] by simp_all
  have s3: "stp_inv s3" "stp_calm s s3"
    using tick_message_age_loop [OF s2(1), of e] stp_calm_trans [OF s2(2)] by (simp_all add: s3_def)
  then have len: "length (st_ports s3) = length (st_ports s)" by (simp add: stp_calm_def)
  note s4 = tick_forward_delay_loop [OF s3(1), where e = e, folded s4_def]
  show thesis
  proof (cases "e = 0")
    case True
    show thesis by (rule that [OF s1(2)]) (use True eq s1 in \<open>simp_all add: advance_def\<close>)
  next
    case False
    show thesis by (rule that [OF s3(2)]) (use False eq s4 len in simp_all)
  qed
qed

section \<open>Received BPDUs\<close>

lemma received_config_bpdu_ok:
  assumes "stp_inv s"
  shows "stp_inv (stp_received_config_bpdu p c s) \<and> stp_calm s (stp_received_config_bpdu p c s)"
proof -
  define r where "r = stp_record_config_information p c s"
  define t where "t = stp_port_state_selection (stp_configuration_update r)"
  have r: "stp_base_ok r" "stp_calm s r"
    using assms unfolding r_def stp_record_config_information_def
    by (auto simp: stp_inv_def intro!: base_ok_update_same calm_update_same)
  have "stp_inv t" using update_and_select_ok(1) [OF r(1)] by (simp add: t_def)
  moreover have "stp_calm s t"
    using stp_calm_trans [OF r(2) update_and_select_ok(2) [OF r(1)]] by (simp add: t_def)
  moreover have "quiet (stp_received_config_bpdu p c s) = quiet s \<or> quiet (stp_received_config_bpdu p c s) = quiet t"
    unfolding stp_received_config_bpdu_def Let_def r_def [symmetric] t_def [symmetric]
    by (simp add: quiet_simps)
  ultimately show ?thesis
    using assms quiet_cong(1) stp_calm_quiet stp_calm_trans stp_calm_refl by metis
qed

lemma received_tcn_bpdu_ok:
  assumes "stp_inv s"
  shows "stp_inv (stp_received_tcn_bpdu p s) \<and> stp_calm s (stp_received_tcn_bpdu p s)"
proof -
  have "quiet (stp_received_tcn_bpdu p s) = quiet s"
    by (simp add: stp_received_tcn_bpdu_def quiet_simps)
  then show ?thesis using assms quiet_cong(1) stp_calm_quiet by blast
qed

lemma received_bpdu_ok:
  assumes "stp_inv s"
  shows "stp_inv (stp_received_bpdu p b s) \<and> stp_calm s (stp_received_bpdu p b s)"
proof -
  let ?rx = "update_port p (\<lambda>x. x\<lparr> sp_rx_count := sp_rx_count x + 1 \<rparr>)"
  have rx: "stp_inv (?rx t) \<and> stp_calm s (?rx t)" if "stp_inv t \<and> stp_calm s t" for t
    using that by (auto intro!: inv_update_same calm_update_same elim!: stp_calm_trans simp: core_port_def)
  have err: "stp_inv (stp_count_error p s) \<and> stp_calm s (stp_count_error p s)"
    unfolding stp_count_error_def
    using assms by (auto intro!: inv_update_same calm_update_same simp: core_port_def)
  show ?thesis
    using assms err rx [OF received_config_bpdu_ok [OF assms]] rx [OF received_tcn_bpdu_ok [OF assms]]
    by (simp add: stp_received_bpdu_def)
qed

section \<open>Calls of the client\<close>

lemma update_bridge_timers_frame:
  "stp_inv (stp_update_bridge_timers s) = stp_inv s" "stp_calm s (stp_update_bridge_timers s)"
proof -
  have "stp_inv (stp_update_bridge_timers s) = stp_inv s"
    by (rule inv_frame) (simp_all add: stp_update_bridge_timers_def stp_use_bridge_times_def Let_def)
  then show "stp_inv (stp_update_bridge_timers s) = stp_inv s" .
  have "st_ports (stp_update_bridge_timers s) = st_ports s"
    by (simp add: stp_update_bridge_timers_def stp_use_bridge_times_def Let_def)
  then show "stp_calm s (stp_update_bridge_timers s)" by (simp add: stp_calm_def calm_def)
qed

lemma set_bridge_id_ok:
  assumes "stp_inv s"
  shows "stp_inv (set_bridge_id b s) \<and> stp_calm s (set_bridge_id b s)"
proof -
  define t where "t = for_each_enabled_port (\<lambda>p s. if stp_is_designated_port s p
    then update_port p (\<lambda>x. x\<lparr> sp_designated_bridge := b \<rparr>) s else s) s"
  have "stp_base_ok t \<and> stp_calm s t"
    unfolding t_def
  proof (rule for_each_enabled_port_inv [where n = "length (st_ports s)"])
    fix p u assume u: "stp_base_ok u \<and> stp_calm s u"
    let ?v = "update_port p (\<lambda>x. x\<lparr> sp_designated_bridge := b \<rparr>) u"
    have "stp_base_ok ?v" using u by (intro base_ok_update_same) simp_all
    moreover have "stp_calm u ?v" by (rule calm_update_same) simp
    ultimately show "stp_base_ok (if stp_is_designated_port u p then ?v else u) \<and>
        stp_calm s (if stp_is_designated_port u p then ?v else u)"
      using u stp_calm_trans [of s u] by simp
  qed (use assms in \<open>simp_all add: stp_inv_def\<close>)
  then have "stp_base_ok (t\<lparr> st_bridge_id := b \<rparr>)" "stp_calm s (t\<lparr> st_bridge_id := b \<rparr>)"
    using base_ok_frame [of "t\<lparr> st_bridge_id := b \<rparr>" t] by (simp_all add: stp_calm_def)
  then show ?thesis
    using assms reconfigure_ok stp_calm_trans
    by (simp add: set_bridge_id_def Let_def t_def [symmetric])
qed

lemma become_designated_calm: "stp_calm s (stp_become_designated_port p s)"
  unfolding stp_become_designated_port_def by (rule calm_update_same) simp

lemma port_disable_ok:
  assumes "stp_inv s" "p < length (st_ports s)"
  shows "stp_inv (stp_port_disable p s)"
proof -
  let ?f = "\<lambda>x. x\<lparr> sp_topology_change_ack := False, sp_config_pending := False,
    sp_message_age_timer := stp_stop_timer (sp_message_age_timer x),
    sp_forward_delay_timer := stp_stop_timer (sp_forward_delay_timer x) \<rparr>"
  have "stp_base_ok (stp_become_designated_port p s)" "p < length (st_ports (stp_become_designated_port p s))"
    using assms by (simp_all add: base_ok_become_designated_port stp_inv_def frame_simps)
  then have "stp_base_ok (update_port p ?f (stp_set_port_state p STP_DISABLED (stp_become_designated_port p s)))"
    by (rule base_ok_set_port_state) (simp_all add: stp_timer_ok_def stp_stop_timer_def)
  then have "stp_inv (update_port p (\<lambda>x. x\<lparr> sp_aux := None \<rparr>) (stp_reconfigure root
      (update_port p ?f (stp_set_port_state p STP_DISABLED (stp_become_designated_port p s)))))" for root
    by (intro inv_update_same reconfigure_ok) (simp_all add: core_port_def)
  then show ?thesis using assms(1) by (simp add: stp_port_disable_def Let_def)
qed

lemma initialize_port_ok:
  assumes "stp_base_ok s" "p < length (st_ports s)" "v \<in> {STP_DISABLED, STP_BLOCKING}"
  shows "stp_base_ok (stp_initialize_port p v s)"
proof -
  have "stp_base_ok (stp_become_designated_port p s)" "p < length (st_ports (stp_become_designated_port p s))"
    using assms by (simp_all add: base_ok_become_designated_port frame_simps)
  then show ?thesis
    unfolding stp_initialize_port_def
    by (rule base_ok_set_port_state) (use assms(3) in \<open>auto simp: stp_timer_ok_def stp_stop_timer_def\<close>)
qed

lemma port_enable_ok:
  assumes "stp_inv s" "p < length (st_ports s)"
  shows "stp_inv (stp_port_enable p s)"
proof (cases "sp_state (stp_port_at s p) = STP_DISABLED")
  case True
  let ?i = "stp_initialize_port p STP_BLOCKING s"
  have "stp_base_ok ?i" using assms by (intro initialize_port_ok) (simp_all add: stp_inv_def)
  note sel = port_state_selection_ok [OF this]
  have "stp_root_ok ?i"
    using assms True by (auto simp: stp_inv_def stp_root_ok_def stp_initialize_port_def frame_simps
        nth_list_update_if split: option.splits)
  then have "stp_inv (stp_port_state_selection ?i)"
    using sel(1,3) core_cong(1,2) [OF sel(2)] by (simp add: stp_inv_def)
  then show ?thesis using True by (simp add: stp_port_enable_def)
qed (use assms in \<open>simp add: stp_port_enable_def\<close>)

lemma port_set_path_cost_ok:
  assumes "stp_inv s"
  shows "stp_inv (stp_port_set_path_cost p c s) \<and> stp_calm s (stp_port_set_path_cost p c s)"
proof -
  let ?u = "update_port p (\<lambda>x. x\<lparr> sp_path_cost := ucast c \<rparr>) s"
  have u: "stp_base_ok ?u" "stp_calm s ?u"
    using assms by (auto simp: stp_inv_def intro!: base_ok_update_same calm_update_same)
  then have "stp_inv (stp_port_state_selection (stp_configuration_update ?u))"
    "stp_calm s (stp_port_state_selection (stp_configuration_update ?u))"
    using update_and_select_ok stp_calm_trans by blast+
  then show ?thesis using assms by (simp add: stp_port_set_path_cost_def)
qed

lemma priority_keeps_number:
  "((pid AND 0xff) OR push_bit 8 (ucast (pri :: u8))) AND 0xff = (pid :: u16) AND 0xff"
proof -
  have e: "(0xff :: u16) = mask 8" by (simp add: mask_eq_exp_minus_1)
  have "(pid AND mask 8) OR push_bit 8 q AND mask 8 = pid AND mask 8" for q :: u16
    by (rule bit_eqI) (auto simp: bit_simps)
  moreover have "((pid AND mask 8) OR push_bit 8 q) AND mask 8 = (pid AND mask 8) OR push_bit 8 q AND mask 8" for q :: u16
    by (rule bit_eqI) (auto simp: bit_simps)
  ultimately show ?thesis unfolding e by simp
qed

text \<open>What \<open>stp_port_set_priority\<close> does before it may reselect the states.\<close>

lemma set_port_id_ok:
  assumes "stp_inv s" "p < length (st_ports s)" "pid AND 0xff = sp_port_id (stp_port_at s p) AND 0xff"
  defines "t \<equiv> update_port p (\<lambda>x. x\<lparr> sp_port_id := pid \<rparr>)
    (if stp_is_designated_port s p then update_port p (\<lambda>x. x\<lparr> sp_designated_port := pid \<rparr>) s else s)"
  shows "stp_inv t"
proof -
  have q: "sp_state (stp_port_at t q) = sp_state (stp_port_at s q)"
    "q \<noteq> p \<Longrightarrow> stp_port_at t q = stp_port_at s q" for q
    using assms(2) by (simp_all add: t_def frame_simps nth_list_update_if)
  have t: "st_root_port t = st_root_port s" "st_bridge_id t = st_bridge_id s" "length (st_ports t) = length (st_ports s)"
    "st_designated_root t = st_designated_root s" "st_root_path_cost t = st_root_path_cost s"
    by (simp_all add: t_def frame_simps)
  have "stp_is_designated_port s p \<Longrightarrow> stp_is_designated_port t p"
    using assms(2) by (simp add: t_def stp_is_designated_port_def frame_simps)
  then have "stp_port_ok t r" if "r < length (st_ports s)" for r
    using assms(1) that q [of r] t(1,2)
    by (cases "r = p") (auto simp: stp_inv_def stp_port_ok_def stp_is_designated_port_def)
  moreover have "stp_base_ok t"
  proof -
    have "stp_base_ok (update_port p (\<lambda>x. x\<lparr> sp_designated_port := pid \<rparr>) s)" "stp_base_ok s"
      using assms(1) by (auto simp: stp_inv_def intro: base_ok_update_same)
    moreover have "stp_timer_ok (stp_port_at s p)" using assms(1,2) by (simp add: stp_inv_def stp_base_ok_def)
    ultimately show ?thesis
      using assms(2,3) by (auto simp: t_def stp_timer_ok_def frame_simps intro!: base_ok_update_port)
  qed
  moreover have "stp_root_ok t"
    using assms(1) t q(1) by (simp add: stp_inv_def stp_root_ok_def cong: option.case_cong)
  ultimately show ?thesis using t(3) by (simp add: stp_inv_def)
qed

lemma port_set_priority_ok:
  assumes "stp_inv s" "p < length (st_ports s)"
  shows "stp_inv (stp_port_set_priority p v s)"
proof -
  define pid where "pid = ((sp_port_id (stp_port_at s p) AND 0xff) OR push_bit 8 (ucast v))"
  define t where "t = update_port p (\<lambda>x. x\<lparr> sp_port_id := pid \<rparr>)
    (if stp_is_designated_port s p then update_port p (\<lambda>x. x\<lparr> sp_designated_port := pid \<rparr>) s else s)"
  have t: "stp_inv t"
    unfolding t_def by (rule set_port_id_ok [OF assms]) (simp add: pid_def priority_keeps_number)
  let ?d = "stp_become_designated_port p t"
  have d: "stp_base_ok ?d" "stp_root_ok ?d"
    using t by (simp_all add: stp_inv_def base_ok_become_designated_port root_ok_become_designated_port)
  note sel = port_state_selection_ok [OF d(1)]
  have "stp_inv (stp_port_state_selection ?d)"
    using d(2) sel(1,3) core_cong(1,2) [OF sel(2)] by (simp add: stp_inv_def)
  then show ?thesis
    using assms(1) t by (simp add: stp_port_set_priority_def Let_def pid_def [symmetric] t_def [symmetric])
qed

lemma find_upt:
  "(find P [i..<n] = Some p) = (i \<le> p \<and> p < n \<and> P p \<and> (\<forall>q. i \<le> q \<longrightarrow> q < p \<longrightarrow> \<not> P q))"
  "(find P [i..<n] = None) = (\<forall>q. i \<le> q \<longrightarrow> q < n \<longrightarrow> \<not> P q)"
proof -
  show "(find P [i..<n] = None) = (\<forall>q. i \<le> q \<longrightarrow> q < n \<longrightarrow> \<not> P q)"
    by (auto simp: find_None_iff)
  show "(find P [i..<n] = Some p) = (i \<le> p \<and> p < n \<and> P p \<and> (\<forall>q. i \<le> q \<longrightarrow> q < p \<longrightarrow> \<not> P q))"
  proof
    assume "find P [i..<n] = Some p"
    then obtain k where "k < n - i" "P (i + k)" "p = i + k" "\<forall>j<k. \<not> P (i + j)"
      by (auto simp: find_Some_iff)
    then show "i \<le> p \<and> p < n \<and> P p \<and> (\<forall>q. i \<le> q \<longrightarrow> q < p \<longrightarrow> \<not> P q)"
      by (metis add.commute le_add1 le_add_diff_inverse less_diff_conv nat_add_left_cancel_less)
  next
    assume "i \<le> p \<and> p < n \<and> P p \<and> (\<forall>q. i \<le> q \<longrightarrow> q < p \<longrightarrow> \<not> P q)"
    then show "find P [i..<n] = Some p"
      by (auto simp: find_Some_iff intro!: exI [of _ "p - i"])
  qed
qed

lemma get_changed_port_cases:
  obtains (none) "stp_get_changed_port s = (s\<lparr> st_first_changed_port := length (st_ports s) \<rparr>, None)"
      "\<forall>q. st_first_changed_port s \<le> q \<longrightarrow> q < length (st_ports s) \<longrightarrow> \<not> sp_state_changed (stp_port_at s q)"
  | (some) p where "stp_get_changed_port s =
        ((update_port p (\<lambda>x. x\<lparr> sp_state_changed := False \<rparr>) s)\<lparr> st_first_changed_port := Suc p \<rparr>, Some p)"
      "st_first_changed_port s \<le> p" "p < length (st_ports s)" "sp_state_changed (stp_port_at s p)"
      "\<forall>q. st_first_changed_port s \<le> q \<longrightarrow> q < p \<longrightarrow> \<not> sp_state_changed (stp_port_at s q)"
proof (cases "find (\<lambda>p. sp_state_changed (stp_port_at s p)) [st_first_changed_port s..<length (st_ports s)]")
  case None
  have "stp_get_changed_port s = (s\<lparr> st_first_changed_port := length (st_ports s) \<rparr>, None)"
    using None by (simp add: stp_get_changed_port_def)
  then show thesis using None none by (simp only: find_upt)
next
  case (Some p)
  have "stp_get_changed_port s =
    ((update_port p (\<lambda>x. x\<lparr> sp_state_changed := False \<rparr>) s)\<lparr> st_first_changed_port := Suc p \<rparr>, Some p)"
    using Some by (simp add: stp_get_changed_port_def)
  then show thesis using Some some [of p] unfolding find_upt by blast
qed

lemma get_changed_port_ok:
  assumes "stp_inv s"
  shows "stp_inv (fst (stp_get_changed_port s))"
proof (cases rule: get_changed_port_cases [of s])
  case none
  let ?t = "s\<lparr> st_first_changed_port := length (st_ports s) \<rparr>"
  have "stp_base_ok ?t"
    using assms none(2) unfolding stp_inv_def stp_base_ok_def by simp (metis leI)
  then show ?thesis
    using assms none(1)
    by (simp add: stp_inv_def stp_root_ok_def stp_port_ok_def stp_is_designated_port_def cong: option.case_cong)
next
  case (some p)
  let ?u = "update_port p (\<lambda>x. x\<lparr> sp_state_changed := False \<rparr>) s"
  let ?t = "?u\<lparr> st_first_changed_port := Suc p \<rparr>"
  have base: "stp_base_ok s" using assms by (simp add: stp_inv_def)
  have "Suc p \<le> q" if "q < STP_MAX_PORTS" "sp_state_changed (stp_port_at ?u q)" for q
  proof -
    have "q \<noteq> p" "sp_state_changed (stp_port_at s q)"
      using that some(3) by (auto simp: frame_simps nth_list_update_if split: if_splits)
    then show ?thesis
      using some(5) base that(1) by (metis Suc_leI linorder_neqE_nat stp_base_ok_def)
  qed
  moreover have "stp_timer_ok (stp_port_at ?u q) \<and> sp_port_id (stp_port_at ?u q) = sp_port_id (stp_port_at s q)"
    if "q < STP_MAX_PORTS" for q
    using base that by (simp add: stp_base_ok_def frame_simps nth_list_update_at stp_timer_ok_def)
  ultimately have "stp_base_ok ?t"
    using base some(3) unfolding stp_base_ok_def by (simp add: frame_simps)
  moreover have c: "core ?t = core s"
    using core_update_port [of "\<lambda>x. x\<lparr> sp_state_changed := False \<rparr>" s p] by (simp add: core_def core_port_def)
  moreover have "stp_port_ok ?t q" if "q < length (st_ports s)" for q
    using assms that port_ok_cong [OF c that] by (simp add: stp_inv_def frame_simps nth_list_update_at)
  ultimately show ?thesis
    using assms some(1) core_cong(1,2) [OF c] by (simp add: stp_inv_def)
qed

end
