(* ===== verification/Stp_Props.thy ===== *)
theory Stp_Props
  imports Stp_Inv
begin

text \<open>
  What the spanning tree entity guarantees: the calls a client can make as a transition system, the
  invariant of every state they reach, and the properties of the protocol engine.
\<close>

section \<open>Creation\<close>

lemma initial_port_id: "p < 255 \<Longrightarrow> ((of_nat p + 1) OR push_bit 8 STP_DEFAULT_PORT_PRIORITY) AND 0xff = (of_nat (Suc p) :: u16)"
proof -
  assume "p < 255"
  then have "take_bit 8 (of_nat (Suc p) :: u16) = of_nat (Suc p)"
    by (simp only: take_bit_of_nat) (simp add: take_bit_nat_eq_self)
  moreover have "(x OR push_bit 8 128) AND 0xff = take_bit 8 x" for x :: u16
  proof -
    have "(0xff :: u16) = mask 8" by (simp add: mask_eq_exp_minus_1)
    then show ?thesis by (simp add: take_bit_eq_mask bit.conj_disj_distrib2)
  qed
  ultimately show ?thesis by (simp add: STP_DEFAULT_PORT_PRIORITY_def add.commute)
qed

definition stp_created_port :: "stp \<Rightarrow> nat \<Rightarrow> bool" where
  "stp_created_port s p \<longleftrightarrow> sp_state (stp_port_at s p) = STP_DISABLED \<and>
    \<not> tm_active (sp_forward_delay_timer (stp_port_at s p)) \<and> \<not> tm_active (sp_hold_timer (stp_port_at s p)) \<and>
    sp_state_changed (stp_port_at s p) \<and> sp_port_id (stp_port_at s p) AND 0xff = of_nat (Suc p)"

lemma create_port:
  assumes "p < length (st_ports s)" "length (st_ports s) = STP_MAX_PORTS" "stp_port_at s p = stp_port_zero"
  shows "stp_created_port (stp_create_port p s) p" "q \<noteq> p \<Longrightarrow> stp_port_at (stp_create_port p s) q = stp_port_at s q"
    "length (st_ports (stp_create_port p s)) = length (st_ports s)"
    "st_first_changed_port (stp_create_port p s) = min p (st_first_changed_port s)"
    "st_root_port (stp_create_port p s) = st_root_port s" "st_bridge_id (stp_create_port p s) = st_bridge_id s"
    "st_designated_root (stp_create_port p s) = st_designated_root s"
    "st_root_path_cost (stp_create_port p s) = st_root_path_cost s"
  using assms initial_port_id [of p]
  by (simp_all add: stp_create_port_def stp_initialize_port_def stp_created_port_def frame_simps
      stp_stop_timer_def stp_port_zero_def STP_MAX_PORTS_def)

lemma create_ports:
  assumes "length (st_ports s) = STP_MAX_PORTS" "\<forall>p<STP_MAX_PORTS. stp_port_at s p = stp_port_zero"
    and "m \<le> STP_MAX_PORTS"
  defines "t \<equiv> fold stp_create_port [0..<m] s"
  shows "length (st_ports t) = STP_MAX_PORTS \<and> (\<forall>p<m. stp_created_port t p) \<and>
    (\<forall>p<STP_MAX_PORTS. m \<le> p \<longrightarrow> stp_port_at t p = stp_port_zero) \<and>
    st_first_changed_port t = (if m = 0 then st_first_changed_port s else 0) \<and> st_root_port t = st_root_port s \<and>
    st_bridge_id t = st_bridge_id s \<and> st_designated_root t = st_designated_root s \<and>
    st_root_path_cost t = st_root_path_cost s"
  unfolding t_def using assms(3)
proof (induction m)
  case 0
  then show ?case using assms(1,2) by simp
next
  case (Suc m)
  let ?t = "fold stp_create_port [0..<m] s"
  have IH: "length (st_ports ?t) = STP_MAX_PORTS" "\<forall>p<m. stp_created_port ?t p"
    "\<forall>p<STP_MAX_PORTS. m \<le> p \<longrightarrow> stp_port_at ?t p = stp_port_zero"
    "st_first_changed_port ?t = (if m = 0 then st_first_changed_port s else 0)" "st_root_port ?t = st_root_port s"
    "st_bridge_id ?t = st_bridge_id s" "st_designated_root ?t = st_designated_root s"
    "st_root_path_cost ?t = st_root_path_cost s"
    using Suc by simp_all
  have m: "m < length (st_ports ?t)" "stp_port_at ?t m = stp_port_zero" using IH Suc.prems by simp_all
  note c = create_port [OF m(1) IH(1) m(2)]
  have "stp_created_port (stp_create_port m ?t) p" if "p < Suc m" for p
    using that c(1) c(2) [of p] IH(2) by (cases "p = m") (simp_all add: stp_created_port_def)
  then show ?case using c IH by simp
qed

lemma create_bridge_fields:
  "st_ports (stp_create_bridge name b) = replicate STP_MAX_PORTS stp_port_zero"
  "st_root_port (stp_create_bridge name b) = None"
  "st_designated_root (stp_create_bridge name b) = st_bridge_id (stp_create_bridge name b)"
  "st_root_path_cost (stp_create_bridge name b) = 0"
  by (simp_all add: stp_create_bridge_def stp_use_bridge_times_def stp_update_bridge_timers_def stp_zero_def Let_def)

lemma stp_create_ports:
  "length (st_ports (stp_create name b)) = STP_MAX_PORTS"
  "p < STP_MAX_PORTS \<Longrightarrow> stp_created_port (stp_create name b) p"
  "st_first_changed_port (stp_create name b) = 0"
  "st_root_port (stp_create name b) = None"
  "st_designated_root (stp_create name b) = st_bridge_id (stp_create name b)"
  "st_root_path_cost (stp_create name b) = 0"
  using create_ports [of "stp_create_bridge name b" STP_MAX_PORTS]
  by (simp_all add: stp_create_def create_bridge_fields STP_MAX_PORTS_def)

lemma stp_create_inv: "stp_inv (stp_create name b)"
  using stp_create_ports(1,3,4,5,6) [of name b] stp_create_ports(2) [where name = name and b = b]
  by (simp add: stp_inv_def stp_base_ok_def stp_root_ok_def stp_port_ok_def stp_timer_ok_def stp_created_port_def)

section \<open>Reachable states\<close>

text \<open>The calls of \<open>stp.h\<close> that change an entity, and the effect of each.\<close>

datatype stp_call =
    Tick int
  | Set_bridge_id u64
  | Set_bridge_priority u16
  | Set_hello_time int
  | Set_max_age int
  | Set_forward_delay int
  | Check_and_reset_fdb_flush
  | Get_changed_port
  | Received_bpdu nat "u8 list"
  | Port_set_aux nat "addr option"
  | Port_enable nat
  | Port_disable nat
  | Port_set_priority nat u8
  | Port_set_path_cost nat u16
  | Port_set_speed nat nat
  | Port_enable_change_detection nat
  | Port_disable_change_detection nat
  | Unixctl_tcn

fun stp_do :: "stp_call \<Rightarrow> stp \<Rightarrow> stp" where
  "stp_do (Tick ms) s = stp_tick ms s"
| "stp_do (Set_bridge_id b) s = stp_set_bridge_id b s"
| "stp_do (Set_bridge_priority v) s = stp_set_bridge_priority v s"
| "stp_do (Set_hello_time ms) s = stp_set_hello_time ms s"
| "stp_do (Set_max_age ms) s = stp_set_max_age ms s"
| "stp_do (Set_forward_delay ms) s = stp_set_forward_delay ms s"
| "stp_do Check_and_reset_fdb_flush s = fst (stp_check_and_reset_fdb_flush s)"
| "stp_do Get_changed_port s = fst (stp_get_changed_port s)"
| "stp_do (Received_bpdu p b) s = stp_received_bpdu p b s"
| "stp_do (Port_set_aux p a) s = stp_port_set_aux p a s"
| "stp_do (Port_enable p) s = stp_port_enable p s"
| "stp_do (Port_disable p) s = stp_port_disable p s"
| "stp_do (Port_set_priority p v) s = stp_port_set_priority p v s"
| "stp_do (Port_set_path_cost p c) s = stp_port_set_path_cost p c s"
| "stp_do (Port_set_speed p v) s = stp_port_set_speed p v s"
| "stp_do (Port_enable_change_detection p) s = stp_port_enable_change_detection p s"
| "stp_do (Port_disable_change_detection p) s = stp_port_disable_change_detection p s"
| "stp_do Unixctl_tcn s = stp_topology_change_detection s"

text \<open>A port handed to the entity is one of its own, as \<open>stp_get_port\<close> asserts.\<close>

fun stp_call_ok :: "stp_call \<Rightarrow> bool" where
  "stp_call_ok (Received_bpdu p b) = (p < STP_MAX_PORTS)"
| "stp_call_ok (Port_set_aux p a) = (p < STP_MAX_PORTS)"
| "stp_call_ok (Port_enable p) = (p < STP_MAX_PORTS)"
| "stp_call_ok (Port_disable p) = (p < STP_MAX_PORTS)"
| "stp_call_ok (Port_set_priority p v) = (p < STP_MAX_PORTS)"
| "stp_call_ok (Port_set_path_cost p c) = (p < STP_MAX_PORTS)"
| "stp_call_ok (Port_set_speed p v) = (p < STP_MAX_PORTS)"
| "stp_call_ok (Port_enable_change_detection p) = (p < STP_MAX_PORTS)"
| "stp_call_ok (Port_disable_change_detection p) = (p < STP_MAX_PORTS)"
| "stp_call_ok _ = True"

inductive stp_reachable :: "stp \<Rightarrow> bool" where
  create: "stp_reachable (stp_create name bridge_id)"
| call: "stp_reachable s \<Longrightarrow> stp_call_ok c \<Longrightarrow> stp_reachable (stp_do c s)"

lemma stp_do_inv:
  assumes "stp_inv s" "stp_call_ok c"
  shows "stp_inv (stp_do c s)"
proof -
  have len: "length (st_ports s) = STP_MAX_PORTS" using assms(1) by (simp add: stp_inv_def stp_base_ok_def)
  have times: "stp_inv (stp_set_hello_time ms s)" "stp_inv (stp_set_max_age ms s)" "stp_inv (stp_set_forward_delay ms s)" for ms
    unfolding stp_set_hello_time_def stp_set_max_age_def stp_set_forward_delay_def update_bridge_timers_frame
    using assms(1) by (simp_all add: inv_frame [of "s\<lparr> st_rq_hello_time := ms \<rparr>" s]
        inv_frame [of "s\<lparr> st_rq_max_age := ms \<rparr>" s] inv_frame [of "s\<lparr> st_rq_forward_delay := ms \<rparr>" s])
  have tick: "stp_inv (stp_tick ms s)" for ms using tick_ok [OF assms(1)] by blast
  have ids: "stp_inv (stp_set_bridge_id b s)" "stp_inv (stp_set_bridge_priority v s)" for b v
    using set_bridge_id_ok [OF assms(1)] by (simp_all add: stp_set_bridge_id_def stp_set_bridge_priority_def Let_def)
  have flags: "stp_inv (fst (stp_check_and_reset_fdb_flush s))" "stp_inv (stp_topology_change_detection s)"
    using assms(1) quiet_cong(1) [OF quiet_bridge_update(6)] quiet_cong(1) [OF quiet_topology_change_detection]
    by (simp_all add: stp_check_and_reset_fdb_flush_def)
  have ports: "stp_inv (stp_port_set_aux p a s)" "stp_inv (stp_port_enable_change_detection p s)"
    "stp_inv (stp_port_disable_change_detection p s)" for p a
    unfolding stp_port_set_aux_def stp_port_enable_change_detection_def stp_port_disable_change_detection_def
    by (rule inv_update_same [OF assms(1)]; simp add: core_port_def)+
  have cost: "stp_inv (stp_port_set_path_cost p c s)" "stp_inv (stp_port_set_speed p v s)" for p c v
    using port_set_path_cost_ok [OF assms(1)] by (simp_all add: stp_port_set_speed_def)
  have bpdu: "stp_inv (stp_received_bpdu p b s)" for p b using received_bpdu_ok [OF assms(1)] by simp
  show ?thesis
    using assms(2) len times tick ids flags ports cost bpdu get_changed_port_ok [OF assms(1)]
      port_enable_ok [OF assms(1)] port_disable_ok [OF assms(1)] port_set_priority_ok [OF assms(1)]
    by (cases c) simp_all
qed

lemma stp_reachable_inv: "stp_reachable s \<Longrightarrow> stp_inv s"
  by (induction rule: stp_reachable.induct) (simp_all add: stp_create_inv stp_do_inv)

lemma reachable_facts:
  assumes "stp_reachable s"
  shows "length (st_ports s) = STP_MAX_PORTS" "stp_base_ok s" "stp_root_ok s"
    "p < STP_MAX_PORTS \<Longrightarrow> stp_port_ok s p"
  using stp_reachable_inv [OF assms] by (simp_all add: stp_inv_def stp_base_ok_def)

lemma port_id_inj:
  assumes "stp_base_ok s" "p < STP_MAX_PORTS" "q < STP_MAX_PORTS"
    and "sp_port_id (stp_port_at s p) = sp_port_id (stp_port_at s q)"
  shows "p = q"
proof -
  have "(of_nat (Suc p) :: u16) = of_nat (Suc q)"
    using assms unfolding stp_base_ok_def by metis
  then have "unat (of_nat (Suc p) :: u16) = unat (of_nat (Suc q) :: u16)" by simp
  then show ?thesis
    using assms(2,3) by (simp only: unat_of_nat) (simp add: STP_MAX_PORTS_def)
qed

text \<open>Enabling a port.\<close>

lemma port_enable_state:
  assumes "stp_inv s" "p < length (st_ports s)" "sp_state (stp_port_at s p) = STP_DISABLED"
  shows "sp_state (stp_port_at (stp_port_enable p s) p) = STP_LISTENING" "stp_is_designated_port (stp_port_enable p s) p"
proof -
  let ?i = "stp_initialize_port p STP_BLOCKING s"
  have "stp_base_ok ?i" using assms by (intro initialize_port_ok) (simp_all add: stp_inv_def)
  note sel = port_state_selection_ok [OF this]
  have i: "length (st_ports ?i) = length (st_ports s)" "stp_is_designated_port ?i p" "sp_state (stp_port_at ?i p) = STP_BLOCKING"
    using assms(2) by (simp_all add: stp_initialize_port_def stp_is_designated_port_def frame_simps)
  have t: "stp_port_enable p s = stp_port_state_selection ?i" using assms(3) by (simp add: stp_port_enable_def)
  show "sp_state (stp_port_at (stp_port_enable p s) p) = STP_LISTENING"
    using sel(5) [of p] i assms(2) by (simp add: t selected_state_def)
  show "stp_is_designated_port (stp_port_enable p s) p"
    using core_cong(4) [OF sel(2), of p] i assms(2) by (simp add: t)
qed

lemma created_ports_disabled: "p < STP_MAX_PORTS \<Longrightarrow> sp_state (stp_port_at (stp_create name b) p) = STP_DISABLED"
  using stp_create_ports(2) by (simp add: stp_created_port_def)

lemma sample_listening:
  "stp_reachable (stp_port_enable 0 (stp_create ''br0'' 5))"
  "sp_state (stp_port_at (stp_port_enable 0 (stp_create ''br0'' 5)) 0) = STP_LISTENING"
  using stp_reachable.call [OF stp_reachable.create, of "Port_enable 0" "''br0''" 5]
    port_enable_state(1) [OF stp_create_inv, of 0] created_ports_disabled [of 0 "''br0''" 5] stp_create_ports(1)
  by (simp_all add: STP_MAX_PORTS_def)

text \<open>
  C19.  In every reachable state an entity takes itself for the root bridge exactly when it has no
  root port; otherwise its root port is one of its enabled ports and the root it believes in has a
  smaller identifier than its own.  The role reported of a port is that of the root port for that
  port and no other, a port reported as alternate is blocking, and so a port that is listening,
  learning or forwarding has the role of a root or a designated port: the entity never relays frames
  on a port that is neither.
\<close>

theorem stp_roles_safe:
  assumes "stp_reachable s" "p < STP_MAX_PORTS"
  shows "(stp_is_root_bridge s \<longleftrightarrow> st_root_port s = None) \<and>
    (\<forall>r. st_root_port s = Some r \<longrightarrow> r < STP_MAX_PORTS \<and> sp_state (stp_port_at s r) \<noteq> STP_DISABLED \<and>
       st_designated_root s < st_bridge_id s) \<and>
    (stp_port_get_role s p = STP_ROLE_ROOT \<longleftrightarrow> st_root_port s = Some p) \<and>
    (stp_port_get_role s p = STP_ROLE_ALTERNATE \<longrightarrow> sp_state (stp_port_at s p) = STP_BLOCKING) \<and>
    (sp_state (stp_port_at s p) \<in> {STP_LISTENING, STP_LEARNING, STP_FORWARDING} \<longrightarrow>
       stp_port_get_role s p \<in> {STP_ROLE_ROOT, STP_ROLE_DESIGNATED})"
proof -
  note f = reachable_facts [OF assms(1)]
  have root: "(stp_is_root_bridge s \<longleftrightarrow> st_root_port s = None) \<and>
    (\<forall>r. st_root_port s = Some r \<longrightarrow> r < STP_MAX_PORTS \<and> sp_state (stp_port_at s r) \<noteq> STP_DISABLED \<and>
       st_designated_root s < st_bridge_id s)"
    using f(1,3) by (auto simp: stp_root_ok_def stp_is_root_bridge_def split: option.splits)
  then have role: "stp_port_get_role s p = STP_ROLE_ROOT \<longleftrightarrow> st_root_port s = Some p"
    using port_id_inj [OF f(2) _ assms(2)] by (auto simp: stp_port_get_role_def split: option.splits)
  have "stp_port_get_role s p = STP_ROLE_ALTERNATE \<Longrightarrow> sp_state (stp_port_at s p) = STP_BLOCKING"
    using f(4) [OF assms(2)] by (auto simp: stp_port_get_role_def stp_port_ok_def split: if_splits option.splits)
  moreover have "stp_port_get_role s p = STP_ROLE_DISABLED \<Longrightarrow> sp_state (stp_port_at s p) = STP_DISABLED"
    by (auto simp: stp_port_get_role_def split: if_splits)
  ultimately show ?thesis
    using root role by (cases "stp_port_get_role s p") auto
qed

theorem stp_roles_safe_witness:
  "(let s = stp_port_enable 0 (stp_create ''br0'' 5) in
    stp_reachable s \<and> sp_state (stp_port_at s 0) = STP_LISTENING \<and>
    stp_port_get_role s 0 \<in> {STP_ROLE_ROOT, STP_ROLE_DESIGNATED})"
  using stp_roles_safe [OF sample_listening(1), of 0] sample_listening by (simp add: Let_def STP_MAX_PORTS_def) blast

text \<open>
  Enabling a disabled port of a reachable entity makes it a designated port in the listening
  state at once: the blocking state that \<open>stp_initialize_port\<close> gives it does not outlast the call.
\<close>

theorem stp_port_enable_listens:
  assumes "stp_reachable s" "p < STP_MAX_PORTS" "sp_state (stp_port_at s p) = STP_DISABLED"
  shows "sp_state (stp_port_at (stp_port_enable p s) p) = STP_LISTENING \<and>
    stp_is_designated_port (stp_port_enable p s) p"
  using port_enable_state [OF stp_reachable_inv [OF assms(1)]] reachable_facts(1) [OF assms(1)] assms(2,3) by simp

theorem stp_port_enable_listens_witness:
  "sp_state (stp_port_at (stp_create ''br0'' 5) 3) = STP_DISABLED \<and>
   sp_state (stp_port_at (stp_port_enable 3 (stp_create ''br0'' 5)) 3) = STP_LISTENING"
  using stp_port_enable_listens [OF stp_reachable.create, of 3 "''br0''" 5] created_ports_disabled [of 3 "''br0''" 5]
  by (simp add: STP_MAX_PORTS_def)

section \<open>Changes of port states\<close>

text \<open>No call but a tick of the clock can bring a port into the learning or the forwarding state.\<close>

definition no_new_forwarding :: "stp \<Rightarrow> stp \<Rightarrow> bool" where
  "no_new_forwarding s t \<longleftrightarrow> (\<forall>p<STP_MAX_PORTS. sp_state (stp_port_at t p) \<in> {STP_LEARNING, STP_FORWARDING} \<longrightarrow>
    sp_state (stp_port_at s p) = sp_state (stp_port_at t p))"

lemma stp_calm_no_new: "stp_calm s t \<Longrightarrow> length (st_ports s) = STP_MAX_PORTS \<Longrightarrow> no_new_forwarding s t"
  by (auto simp: stp_calm_def calm_def no_new_forwarding_def)

lemma no_new_forwarding_trans: "no_new_forwarding s t \<Longrightarrow> no_new_forwarding t u \<Longrightarrow> no_new_forwarding s u"
  by (auto simp: no_new_forwarding_def)

lemma no_new_set_port_state:
  assumes "p < length (st_ports s)" "length (st_ports s) = STP_MAX_PORTS" "v \<notin> {STP_LEARNING, STP_FORWARDING}"
    and "\<And>x. sp_state (f x) = sp_state x"
  shows "no_new_forwarding s (update_port p f (stp_set_port_state p v (stp_become_designated_port p s)))"
  using assms by (auto simp: no_new_forwarding_def frame_simps nth_list_update_at)

lemma port_disable_no_new:
  assumes "stp_inv s" "p < length (st_ports s)"
  shows "no_new_forwarding s (stp_port_disable p s)"
proof -
  let ?f = "\<lambda>x. x\<lparr> sp_topology_change_ack := False, sp_config_pending := False,
    sp_message_age_timer := stp_stop_timer (sp_message_age_timer x),
    sp_forward_delay_timer := stp_stop_timer (sp_forward_delay_timer x) \<rparr>"
  let ?d = "stp_become_designated_port p s"
  let ?u = "update_port p ?f (stp_set_port_state p STP_DISABLED ?d)"
  have len: "length (st_ports s) = STP_MAX_PORTS" "length (st_ports ?u) = STP_MAX_PORTS"
    using assms by (simp_all add: stp_inv_def stp_base_ok_def frame_simps)
  have "stp_base_ok ?d" "p < length (st_ports ?d)"
    using assms by (simp_all add: base_ok_become_designated_port stp_inv_def frame_simps)
  then have "stp_base_ok ?u"
    by (rule base_ok_set_port_state) (simp_all add: stp_timer_ok_def stp_stop_timer_def)
  note r = reconfigure_ok(2) [OF this]
  have "stp_calm ?u (update_port p (\<lambda>x. x\<lparr> sp_aux := None \<rparr>) (stp_reconfigure root ?u))" for root
    using r by (rule stp_calm_trans) (rule calm_update_same, simp)
  then have "no_new_forwarding ?u (update_port p (\<lambda>x. x\<lparr> sp_aux := None \<rparr>) (stp_reconfigure root ?u))" for root
    using len(2) by (rule stp_calm_no_new)
  moreover have "no_new_forwarding s ?u"
    using assms(2) len(1) by (intro no_new_set_port_state) simp_all
  ultimately have "no_new_forwarding s (update_port p (\<lambda>x. x\<lparr> sp_aux := None \<rparr>) (stp_reconfigure root ?u))" for root
    by (blast intro: no_new_forwarding_trans)
  then show ?thesis
    using stp_calm_no_new [OF stp_calm_refl len(1)] by (simp add: stp_port_disable_def Let_def)
qed

lemma port_enable_no_new:
  assumes "stp_inv s" "p < length (st_ports s)"
  shows "no_new_forwarding s (stp_port_enable p s)"
proof -
  let ?i = "stp_initialize_port p STP_BLOCKING s"
  have len: "length (st_ports s) = STP_MAX_PORTS" using assms(1) by (simp add: stp_inv_def stp_base_ok_def)
  have base: "stp_base_ok ?i" using assms by (intro initialize_port_ok) (simp_all add: stp_inv_def)
  then have "no_new_forwarding ?i (stp_port_state_selection ?i)"
    using port_state_selection_ok(4) [OF base] by (intro stp_calm_no_new) (simp_all add: stp_base_ok_def)
  moreover have "no_new_forwarding s ?i"
    unfolding stp_initialize_port_def using assms(2) len by (intro no_new_set_port_state) simp_all
  ultimately have "no_new_forwarding s (stp_port_state_selection ?i)" by (blast intro: no_new_forwarding_trans)
  then show ?thesis
    using stp_calm_no_new [OF stp_calm_refl len] by (simp add: stp_port_enable_def)
qed

lemma port_set_priority_calm:
  assumes "stp_inv s" "p < length (st_ports s)"
  shows "stp_calm s (stp_port_set_priority p v s)"
proof -
  define pid where "pid = ((sp_port_id (stp_port_at s p) AND 0xff) OR push_bit 8 (ucast v))"
  define t where "t = update_port p (\<lambda>x. x\<lparr> sp_port_id := pid \<rparr>)
    (if stp_is_designated_port s p then update_port p (\<lambda>x. x\<lparr> sp_designated_port := pid \<rparr>) s else s)"
  have "stp_inv t"
    unfolding t_def by (rule set_port_id_ok [OF assms]) (simp add: pid_def priority_keeps_number)
  then have d: "stp_base_ok (stp_become_designated_port p t)"
    by (simp add: stp_inv_def base_ok_become_designated_port)
  have "stp_calm s (if stp_is_designated_port s p then update_port p (\<lambda>x. x\<lparr> sp_designated_port := pid \<rparr>) s else s)"
    by (simp add: calm_update_same)
  then have t: "stp_calm s t" unfolding t_def by (rule stp_calm_trans) (rule calm_update_same, simp)
  then have "stp_calm s (stp_port_state_selection (stp_become_designated_port p t))"
    using become_designated_calm port_state_selection_ok(4) [OF d] by (blast intro: stp_calm_trans)
  then show ?thesis
    using t by (simp add: stp_port_set_priority_def Let_def pid_def [symmetric] t_def [symmetric])
qed

lemma get_changed_port_calm: "stp_calm s (fst (stp_get_changed_port s))"
proof (cases rule: get_changed_port_cases [of s])
  case (some p)
  have "stp_calm s (update_port p (\<lambda>x. x\<lparr> sp_state_changed := False \<rparr>) s)" by (rule calm_update_same) simp
  then show ?thesis using some(1) by (simp add: stp_calm_def)
qed (simp add: stp_calm_def calm_def)

lemma stp_do_no_new:
  assumes "stp_inv s" "stp_call_ok c" "\<nexists>ms. c = Tick ms"
  shows "no_new_forwarding s (stp_do c s)"
proof -
  have len: "length (st_ports s) = STP_MAX_PORTS" using assms(1) by (simp add: stp_inv_def stp_base_ok_def)
  note nn = stp_calm_no_new [OF _ len]
  have times: "stp_calm s (stp_set_hello_time ms s)" "stp_calm s (stp_set_max_age ms s)" "stp_calm s (stp_set_forward_delay ms s)" for ms
    using update_bridge_timers_frame(2) [of "s\<lparr> st_rq_hello_time := ms \<rparr>"] update_bridge_timers_frame(2) [of "s\<lparr> st_rq_max_age := ms \<rparr>"]
      update_bridge_timers_frame(2) [of "s\<lparr> st_rq_forward_delay := ms \<rparr>"]
    by (simp_all add: stp_set_hello_time_def stp_set_max_age_def stp_set_forward_delay_def stp_calm_def)
  have ids: "stp_calm s (stp_set_bridge_id b s)" "stp_calm s (stp_set_bridge_priority v s)" for b v
    using set_bridge_id_ok [OF assms(1)] by (simp_all add: stp_set_bridge_id_def stp_set_bridge_priority_def Let_def)
  have flags: "stp_calm s (fst (stp_check_and_reset_fdb_flush s))" "stp_calm s (stp_topology_change_detection s)"
    by (simp_all add: stp_check_and_reset_fdb_flush_def stp_calm_quiet quiet_simps)
  have ports: "stp_calm s (stp_port_set_aux p a s)" "stp_calm s (stp_port_enable_change_detection p s)"
    "stp_calm s (stp_port_disable_change_detection p s)" for p a
    by (simp_all add: stp_port_set_aux_def stp_port_enable_change_detection_def
        stp_port_disable_change_detection_def calm_update_same)
  have cost: "stp_calm s (stp_port_set_path_cost p c s)" "stp_calm s (stp_port_set_speed p v s)" for p c v
    using port_set_path_cost_ok [OF assms(1)] by (simp_all add: stp_port_set_speed_def)
  have bpdu: "stp_calm s (stp_received_bpdu p b s)" for p b using received_bpdu_ok [OF assms(1)] by simp
  show ?thesis
    using assms(2,3) len times ids flags ports cost bpdu get_changed_port_calm [of s]
      port_enable_no_new [OF assms(1)] port_disable_no_new [OF assms(1)] port_set_priority_calm [OF assms(1)]
    by (cases c) (simp_all add: nn)
qed

text \<open>
  C20.  A port starts to forward frames only by the expiry of its timer in a tick, and only from the
  learning state: whatever call is made in a reachable state, a port that forwards after it either
  forwarded before, or was learning and the call is a tick.  No call but a tick makes a port learn
  either.  So after a change of the topology no port goes to forwarding without having passed through
  the states in which it listens to other bridges.
\<close>

theorem stp_forwarding_from_learning:
  assumes "stp_reachable s" "stp_call_ok c" "p < STP_MAX_PORTS"
    and "sp_state (stp_port_at (stp_do c s) p) \<in> {STP_LEARNING, STP_FORWARDING}"
      "sp_state (stp_port_at (stp_do c s) p) \<noteq> sp_state (stp_port_at s p)"
  shows "(\<exists>ms. c = Tick ms) \<and>
    (sp_state (stp_port_at (stp_do c s) p) = STP_FORWARDING \<longrightarrow> sp_state (stp_port_at s p) = STP_LEARNING)"
proof (cases "\<exists>ms. c = Tick ms")
  case True
  then obtain ms where c: "c = Tick ms" ..
  obtain t where t: "stp_calm s t"
    "\<And>p. p < length (st_ports s) \<Longrightarrow> advance (sp_state (stp_port_at t p)) (sp_state (stp_port_at (stp_tick ms s) p))"
    using tick_ok [OF stp_reachable_inv [OF assms(1)], of ms] by blast
  have len: "p < length (st_ports s)" using assms(3) reachable_facts(1) [OF assms(1)] by simp
  have "calm (sp_state (stp_port_at s p)) (sp_state (stp_port_at t p))" using t(1) len by (simp add: stp_calm_def)
  then show ?thesis using t(2) [OF len] assms(4,5) c by (auto simp: calm_def advance_def)
next
  case False
  then show ?thesis
    using stp_do_no_new [OF stp_reachable_inv [OF assms(1)] assms(2)] assms(3-5)
    unfolding no_new_forwarding_def by metis
qed

section \<open>The protocol times\<close>

definition times :: "stp \<Rightarrow> int \<times> int \<times> int" where
  "times s = (st_max_age s, st_hello_time s, st_forward_delay s)"

definition bridge_times :: "stp \<Rightarrow> int \<times> int \<times> int" where
  "bridge_times s = (st_bridge_max_age s, st_bridge_hello_time s, st_bridge_forward_delay s)"

abbreviation all_times :: "stp \<Rightarrow> (int \<times> int \<times> int) \<times> (int \<times> int \<times> int)" where
  "all_times s \<equiv> (times s, bridge_times s)"

named_theorems times_simps

lemmas times_defs = times_def bridge_times_def

lemma times_primitive [times_simps]:
  "all_times (update_port p f s) = all_times s"
  "all_times (seq_change s) = all_times s"
  "all_times (stp_become_designated_port p s) = all_times s"
  "all_times (stp_root_selection s) = all_times s"
  by (simp_all add: times_defs update_port_def seq_change_def stp_become_designated_port_def
      stp_root_selection_def Let_def split: option.splits)

lemma times_update [times_simps]:
  "all_times (s\<lparr> st_hello_timer := t \<rparr>) = all_times s"
  "all_times (s\<lparr> st_tcn_timer := t \<rparr>) = all_times s"
  "all_times (s\<lparr> st_topology_change_timer := t \<rparr>) = all_times s"
  "all_times (s\<lparr> st_fdb_needs_flush := b \<rparr>) = all_times s"
  "all_times (s\<lparr> st_out := l \<rparr>) = all_times s"
  "all_times (s\<lparr> st_bridge_id := i \<rparr>) = all_times s"
  "all_times (s\<lparr> st_elapsed_remainder := e \<rparr>) = all_times s"
  "all_times (s\<lparr> st_first_changed_port := n \<rparr>) = all_times s"
  "all_times (s\<lparr> st_topology_change_detected := b \<rparr>) = all_times s"
  "all_times (s\<lparr> st_topology_change := b \<rparr>) = all_times s"
  by (simp_all add: times_defs)

lemma times_for_each:
  "(\<And>p t. all_times (body p t) = all_times t) \<Longrightarrow> all_times (for_each_enabled_port body s) = all_times s"
  by (rule for_each_enabled_port_inv [where n = "length (st_ports s)"]) simp_all

lemma times_set_port_state [times_simps]: "all_times (stp_set_port_state p v s) = all_times s"
  unfolding stp_set_port_state_def Let_def by (simp add: times_defs update_port_def seq_change_def)

lemma times_send_bpdu [times_simps]: "all_times (stp_send_bpdu p b s) = all_times s"
  unfolding stp_send_bpdu_def Let_def by (simp only: times_simps)

lemma times_transmit_config [times_simps]: "all_times (stp_transmit_config p s) = all_times s"
  unfolding stp_transmit_config_def Let_def by (simp only: times_simps split: if_splits) simp

lemma times_config_bpdu_generation [times_simps]: "all_times (stp_config_bpdu_generation s) = all_times s"
  unfolding stp_config_bpdu_generation_def by (rule times_for_each) (simp only: times_simps split: if_splits, simp)

lemma times_transmit_tcn [times_simps]: "all_times (stp_transmit_tcn s) = all_times s"
  unfolding stp_transmit_tcn_def by (simp only: times_simps split: option.splits) simp

lemma times_topology_change_detection [times_simps]: "all_times (stp_topology_change_detection s) = all_times s"
proof -
  have "all_times (s\<lparr> st_topology_change := True, st_topology_change_timer := t \<rparr>) = all_times s" for t
    by (simp add: times_defs)
  moreover have "all_times (t\<lparr> st_fdb_needs_flush := True, st_topology_change_detected := True \<rparr>) = all_times t" for t
    by (simp add: times_defs)
  ultimately show ?thesis
    unfolding stp_topology_change_detection_def Let_def by (simp only: times_simps split: if_splits) simp
qed

lemma times_topology_change [times_simps]:
  "all_times (stp_topology_change_acknowledged s) = all_times s"
  "all_times (stp_acknowledge_topology_change p s) = all_times s"
  "all_times (stp_topology_change_timer_expiry s) = all_times s"
  unfolding stp_acknowledge_topology_change_def
  by (simp_all only: times_simps) (simp_all add: times_defs stp_topology_change_acknowledged_def stp_topology_change_timer_expiry_def)

lemma times_designated_port_selection [times_simps]: "all_times (stp_designated_port_selection s) = all_times s"
  unfolding stp_designated_port_selection_def by (rule times_for_each) (simp only: times_simps split: if_splits, simp)

lemma times_configuration_update [times_simps]: "all_times (stp_configuration_update s) = all_times s"
  unfolding stp_configuration_update_def by (simp only: times_simps)

lemma times_make [times_simps]:
  "all_times (stp_make_forwarding p s) = all_times s" "all_times (stp_make_blocking p s) = all_times s"
  unfolding stp_make_forwarding_def stp_make_blocking_def Let_def
  by (simp_all only: times_simps split: if_splits) simp_all

lemma times_select_port_state [times_simps]: "all_times (stp_select_port_state p s) = all_times s"
  unfolding stp_select_port_state_def by (simp only: times_simps split: if_splits) simp

lemma times_port_state_selection [times_simps]: "all_times (stp_port_state_selection s) = all_times s"
  unfolding stp_port_state_selection_def by (rule times_for_each) (rule times_select_port_state)

lemma times_timer_expiry [times_simps]:
  "all_times (stp_hello_timer_expiry s) = all_times s"
  "all_times (stp_tcn_timer_expiry s) = all_times s"
  "all_times (stp_hold_timer_expiry p s) = all_times s"
  "all_times (stp_forward_delay_timer_expiry p s) = all_times s"
  unfolding stp_hello_timer_expiry_def stp_tcn_timer_expiry_def stp_hold_timer_expiry_def
    stp_forward_delay_timer_expiry_def Let_def
  by (simp_all only: times_simps split: if_splits) simp_all

lemma times_tick [times_simps]:
  "all_times (stp_tick_hello e s) = all_times s"
  "all_times (stp_tick_tcn e s) = all_times s"
  "all_times (stp_tick_topology_change e s) = all_times s"
  "all_times (stp_tick_forward_delay e p s) = all_times s"
  "all_times (stp_tick_hold e p s) = all_times s"
  unfolding stp_tick_hello_def stp_tick_tcn_def stp_tick_topology_change_def stp_tick_forward_delay_def
    stp_tick_hold_def Let_def case_prod_beta
  by (simp_all only: times_simps split: if_splits) simp_all

text \<open>The times a bridge may be configured to and the times any bridge may be told by its root.\<close>

fun bridge_times_ok :: "int \<times> int \<times> int \<Rightarrow> bool" where
  "bridge_times_ok (max_age, hello_time, forward_delay) \<longleftrightarrow>
    256 \<le> hello_time \<and> hello_time \<le> 2560 \<and> 1536 \<le> max_age \<and> max_age \<le> 10240 \<and>
    1024 \<le> forward_delay \<and> forward_delay \<le> 7680 \<and>
    2 * (hello_time + 256) \<le> max_age \<and> max_age \<le> 2 * (forward_delay - 256) + 2"

fun times_16bit :: "int \<times> int \<times> int \<Rightarrow> bool" where
  "times_16bit (max_age, hello_time, forward_delay) \<longleftrightarrow>
    0 \<le> max_age \<and> max_age < 65536 \<and> 0 \<le> hello_time \<and> hello_time < 65536 \<and> 0 \<le> forward_delay \<and> forward_delay < 65536"

definition times_ok :: "stp \<Rightarrow> bool" where
  "times_ok s \<longleftrightarrow> bridge_times_ok (bridge_times s) \<and> times_16bit (times s)"

lemma times_ok_cong: "all_times t = all_times s \<Longrightarrow> times_ok t = times_ok s"
  by (simp add: times_ok_def)

lemma times_ok_use_bridge_times: "bridge_times_ok (bridge_times s) \<Longrightarrow> times_ok (stp_use_bridge_times s)"
  by (simp add: times_ok_def times_defs stp_use_bridge_times_def)

lemma times_ok_become_root_bridge: "times_ok s \<Longrightarrow> times_ok (stp_become_root_bridge s)"
proof -
  assume "times_ok s"
  then have "times_ok (stp_use_bridge_times s)" by (intro times_ok_use_bridge_times) (simp add: times_ok_def)
  moreover have "all_times (stp_become_root_bridge s) = all_times (stp_use_bridge_times s)"
    unfolding stp_become_root_bridge_def Let_def by (simp only: times_simps)
  ultimately show ?thesis using times_ok_cong by blast
qed

lemma times_ok_reconfigure: "times_ok s \<Longrightarrow> times_ok (stp_reconfigure root s)"
  using times_ok_cong [of "stp_port_state_selection (stp_configuration_update s)" s] times_ok_become_root_bridge
  unfolding stp_reconfigure_def Let_def by (simp only: times_simps split: if_splits) simp

lemma ms_to_timer_small: "0 \<le> ms \<Longrightarrow> ms < 8388608 \<Longrightarrow> ms_to_timer ms = ms * 256 div 1000"
  by (simp add: ms_to_timer_def int32_id c_div_nonneg)

lemma timer_to_ms_small: "0 \<le> t \<Longrightarrow> t < 2147483 \<Longrightarrow> timer_to_ms t = t * 1000 div 256"
  by (simp add: timer_to_ms_def int32_id c_div_nonneg)

lemma floor_tick: "1000 * (x * 256 div 1000) \<le> x * 256" "x * 256 < 1000 * (x * 256 div 1000) + 1000" for x :: int
  by (simp, linarith)

lemma hello_tick:
  fixes ht ma H A :: int
  assumes "2 * (ht + 1000) \<le> ma" "1000 * H \<le> ht * 256" "ma * 256 < 1000 * A + 1000"
  shows "2 * (H + 256) \<le> A"
proof -
  have "256 * (2 * (ht + 1000)) \<le> 256 * ma" using assms(1) by (intro mult_left_mono) auto
  moreover have "2 * (1000 * H) \<le> 512 * ht" using assms(2) by simp
  ultimately have "2000 * H + 512000 < 1000 * A + 1000" using assms(3) by (simp add: algebra_simps)
  then show ?thesis by simp
qed

lemma forward_tick:
  fixes ma fd m F A :: int
  assumes "ma \<le> 2 * m + 1" "m + 1000 \<le> fd" "1000 * A \<le> ma * 256" "fd * 256 < 1000 * F + 1000"
  shows "A \<le> 2 * (F - 256) + 2"
proof -
  have "256 * ma \<le> 256 * (2 * m + 1)" using assms(1) by (intro mult_left_mono) auto
  moreover have "512 * (m + 1000) \<le> 512 * fd" using assms(2) by (intro mult_left_mono) auto
  moreover have "512 * fd < 2000 * F + 2000" using assms(4) by simp
  ultimately have "1000 * A < 2000 * F - 509000" using assms(3) by (simp add: algebra_simps)
  then show ?thesis by simp
qed

lemma bound_ticks:
  fixes x T lo hi :: int
  assumes "1000 * T \<le> x * 256" "x * 256 < 1000 * T + 1000" "lo \<le> x" "x \<le> hi"
  shows "lo * 256 div 1000 \<le> T" "1000 * T \<le> hi * 256"
proof -
  have T: "T = x * 256 div 1000" using assms(1,2) by (intro int_div_pos_eq [symmetric, where r = "x * 256 - 1000 * T"]) auto
  show "lo * 256 div 1000 \<le> T" unfolding T using assms(3) by (intro zdiv_mono1) auto
  show "1000 * T \<le> hi * 256" using assms(1,4) by simp
qed

lemma update_bridge_timers_ok: "times_16bit (times s) \<Longrightarrow> times_ok (stp_update_bridge_timers s)"
proof -
  assume t: "times_16bit (times s)"
  define ht where "ht = clamp (st_rq_hello_time s) 1000 10000"
  define ma where "ma = clamp (st_rq_max_age s) (max (2 * (ht + 1000)) 6000) 40000"
  define fd where "fd = clamp (st_rq_forward_delay s) (c_div ma 2 + 1000) 30000"
  have ht: "1000 \<le> ht" "ht \<le> 10000" by (simp_all add: ht_def clamp_def)
  have ma: "6000 \<le> ma" "ma \<le> 40000" "2 * (ht + 1000) \<le> ma" using ht by (auto simp: ma_def clamp_def)
  have "ma div 2 \<le> 20000" using ma by linarith
  then have fd: "ma div 2 + 1000 \<le> fd" "fd \<le> 30000" using ma by (simp_all add: fd_def clamp_def c_div_nonneg)
  have ticks: "ms_to_timer ht = ht * 256 div 1000" "ms_to_timer ma = ma * 256 div 1000" "ms_to_timer fd = fd * 256 div 1000"
    using ht ma fd by (simp_all add: ms_to_timer_small)
  note q = floor_tick [of ht, folded ticks(1)] floor_tick [of ma, folded ticks(2)] floor_tick [of fd, folded ticks(3)]
  obtain m where m: "ma \<le> 2 * m + 1" "m + 1000 \<le> fd" using fd(1) that [of "ma div 2"] by linarith
  then have m3: "3000 \<le> m" using ma(1) by arith
  have "2 * (ms_to_timer ht + 256) \<le> ms_to_timer ma" by (rule hello_tick [OF ma(3) q(1,4)])
  then have b: "bridge_times_ok (ms_to_timer ma, ms_to_timer ht, ms_to_timer fd)"
    using bound_ticks [OF q(1,2) ht] bound_ticks [OF q(3,4) ma(1,2)] bound_ticks [OF q(5,6) _ fd(2), of 4000] m3 m(2)
      forward_tick [OF m(1,2) q(3,6)] by simp
  let ?u = "s\<lparr> st_bridge_hello_time := ms_to_timer ht, st_bridge_max_age := ms_to_timer ma,
                st_bridge_forward_delay := ms_to_timer fd \<rparr>"
  have eq: "stp_update_bridge_timers s = (if stp_is_root_bridge ?u then stp_use_bridge_times ?u else ?u)"
    unfolding stp_update_bridge_timers_def Let_def fd_def ma_def ht_def by (rule refl)
  have bt: "bridge_times ?u = (ms_to_timer ma, ms_to_timer ht, ms_to_timer fd)" "times ?u = times s"
    by (simp_all add: times_defs)
  have "times_ok ?u" using b t unfolding times_ok_def bt by blast
  moreover have "times_ok (stp_use_bridge_times ?u)"
    by (rule times_ok_use_bridge_times) (use b in \<open>simp only: bt\<close>)
  ultimately have "times_ok ?u" "times_ok (stp_use_bridge_times ?u)" .
  then show ?thesis using eq by simp
qed

lemma times_ok_received_config_bpdu:
  assumes "times_ok s"
  shows "times_ok (stp_received_config_bpdu p c s)"
proof -
  have rec: "times_ok (stp_record_config_timeout_values c t)" if "bridge_times t = bridge_times s" for t
    using assms that uint_bounded [of "cb_max_age c"] uint_bounded [of "cb_hello_time c"] uint_bounded [of "cb_forward_delay c"]
    by (simp add: times_ok_def times_defs stp_record_config_timeout_values_def)
  define r where "r = stp_port_state_selection (stp_configuration_update (stp_record_config_information p c s))"
  have "all_times (stp_resign_root r) = all_times r"
    unfolding stp_resign_root_def Let_def by (simp only: times_simps split: if_splits) simp
  moreover have "all_times r = all_times s"
    unfolding r_def stp_record_config_information_def by (simp only: times_simps)
  moreover define t where "t = (if \<not> stp_is_root_bridge r \<and> stp_is_root_bridge s then stp_resign_root r else r)"
  ultimately have t: "all_times t = all_times s" by simp
  have "all_times (stp_root_port_heard c t) = all_times (stp_record_config_timeout_values c t)"
    unfolding stp_root_port_heard_def Let_def by (simp only: times_simps split: if_splits) simp
  from times_ok_cong [OF this] have "times_ok (stp_root_port_heard c t)" using rec [of t] t by blast
  moreover have "times_ok t" using assms t times_ok_cong by blast
  moreover have "times_ok (stp_transmit_config p s)" using assms times_ok_cong [OF times_transmit_config] by blast
  ultimately show ?thesis
    unfolding stp_received_config_bpdu_def Let_def r_def [symmetric] t_def [symmetric] using assms by simp
qed

lemma times_ok_received_bpdu:
  assumes "times_ok s"
  shows "times_ok (stp_received_bpdu p b s)"
proof -
  have upd: "times_ok (update_port p f t) = times_ok t" for f t by (rule times_ok_cong) (rule times_simps)
  have "all_times (stp_received_tcn_bpdu p s) = all_times s"
    unfolding stp_received_tcn_bpdu_def by (simp only: times_simps split: if_splits) simp
  from times_ok_cong [OF this] have "times_ok (stp_received_tcn_bpdu p s)" using assms by blast
  then show ?thesis
    using assms times_ok_received_config_bpdu [OF assms]
    by (simp add: stp_received_bpdu_def stp_count_error_def upd)
qed

lemma times_ok_tick_message_age:
  assumes "times_ok s"
  shows "times_ok (stp_tick_message_age e p s)"
proof -
  define u where "u = update_port p (\<lambda>x. x\<lparr> sp_message_age_timer :=
    fst (stp_timer_expired (sp_message_age_timer (stp_port_at s p)) e (st_max_age s)) \<rparr>) s"
  have u: "times_ok u" unfolding u_def using assms times_ok_cong [OF times_primitive(1)] by blast
  then have "times_ok (stp_reconfigure root (stp_become_designated_port p u))" for root
    using times_ok_reconfigure times_ok_cong [OF times_primitive(3)] by blast
  then show ?thesis
    using u by (simp add: stp_tick_message_age_def stp_message_age_timer_expiry_def Let_def case_prod_beta u_def)
qed

lemma times_ok_tick:
  assumes "times_ok s"
  shows "times_ok (stp_tick ms s)"
proof -
  have "all_times (stp_tick_topology_change e (stp_tick_tcn e (stp_tick_hello e t))) = all_times t" for e t
    by (simp only: times_simps)
  note first = times_ok_cong [OF this]
  have second: "times_ok (for_each_enabled_port (stp_tick_message_age e) t)" if "times_ok t" for e t
    using that by (rule for_each_enabled_port_inv) (auto intro: times_ok_tick_message_age)
  have "all_times (for_each_enabled_port (\<lambda>p s. stp_tick_hold e p (stp_tick_forward_delay e p s)) t) = all_times t" for e t
    by (rule times_for_each) (simp only: times_simps)
  note third = times_ok_cong [OF this]
  have "times_ok (stp_tick_timers e t)" if "times_ok t" for e t
    unfolding stp_tick_timers_def Let_def using third second first that by blast
  moreover have "times_ok (s\<lparr> st_elapsed_remainder := r \<rparr>)" for r
    using assms times_ok_cong [OF times_update(7)] by blast
  ultimately show ?thesis by (simp add: stp_tick_def Let_def)
qed

lemma times_ok_set_bridge_id:
  assumes "times_ok s"
  shows "times_ok (set_bridge_id b s)"
proof -
  let ?t = "for_each_enabled_port (\<lambda>p s. if stp_is_designated_port s p
    then update_port p (\<lambda>x. x\<lparr> sp_designated_bridge := b \<rparr>) s else s) s"
  have "all_times ?t = all_times s" by (rule times_for_each) (simp only: times_simps split: if_splits, simp)
  then have "all_times (?t\<lparr> st_bridge_id := b \<rparr>) = all_times s" by (simp only: times_simps)
  from times_ok_cong [OF this] have "times_ok (?t\<lparr> st_bridge_id := b \<rparr>)" using assms by blast
  then show ?thesis using assms by (simp add: set_bridge_id_def Let_def times_ok_reconfigure)
qed

lemma times_ok_port_calls:
  assumes "times_ok s"
  shows "times_ok (stp_port_enable p s)" "times_ok (stp_port_disable p s)" "times_ok (stp_port_set_priority p v s)"
    "times_ok (stp_port_set_path_cost p c s)" "times_ok (fst (stp_get_changed_port s))"
proof -
  have en: "all_times (stp_port_enable p s) = all_times s"
    unfolding stp_port_enable_def stp_initialize_port_def by (simp only: times_simps split: if_splits) simp
  have pr: "all_times (stp_port_set_priority p v s) = all_times s"
    unfolding stp_port_set_priority_def Let_def by (simp only: times_simps split: if_splits) simp
  have pc: "all_times (stp_port_set_path_cost p c s) = all_times s"
    unfolding stp_port_set_path_cost_def by (simp only: times_simps split: if_splits) simp
  have gc: "all_times (fst (stp_get_changed_port s)) = all_times s"
    by (cases rule: get_changed_port_cases [of s]) (simp_all only: times_simps fst_conv)
  show "times_ok (stp_port_enable p s)" "times_ok (stp_port_set_priority p v s)"
    "times_ok (stp_port_set_path_cost p c s)" "times_ok (fst (stp_get_changed_port s))"
    using assms times_ok_cong [OF en] times_ok_cong [OF pr] times_ok_cong [OF pc] times_ok_cong [OF gc] by blast+
  have "all_times (update_port p f (stp_set_port_state p STP_DISABLED (stp_become_designated_port p s))) = all_times s" for f
    by (simp only: times_simps)
  note dis = times_ok_cong [OF this]
  show "times_ok (stp_port_disable p s)"
    using assms dis times_ok_cong [OF times_primitive(1)] by (simp add: stp_port_disable_def Let_def times_ok_reconfigure)
qed

lemma times_create_ports: "all_times (fold stp_create_port ps s) = all_times s"
proof (induction ps arbitrary: s)
  case (Cons p ps)
  have "all_times (stp_create_port p s) = all_times s"
    unfolding stp_create_port_def stp_initialize_port_def by (simp only: times_simps)
  then show ?case using Cons by simp
qed simp

lemma times_ok_create: "times_ok (stp_create name b)"
proof -
  define s where "s = stp_zero\<lparr> st_name := name, st_bridge_id := (if drop_bit 48 b = 0
      then b OR push_bit 48 STP_DEFAULT_BRIDGE_PRIORITY else b), st_rq_max_age := STP_DEFAULT_MAX_AGE,
    st_rq_hello_time := STP_DEFAULT_HELLO_TIME, st_rq_forward_delay := STP_DEFAULT_FWD_DELAY \<rparr>"
  have "times_16bit (times s)" by (simp add: s_def times_def stp_zero_def)
  then have "times_ok (stp_use_bridge_times (stp_update_bridge_timers s))"
    using update_bridge_timers_ok times_ok_use_bridge_times times_ok_def by blast
  then have "times_ok (stp_create_bridge name b)"
    by (simp add: stp_create_bridge_def Let_def s_def times_ok_def times_defs)
  then show ?thesis using times_ok_cong [OF times_create_ports] unfolding stp_create_def Let_def by blast
qed

lemma times_ok_do:
  assumes "times_ok s"
  shows "times_ok (stp_do c s)"
proof -
  have t: "times_16bit (times s)" using assms by (simp add: times_ok_def)
  have set: "times_ok (stp_set_hello_time ms s)" "times_ok (stp_set_max_age ms s)" "times_ok (stp_set_forward_delay ms s)" for ms
    unfolding stp_set_hello_time_def stp_set_max_age_def stp_set_forward_delay_def
    by (rule update_bridge_timers_ok, use t in \<open>simp add: times_def\<close>)+
  have flags: "times_ok (fst (stp_check_and_reset_fdb_flush s))" "times_ok (stp_topology_change_detection s)"
    using assms times_ok_cong [OF times_update(4)] times_ok_cong [OF times_topology_change_detection]
    by (simp_all add: stp_check_and_reset_fdb_flush_def)
  have ports: "times_ok (stp_port_set_aux p a s)" "times_ok (stp_port_enable_change_detection p s)"
    "times_ok (stp_port_disable_change_detection p s)" for p a
    unfolding stp_port_set_aux_def stp_port_enable_change_detection_def stp_port_disable_change_detection_def
    using assms times_ok_cong [OF times_primitive(1)] by blast+
  show ?thesis
    using set flags ports times_ok_tick [OF assms] times_ok_set_bridge_id [OF assms] times_ok_port_calls [OF assms]
      times_ok_received_bpdu [OF assms]
    by (cases c) (simp_all add: stp_set_bridge_id_def stp_set_bridge_priority_def stp_port_set_speed_def Let_def)
qed

lemma reachable_times_ok: "stp_reachable s \<Longrightarrow> times_ok s"
  by (induction rule: stp_reachable.induct) (simp_all add: times_ok_create times_ok_do)



text \<open>
  The rounding can matter: for a max age of 6004 ms and a hello time and forward delay of at most 1000
  and 4000 ms the second relation fails by a tick, and, in milliseconds, as the getters report it.
\<close>

lemma forward_delay_relation_fails:
  "(let s = stp_update_bridge_timers (stp_zero\<lparr> st_rq_hello_time := 1000, st_rq_max_age := 6004, st_rq_forward_delay := 4000 \<rparr>)
    in 2 * (st_bridge_forward_delay s - ms_to_timer 1000) < st_bridge_max_age s \<and>
       2 * (stp_get_forward_delay s - 1000) < stp_get_max_age s)"
  by (simp add: stp_update_bridge_timers_def stp_zero_def Let_def clamp_def c_div_nonneg ms_to_timer_small
      timer_to_ms_small stp_is_root_bridge_def stp_use_bridge_times_def stp_get_forward_delay_def stp_get_max_age_def)

section \<open>Progress\<close>

fun next_state :: "stp_state \<Rightarrow> stp_state" where
  "next_state STP_LISTENING = STP_LEARNING"
| "next_state STP_LEARNING = STP_FORWARDING"
| "next_state a = a"

text \<open>The information received on a port does not get too old within a number of ticks.\<close>

definition stays_fresh :: "int \<Rightarrow> int \<Rightarrow> stp_port \<Rightarrow> bool" where
  "stays_fresh e max_age x \<longleftrightarrow> (tm_active (sp_message_age_timer x) \<longrightarrow> tm_value (sp_message_age_timer x) + e < max_age)"

lemma tick_message_age_fresh:
  assumes "stays_fresh e (st_max_age s) (stp_port_at s p)"
  shows "stp_tick_message_age e p s =
    update_port p (\<lambda>x. x\<lparr> sp_message_age_timer := fst (stp_timer_expired (sp_message_age_timer (stp_port_at s p)) e (st_max_age s)) \<rparr>) s"
  using assms by (cases "tm_active (sp_message_age_timer (stp_port_at s p))")
    (simp_all add: stp_tick_message_age_def stp_timer_expired_def stays_fresh_def Let_def)

lemma tick_message_age_loop_fresh:
  assumes "\<forall>q<length (st_ports s). stays_fresh e (st_max_age s) (stp_port_at s q)" "p < length (st_ports s)"
  defines "t \<equiv> for_each_enabled_port (stp_tick_message_age e) s"
  shows "length (st_ports t) = length (st_ports s)" "all_times t = all_times s"
    "sp_state (stp_port_at t p) = sp_state (stp_port_at s p)"
    "sp_forward_delay_timer (stp_port_at t p) = sp_forward_delay_timer (stp_port_at s p)"
proof -
  let ?n = "length (st_ports s)"
  let ?I = "\<lambda>m t. length (st_ports t) = ?n \<and> all_times t = all_times s \<and>
    sp_state (stp_port_at t p) = sp_state (stp_port_at s p) \<and>
    sp_forward_delay_timer (stp_port_at t p) = sp_forward_delay_timer (stp_port_at s p) \<and>
    (\<forall>q<?n. m \<le> q \<longrightarrow> stp_port_at t q = stp_port_at s q)"
  have "?I ?n t"
    unfolding t_def
  proof (rule for_each_enabled_port_rule [where I = ?I])
    fix q u
    assume q: "q < ?n" and I: "?I q u"
    have "st_max_age u = st_max_age s" using I by (simp add: times_def)
    then have "stays_fresh e (st_max_age u) (stp_port_at u q)" using I q assms(1) by simp
    note step = tick_message_age_fresh [OF this]
    have "all_times (stp_tick_message_age e q u) = all_times s" unfolding step using I by (simp only: times_simps)
    then show "?I (Suc q) (stp_tick_message_age e q u)"
      unfolding step using I q assms(2) by (cases "q = p") (simp_all add: frame_simps)
  qed (use assms(2) in simp_all)
  then show "length (st_ports t) = length (st_ports s)" "all_times t = all_times s"
    "sp_state (stp_port_at t p) = sp_state (stp_port_at s p)"
    "sp_forward_delay_timer (stp_port_at t p) = sp_forward_delay_timer (stp_port_at s p)" by blast+
qed

lemma tick_forward_delay_others:
  assumes "p < length (st_ports s)" "q < length (st_ports s)" "q \<noteq> p"
  shows "quiet_port (stp_port_at (stp_tick_forward_delay e p s) q) = quiet_port (stp_port_at s q)"
proof -
  obtain tm expired where te: "stp_timer_expired (sp_forward_delay_timer (stp_port_at s p)) e (st_forward_delay s) = (tm, expired)"
    by fastforce
  define u where "u = update_port p (\<lambda>x. x\<lparr> sp_forward_delay_timer := tm \<rparr>) s"
  have u: "p < length (st_ports u)" "q < length (st_ports u)" "stp_port_at u q = stp_port_at s q"
    using assms by (simp_all add: u_def frame_simps)
  let ?f = "stp_set_port_state p STP_FORWARDING u"
  have "quiet_port (stp_port_at (stp_topology_change_detection ?f) q) = quiet_port (stp_port_at ?f q)"
    using u by (intro quiet_cong(5) [OF quiet_topology_change_detection]) (simp add: frame_simps)
  moreover have "stp_port_at ?f q = stp_port_at s q" using u assms(3) by (simp add: frame_simps)
  ultimately have "quiet_port (stp_port_at (stp_forward_delay_timer_expiry p u) q) = quiet_port (stp_port_at s q)"
    using u assms(3) by (simp add: stp_forward_delay_timer_expiry_def Let_def frame_simps)
  then show ?thesis
    using u(3) by (simp add: stp_tick_forward_delay_def te Let_def u_def)
qed

lemma tick_forward_delay_next:
  assumes "stp_base_ok s" "p < length (st_ports s)"
    and "st_forward_delay s \<le> tm_value (sp_forward_delay_timer (stp_port_at s p)) + e"
  shows "sp_state (stp_port_at (stp_tick_forward_delay e p s) p) = next_state (sp_state (stp_port_at s p))"
proof -
  let ?tm = "sp_forward_delay_timer (stp_port_at s p)"
  have tmok: "tm_active ?tm = (sp_state (stp_port_at s p) \<in> {STP_LISTENING, STP_LEARNING})"
    using assms(1,2) by (simp add: stp_base_ok_def stp_timer_ok_def)
  define u where "u = update_port p (\<lambda>x. x\<lparr> sp_forward_delay_timer := fst (stp_timer_expired ?tm e (st_forward_delay s)) \<rparr>) s"
  have t: "stp_tick_forward_delay e p s = (if tm_active ?tm then stp_forward_delay_timer_expiry p u else u)"
    using assms(3) by (simp add: stp_tick_forward_delay_def stp_timer_expired_def Let_def u_def)
  have u: "p < length (st_ports u)" "sp_state (stp_port_at u p) = sp_state (stp_port_at s p)"
    using assms(2) by (simp_all add: u_def frame_simps)
  let ?f = "stp_set_port_state p STP_FORWARDING u"
  have pf: "p < length (st_ports ?f)" "sp_state (stp_port_at ?f p) = STP_FORWARDING" using u by (simp_all add: frame_simps)
  have "sp_state (stp_port_at (stp_topology_change_detection ?f) p) = STP_FORWARDING"
    using quiet_cong(5) [OF quiet_topology_change_detection pf(1)] pf(2) by (metis quiet_port_fields(1))
  then show ?thesis
    using t u pf(2) tmok
    by (cases "sp_state (stp_port_at s p)") (simp_all add: stp_forward_delay_timer_expiry_def Let_def frame_simps)
qed

lemma tick_forward_delay_progress:
  fixes e :: int
  assumes "stp_inv s" "p < length (st_ports s)"
    and "st_forward_delay s \<le> tm_value (sp_forward_delay_timer (stp_port_at s p)) + e"
  defines "body \<equiv> \<lambda>p t. stp_tick_hold e p (stp_tick_forward_delay e p t)"
  shows "sp_state (stp_port_at (for_each_enabled_port body s) p) = next_state (sp_state (stp_port_at s p))"
proof -
  let ?n = "length (st_ports s)"
  let ?I = "\<lambda>m t. stp_inv t \<and> length (st_ports t) = ?n \<and> all_times t = all_times s \<and>
    (if p < m then sp_state (stp_port_at t p) = next_state (sp_state (stp_port_at s p))
     else quiet_port (stp_port_at t p) = quiet_port (stp_port_at s p))"
  have "?I ?n (for_each_enabled_port body s)"
  proof (rule for_each_enabled_port_rule [where I = ?I])
    fix q t
    assume q: "q < ?n" and I: "?I q t"
    let ?u = "stp_tick_forward_delay e q t"
    have t: "stp_inv t" "q < length (st_ports t)" using I q by simp_all
    note adv = tick_forward_delay_advances [OF t, of e]
    have c: "core ?u = core t" using adv by (simp add: stp_advances_def)
    have len: "length (st_ports ?u) = ?n" using core_cong(2) [OF c] I by simp
    have "quiet (stp_tick_hold e q ?u) = quiet ?u" by (rule quiet_tick_hold)
    note h = quiet_cong [OF this]
    have inv: "stp_inv (body q t)" unfolding body_def h(1) using stp_advances_inv [OF t adv] .
    have qp: "quiet_port (stp_port_at (body q t) p) = quiet_port (stp_port_at ?u p)"
      unfolding body_def using h(5) [of p] len assms(2) by simp
    have tm: "all_times (body q t) = all_times s" unfolding body_def using I by (simp only: times_simps)
    have lb: "length (st_ports (body q t)) = ?n" unfolding body_def using h(4) len by simp
    show "?I (Suc q) (body q t)"
    proof (cases "q = p")
      case True
      then have "quiet_port (stp_port_at t p) = quiet_port (stp_port_at s p)" using I by simp
      then have "sp_forward_delay_timer (stp_port_at t p) = sp_forward_delay_timer (stp_port_at s p)"
        "sp_state (stp_port_at t p) = sp_state (stp_port_at s p)" by (metis quiet_port_fields)+
      moreover have "st_forward_delay t = st_forward_delay s" using I by (simp add: times_def)
      ultimately have "sp_state (stp_port_at ?u p) = next_state (sp_state (stp_port_at s p))"
        using tick_forward_delay_next [of t p e] t True assms(3) by (simp add: stp_inv_def)
      then show ?thesis using inv lb tm qp True by (metis lessI quiet_port_fields(1))
    next
      case False
      then have "quiet_port (stp_port_at ?u p) = quiet_port (stp_port_at t p)"
        using tick_forward_delay_others [of q t p e] t I assms(2) by simp
      then show ?thesis using inv lb tm qp I False by (metis less_Suc_eq quiet_port_fields(1))
    qed
  next
    fix q t
    assume "q < ?n" and I: "?I q t" and d: "sp_state (stp_port_at t q) = STP_DISABLED"
    then show "?I (Suc q) t"
      by (cases "q = p") (auto simp: less_Suc_eq dest!: arg_cong [where f = sp_state] simp: quiet_port_fields)
  qed (use assms(1) in simp_all)
  then show ?thesis using assms(2) by simp
qed

text \<open>A bridge just created with one port enabled.\<close>

definition idle_port :: "stp_port \<Rightarrow> bool" where
  "idle_port x \<longleftrightarrow> \<not> tm_active (sp_message_age_timer x) \<and> tm_value (sp_forward_delay_timer x) = 0"

definition idle :: "stp \<Rightarrow> bool" where
  "idle s \<longleftrightarrow> st_elapsed_remainder s = 0 \<and> (\<forall>x\<in>set (st_ports s). idle_port x)"

lemma idle_quiet: "quiet t = quiet s \<Longrightarrow> idle t = idle s"
proof -
  have "idle (quiet s) = idle s" for s
    by (simp add: idle_def quiet_def idle_port_def quiet_port_def)
  then show "quiet t = quiet s \<Longrightarrow> idle t = idle s" by metis
qed

lemma idle_update_port:
  assumes "idle s" "\<And>x. idle_port x \<Longrightarrow> idle_port (f x)" "p < length (st_ports s)"
  shows "idle (update_port p f s)"
  using assms by (auto simp: idle_def update_port_def dest!: set_update_subset_insert [THEN subsetD])

lemma idle_set_port_state:
  assumes "idle s" "p < length (st_ports s)"
  shows "idle (stp_set_port_state p v s)"
proof -
  let ?f = "\<lambda>x. x\<lparr> sp_state := v, sp_state_changed := sp_state_changed x \<or> v \<noteq> sp_state x \<rparr>"
  have "idle (update_port p ?f s)" using assms by (intro idle_update_port) (simp_all add: idle_port_def)
  moreover have "st_elapsed_remainder (stp_set_port_state p v s) = st_elapsed_remainder s"
    by (simp add: stp_set_port_state_def update_port_def seq_change_def Let_def)
  ultimately show ?thesis using assms(2) by (simp add: idle_def frame_simps) (simp add: update_port_def)
qed

lemma idle_set_and_update:
  assumes "idle s" "\<And>x. idle_port x \<Longrightarrow> idle_port (f x)" "p < length (st_ports s)"
  shows "idle (update_port p f (stp_set_port_state p v s))"
proof -
  have "p < length (st_ports (stp_set_port_state p v s))" using assms(3) by (simp add: frame_simps)
  then show ?thesis using idle_update_port [OF idle_set_port_state [OF assms(1,3)]] assms(2) by blast
qed

lemma idle_make_forwarding:
  assumes "idle s" "p < length (st_ports s)"
  shows "idle (stp_make_forwarding p s)"
proof -
  have "idle (update_port p (\<lambda>x. x\<lparr> sp_forward_delay_timer := stp_start_timer 0 \<rparr>) (stp_set_port_state p STP_LISTENING s))"
    by (rule idle_set_and_update [OF assms(1) _ assms(2)]) (simp add: idle_port_def stp_start_timer_def)
  then show ?thesis using assms(1) by (simp add: stp_make_forwarding_def)
qed

lemma idle_make_blocking:
  assumes "idle s" "p < length (st_ports s)"
  shows "idle (stp_make_blocking p s)"
proof -
  define u where "u = (if sp_state (stp_port_at s p) \<in> {STP_FORWARDING, STP_LEARNING} \<and>
    sp_change_detection_enabled (stp_port_at s p) then stp_topology_change_detection s else s)"
  have q: "quiet u = quiet s" by (simp add: u_def quiet_simps)
  then have "idle u" "p < length (st_ports u)" using assms idle_quiet [OF q] quiet_cong(4) [OF q] by simp_all
  then have "idle (update_port p (\<lambda>x. x\<lparr> sp_forward_delay_timer := stp_stop_timer (sp_forward_delay_timer x) \<rparr>)
      (stp_set_port_state p STP_BLOCKING u))"
    by (intro idle_set_and_update) (simp_all add: idle_port_def stp_stop_timer_def)
  then show ?thesis using assms(1) unfolding stp_make_blocking_def u_def [symmetric] Let_def by simp
qed

lemma idle_select_port_state:
  assumes "idle s" "p < length (st_ports s)"
  shows "idle (stp_select_port_state p s)"
proof -
  have "idle (update_port p (\<lambda>x. x\<lparr> sp_config_pending := False, sp_topology_change_ack := False \<rparr>) s)"
    by (rule idle_update_port [OF assms(1) _ assms(2)]) (simp add: idle_port_def)
  moreover have "idle (update_port p (\<lambda>x. x\<lparr> sp_message_age_timer := stp_stop_timer (sp_message_age_timer x) \<rparr>) s)"
    by (rule idle_update_port [OF assms(1) _ assms(2)]) (simp add: idle_port_def stp_stop_timer_def)
  moreover have "p < length (st_ports (update_port p f s))" for f using assms(2) by (simp add: frame_simps)
  ultimately show ?thesis
    using idle_make_forwarding idle_make_blocking by (simp add: stp_select_port_state_def)
qed

lemma idle_port_enable:
  assumes "stp_inv s" "idle s" "p < length (st_ports s)"
  shows "idle (stp_port_enable p s)"
proof -
  let ?i = "stp_initialize_port p STP_BLOCKING s"
  have "idle (stp_become_designated_port p s)"
    unfolding stp_become_designated_port_def using assms by (intro idle_update_port) (simp_all add: idle_port_def)
  then have i: "idle ?i"
    unfolding stp_initialize_port_def using assms(3)
    by (intro idle_update_port idle_set_port_state) (simp_all add: frame_simps idle_port_def stp_stop_timer_def)
  have base: "stp_base_ok ?i" using assms by (intro initialize_port_ok) (simp_all add: stp_inv_def)
  have "stp_base_ok (stp_port_state_selection ?i) \<and> idle (stp_port_state_selection ?i)"
    unfolding stp_port_state_selection_def
  proof (rule for_each_enabled_port_inv [where n = STP_MAX_PORTS])
    fix q t
    assume "q < STP_MAX_PORTS" and t: "stp_base_ok t \<and> idle t" and en: "sp_state (stp_port_at t q) \<noteq> STP_DISABLED"
    then have "q < length (st_ports t)" by (simp add: stp_base_ok_def)
    then show "stp_base_ok (stp_select_port_state q t) \<and> idle (stp_select_port_state q t)"
      using t en select_port_state [of t q] idle_select_port_state [of t q] by blast
  qed (use i base in \<open>simp_all add: stp_base_ok_def\<close>)
  then show ?thesis using assms(2) by (simp add: stp_port_enable_def)
qed

lemma idle_create: "idle (stp_create name b)"
proof -
  have step: "idle (stp_create_port p s)" if "idle s" "p < length (st_ports s)" for p s
    unfolding stp_create_port_def stp_initialize_port_def stp_become_designated_port_def
    using that by (intro idle_set_and_update idle_update_port)
      (simp_all add: frame_simps idle_port_def stp_stop_timer_def)
  have len: "length (st_ports (stp_create_port p s)) = length (st_ports s)" if "p < length (st_ports s)" for p s
    using that by (simp add: stp_create_port_def stp_initialize_port_def frame_simps)
  have "idle (fold stp_create_port [0..<m] s) \<and> length (st_ports (fold stp_create_port [0..<m] s)) = length (st_ports s)"
    if "idle s" "m \<le> length (st_ports s)" for m s
    using that by (induction m) (simp_all add: step len)
  moreover have "idle (stp_create_bridge name b)"
    by (auto simp: idle_def create_bridge_fields idle_port_def stp_port_zero_def timer_zero_def)
      (simp add: stp_create_bridge_def stp_use_bridge_times_def stp_update_bridge_timers_def stp_zero_def Let_def)
  ultimately show ?thesis by (simp add: stp_create_def Let_def)
qed

lemma create_forward_delay: "st_forward_delay (stp_create name b) = 3840"
proof -
  have upd: "st_bridge_forward_delay (stp_update_bridge_timers s) = ms_to_timer (clamp (st_rq_forward_delay s)
      (c_div (clamp (st_rq_max_age s) (max (2 * (clamp (st_rq_hello_time s) 1000 10000 + 1000)) 6000) 40000) 2 + 1000) 30000)" for s
    unfolding stp_update_bridge_timers_def Let_def stp_use_bridge_times_def by simp
  have "st_forward_delay (stp_create_bridge name b) = ms_to_timer (clamp 15000 (c_div (clamp 20000 6000 40000) 2 + 1000) 30000)"
    unfolding stp_create_bridge_def Let_def stp_use_bridge_times_def
    by (simp add: upd STP_DEFAULT_MAX_AGE_def STP_DEFAULT_HELLO_TIME_def STP_DEFAULT_FWD_DELAY_def clamp_def)
  also have "\<dots> = 3840" by (simp add: clamp_def c_div_nonneg ms_to_timer_small)
  finally show ?thesis using times_create_ports by (simp add: stp_create_def Let_def times_def)
qed

lemma tick_progress:
  assumes "stp_reachable s" "p < STP_MAX_PORTS"
    and "\<forall>q<STP_MAX_PORTS. stays_fresh ((ms + st_elapsed_remainder s) * 256 div 1000) (st_max_age s) (stp_port_at s q)"
    and "0 \<le> ms" "0 \<le> st_elapsed_remainder s" "ms + st_elapsed_remainder s < 8388608"
    and "(ms + st_elapsed_remainder s) * 256 div 1000 > 0"
    and "st_forward_delay s \<le>
      tm_value (sp_forward_delay_timer (stp_port_at s p)) + (ms + st_elapsed_remainder s) * 256 div 1000"
  shows "sp_state (stp_port_at (stp_tick ms s) p) = next_state (sp_state (stp_port_at s p))"
proof -
  let ?e = "(ms + st_elapsed_remainder s) * 256 div 1000"
  have len: "length (st_ports s) = STP_MAX_PORTS" using reachable_facts(1) [OF assms(1)] .
  have e: "ms_to_timer (int32 (clamp ms 0 (2147483647 - 1000) + st_elapsed_remainder s)) = ?e"
    using assms(4-6) by (simp add: clamp_def int32_id ms_to_timer_small)
  obtain r where tick: "stp_tick ms s = stp_tick_timers ?e (s\<lparr> st_elapsed_remainder := r \<rparr>)"
    using assms(7) e by (simp add: stp_tick_def Let_def)
  define s1 where "s1 = s\<lparr> st_elapsed_remainder := r \<rparr>"
  define s2 where "s2 = stp_tick_topology_change ?e (stp_tick_tcn ?e (stp_tick_hello ?e s1))"
  have "quiet s2 = quiet s1" by (simp add: s2_def quiet_simps)
  note q = quiet_cong [OF this]
  have qp: "quiet_port (stp_port_at s2 q) = quiet_port (stp_port_at s q)" if "q < STP_MAX_PORTS" for q
    using q(5) [of q] that len by (simp add: s1_def)
  have len2: "length (st_ports s2) = STP_MAX_PORTS" using q(4) len by (simp add: s1_def)
  have inv: "stp_inv s2" using q(1) stp_reachable_inv [OF assms(1)] inv_frame [of s1 s] by (simp add: s1_def)
  have "all_times s2 = all_times s" unfolding s2_def s1_def by (simp only: times_simps)
  then have times: "st_forward_delay s2 = st_forward_delay s" "st_max_age s2 = st_max_age s" by (simp_all add: times_def)
  have "sp_message_age_timer (stp_port_at s2 q) = sp_message_age_timer (stp_port_at s q)" if "q < STP_MAX_PORTS" for q
    using qp [OF that] by (auto dest!: arg_cong [where f = sp_message_age_timer] simp: quiet_port_def)
  then have fresh: "\<forall>q<length (st_ports s2). stays_fresh ?e (st_max_age s2) (stp_port_at s2 q)"
    using assms(3) len2 times(2) by (simp add: stays_fresh_def)
  define s3 where "s3 = for_each_enabled_port (stp_tick_message_age ?e) s2"
  note loop = tick_message_age_loop_fresh [OF fresh, of p, folded s3_def]
  have t: "stp_tick ms s = for_each_enabled_port (\<lambda>p t. stp_tick_hold ?e p (stp_tick_forward_delay ?e p t)) s3"
    unfolding tick stp_tick_timers_def Let_def s1_def [symmetric] s2_def [symmetric] s3_def ..
  have "stp_inv s3" using tick_message_age_loop [OF inv] by (simp add: s3_def)
  moreover have "p < length (st_ports s3)" using loop(1) len2 assms(2) by simp
  moreover have "st_forward_delay s3 = st_forward_delay s" using loop(2) times(1) len2 assms(2) by (simp add: times_def)
  moreover have "sp_forward_delay_timer (stp_port_at s3 p) = sp_forward_delay_timer (stp_port_at s p)"
    "sp_state (stp_port_at s3 p) = sp_state (stp_port_at s p)"
    using loop(3,4) len2 qp [OF assms(2)] assms(2) by (metis quiet_port_fields)+
  ultimately show ?thesis
    unfolding t using tick_forward_delay_progress [of s3 p ?e] assms(8) by simp
qed

definition sample_bridge :: stp where
  "sample_bridge = stp_port_enable 0 (stp_create ''br0'' 5)"

lemma sample_bridge_facts:
  "stp_reachable sample_bridge" "sp_state (stp_port_at sample_bridge 0) = STP_LISTENING"
  "idle sample_bridge" "st_forward_delay sample_bridge = 3840"
proof -
  show r: "stp_reachable sample_bridge" "sp_state (stp_port_at sample_bridge 0) = STP_LISTENING"
    using sample_listening by (simp_all add: sample_bridge_def)
  show "idle sample_bridge"
    unfolding sample_bridge_def
    by (rule idle_port_enable [OF stp_create_inv idle_create]) (simp add: stp_create_ports STP_MAX_PORTS_def)
  have "all_times sample_bridge = all_times (stp_create ''br0'' 5)"
    unfolding sample_bridge_def stp_port_enable_def stp_initialize_port_def by (simp only: times_simps split: if_splits) simp
  then show "st_forward_delay sample_bridge = 3840" by (simp add: times_def create_forward_delay)
qed

lemma idle_ports:
  assumes "idle s" "length (st_ports s) = STP_MAX_PORTS"
  shows "st_elapsed_remainder s = 0" "\<forall>q<STP_MAX_PORTS. stays_fresh e a (stp_port_at s q)"
    "q < STP_MAX_PORTS \<Longrightarrow> tm_value (sp_forward_delay_timer (stp_port_at s q)) = 0"
  using assms by (simp_all add: idle_def idle_port_def stays_fresh_def all_set_conv_all_nth)

lemma sample_learning: "sp_state (stp_port_at (stp_tick 15000 sample_bridge) 0) = STP_LEARNING"
proof -
  note f = sample_bridge_facts
  note i = idle_ports [OF f(3) reachable_facts(1) [OF f(1)]]
  have "sp_state (stp_port_at (stp_tick 15000 sample_bridge) 0) = next_state (sp_state (stp_port_at sample_bridge 0))"
    using i(1) i(3) [of 0] f(4) by (intro tick_progress [OF f(1) _ i(2)]) (simp_all add: STP_MAX_PORTS_def)
  then show ?thesis using f by simp
qed

theorem stp_forwarding_from_learning_witness:
  "sp_state (stp_port_at (stp_do (Tick 15000) sample_bridge) 0) = STP_LEARNING \<and>
   sp_state (stp_port_at sample_bridge 0) = STP_LISTENING \<and> (\<exists>ms. Tick 15000 = Tick ms)"
  using stp_forwarding_from_learning [OF sample_bridge_facts(1), of "Tick 15000" 0] sample_learning sample_bridge_facts(2)
  by (simp add: STP_MAX_PORTS_def)



end
