(* ===== verification/Stp_Protocol.thy ===== *)
theory Stp_Protocol
  imports Stp_Props "HOL-Library.Product_Lexorder"
begin

text \<open>
  Single computations of the spanning tree entity against what they are meant to compute: the choice
  of the root port, the BPDUs on the wire, the handling of malformed BPDUs and the report of changed
  ports to the client.
\<close>

section \<open>The root port\<close>

text \<open>
  The priority vector of a port.  The cost is the one an \<open>int\<close> makes of the sum of two 32-bit numbers.
\<close>

definition stp_root_key :: "stp_port \<Rightarrow> u64 \<times> int \<times> u64 \<times> u16 \<times> u16" where
  "stp_root_key x = (sp_designated_root x, sint (sp_designated_cost x + sp_path_cost x),
    sp_designated_bridge x, sp_designated_port x, sp_port_id x)"

lemma supersedes_root_iff: "stp_supersedes_root root p = (stp_root_key p < stp_root_key root)"
proof -
  have "sp_designated_cost p + sp_path_cost p = sp_designated_cost root + sp_path_cost root \<longleftrightarrow>
      sint (sp_designated_cost p + sp_path_cost p) = sint (sp_designated_cost root + sp_path_cost root)"
    by (rule word_eq_iff_signed)
  then show ?thesis
    unfolding stp_supersedes_root_def Let_def stp_root_key_def less_prod_def' by auto
qed

lemma better_root_min:
  "p < length (st_ports s) \<Longrightarrow> stp_better_root s p root =
    (if stp_root_candidate s p
     then case root of None \<Rightarrow> Some p
          | Some r \<Rightarrow> if stp_root_key (stp_port_at s p) < stp_root_key (stp_port_at s r) then Some p else root
     else root)"
  by (simp add: stp_better_root_def stp_root_candidate_def supersedes_root_iff not_le [symmetric] split: option.split)

lemma fold_better_root_min:
  assumes "m \<le> length (st_ports s)"
  defines "root \<equiv> fold (stp_better_root s) [0..<m] None"
  shows "case root of None \<Rightarrow> \<forall>p<m. \<not> stp_root_candidate s p
    | Some r \<Rightarrow> r < m \<and> stp_root_candidate s r \<and>
        (\<forall>p<m. stp_root_candidate s p \<longrightarrow> stp_root_key (stp_port_at s r) \<le> stp_root_key (stp_port_at s p))"
  unfolding root_def using assms(1)
proof (induction m)
  case (Suc m)
  let ?r = "fold (stp_better_root s) [0..<m] None"
  have step: "fold (stp_better_root s) [0..<Suc m] None = stp_better_root s m ?r" by simp
  have m: "m < length (st_ports s)" using Suc.prems by simp
  have IH: "case ?r of None \<Rightarrow> \<forall>p<m. \<not> stp_root_candidate s p
    | Some r \<Rightarrow> r < m \<and> stp_root_candidate s r \<and>
        (\<forall>p<m. stp_root_candidate s p \<longrightarrow> stp_root_key (stp_port_at s r) \<le> stp_root_key (stp_port_at s p))"
    using Suc by simp
  show ?case
  proof (cases ?r)
    case None
    then show ?thesis using IH unfolding step by (simp add: better_root_min [OF m] less_Suc_eq)
  next
    case (Some r)
    let ?k = "\<lambda>p. stp_root_key (stp_port_at s p)"
    have "?k m \<le> ?k p" if "?k m < ?k r" "?k r \<le> ?k p" for p using that by (rule less_le_trans [THEN less_imp_le])
    then show ?thesis
      using IH Some unfolding step by (simp add: better_root_min [OF m] less_Suc_eq not_less)
  qed
qed simp

text \<open>
  C23.  The root port is the best one.  \<open>stp_root_selection\<close> chooses, among the enabled ports that are
  not designated and have heard of a root with a smaller identifier than the bridge's own, one whose
  vector of root identifier, cost to the root, designated bridge, designated port and own port
  identifier is smallest, takes over its root and the cost to it, and believes in no root larger than
  any such port has heard of; if there is no such port, the bridge is the root itself.
\<close>

theorem stp_root_selection_optimal:
  "let t = stp_root_selection s in
   (case st_root_port t of
      None \<Rightarrow> (\<forall>p. \<not> stp_root_candidate s p) \<and> st_designated_root t = st_bridge_id s \<and> st_root_path_cost t = 0
    | Some r \<Rightarrow> stp_root_candidate s r \<and>
        (\<forall>p. stp_root_candidate s p \<longrightarrow> stp_root_key (stp_port_at s r) \<le> stp_root_key (stp_port_at s p)) \<and>
        (\<forall>p. stp_root_candidate s p \<longrightarrow> st_designated_root t \<le> sp_designated_root (stp_port_at s p)) \<and>
        st_designated_root t = sp_designated_root (stp_port_at s r) \<and>
        st_root_path_cost t = sp_designated_cost (stp_port_at s r) + sp_path_cost (stp_port_at s r))"
proof -
  let ?root = "fold (stp_better_root s) [0..<length (st_ports s)] None"
  have range: "p < length (st_ports s)" if "stp_root_candidate s p" for p
    using that by (simp add: stp_root_candidate_def)
  have key: "sp_designated_root x \<le> sp_designated_root y" if "stp_root_key x \<le> stp_root_key y" for x y
    using that by (auto simp: stp_root_key_def less_eq_prod_def)
  note min = fold_better_root_min [OF order_refl, of s]
  show ?thesis
  proof (cases ?root)
    case None
    then show ?thesis using min range by (auto simp: stp_root_selection_def Let_def)
  next
    case (Some r)
    have "stp_root_key (stp_port_at s r) \<le> stp_root_key (stp_port_at s p)" if "stp_root_candidate s p" for p
      using min Some range [OF that] that by simp
    moreover from this have "sp_designated_root (stp_port_at s r) \<le> sp_designated_root (stp_port_at s p)"
      if "stp_root_candidate s p" for p using that key by blast
    moreover have "stp_root_candidate s r" using min Some by simp
    ultimately show ?thesis
      using Some by (simp add: stp_root_selection_def Let_def)
  qed
qed

definition sample_ports :: stp where
  "sample_ports = stp_zero\<lparr> st_bridge_id := 9, st_ports :=
    [stp_port_zero\<lparr> sp_port_id := 1, sp_designated_root := 3, sp_designated_cost := 10, sp_path_cost := 19,
       sp_designated_bridge := 7, sp_designated_port := 1 \<rparr>,
     stp_port_zero\<lparr> sp_port_id := 2, sp_designated_root := 3, sp_designated_cost := 4, sp_path_cost := 19,
       sp_designated_bridge := 8, sp_designated_port := 1 \<rparr>,
     stp_port_zero\<lparr> sp_port_id := 3, sp_designated_root := 1, sp_state := STP_DISABLED \<rparr>] \<rparr>"

theorem stp_root_selection_optimal_witness:
  "stp_root_candidate sample_ports 0 \<and> st_root_port (stp_root_selection sample_ports) = Some 1 \<and>
   stp_root_key (stp_port_at sample_ports 1) \<le> stp_root_key (stp_port_at sample_ports 0) \<and>
   st_designated_root (stp_root_selection sample_ports) = 3 \<and> st_root_path_cost (stp_root_selection sample_ports) = 23"
proof -
  have c: "stp_root_candidate sample_ports 0"
    by (simp add: stp_root_candidate_def sample_ports_def stp_zero_def stp_port_zero_def stp_is_designated_port_def)
  have r: "st_root_port (stp_root_selection sample_ports) = Some 1"
    by (simp add: stp_root_selection_def stp_better_root_def stp_supersedes_root_def stp_is_designated_port_def
        sample_ports_def stp_zero_def stp_port_zero_def upt_conv_Cons Let_def)
  show ?thesis
    using stp_root_selection_optimal [of sample_ports] c r
    by (simp add: Let_def) (simp add: sample_ports_def)
qed

text \<open>
  The comparison of costs is one of \<open>int\<close>s, although the costs and the test for a designated port are
  unsigned: a port that has heard of a path of cost \<open>2 ^ 31\<close> is preferred to one with a path of cost 0
  to the same root.
\<close>

lemma root_cost_signed:
  "(let near = stp_port_zero\<lparr> sp_path_cost := 19 \<rparr>; far = near\<lparr> sp_designated_cost := 0x80000000 \<rparr>
    in sp_designated_cost near + sp_path_cost near < sp_designated_cost far + sp_path_cost far \<and>
       stp_supersedes_root near far)"
  by (simp add: stp_port_zero_def stp_supersedes_root_def Let_def)

section \<open>BPDUs on the wire\<close>

lemma length_config_bpdu_bytes [simp]: "length (config_bpdu_bytes c) = 35"
  by (simp add: config_bpdu_bytes_def)

lemma config_bpdu_at_bytes: "config_bpdu_at (config_bpdu_bytes c) = c"
  by (simp add: config_bpdu_at_def config_bpdu_bytes_def of_be_to_be_full nth_append take_append drop_append)

lemma send_bpdu_out:
  "st_out (stp_send_bpdu p b s) = st_out s @ [(p, eth_addr_stp @ replicate 6 0 @
     to_be 2 (of_nat (3 + length b) :: u16) @ [STP_LLC_DSAP, STP_LLC_SSAP, STP_LLC_CNTL] @ b)]"
  by (simp add: stp_send_bpdu_def Let_def frame_simps)

lemma transmit_config_out:
  assumes "st_out (stp_transmit_config p s) \<noteq> st_out s"
  shows "st_out (stp_transmit_config p s) = st_out s @ [(p, eth_addr_stp @ replicate 6 0 @ to_be 2 (38 :: u16) @
      [STP_LLC_DSAP, STP_LLC_SSAP, STP_LLC_CNTL] @ config_bpdu_bytes (stp_make_config p s))]"
    "uint (cb_message_age (stp_make_config p s)) < st_max_age s"
  using assms by (auto simp: stp_transmit_config_def Let_def send_bpdu_out frame_simps split: if_splits)

lemma received_config_bytes:
  assumes "cb_protocol_id c = STP_PROTOCOL_ID" "cb_bpdu_type c = STP_TYPE_CONFIG" "sp_state (stp_port_at s q) \<noteq> STP_DISABLED"
  shows "stp_received_bpdu q (config_bpdu_bytes c) s =
    update_port q (\<lambda>x. x\<lparr> sp_rx_count := sp_rx_count x + 1 \<rparr>) (stp_received_config_bpdu q c s)"
proof -
  have "(of_be (take 2 (config_bpdu_bytes c)) :: u16) = cb_protocol_id c" "config_bpdu_bytes c ! 3 = cb_bpdu_type c"
    using config_bpdu_at_bytes [of c] by (simp_all add: config_bpdu_at_def stp_config_bpdu.ext_inject)
      (simp_all add: config_bpdu_bytes_def of_be_to_be_full nth_append)
  then show ?thesis using assms by (simp add: stp_received_bpdu_def config_bpdu_at_bytes)
qed

text \<open>
  C24.  What one bridge sends, another understands.  When \<open>stp_transmit_config\<close> of a reachable entity
  sends, it hands its client one packet for the port: a 52-byte frame to the STP multicast address with
  the LLC header of a BPDU.  The part after the two headers is accepted by \<open>stp_received_bpdu\<close> of any
  entity on an enabled port, which processes exactly the configuration message the sender made: the
  sender's root, cost, bridge and port identifiers and times.  The message is never one that the
  receiver would discard as too old.
\<close>

theorem stp_config_transmitted:
  assumes "stp_reachable s" "st_out (stp_transmit_config p s) \<noteq> st_out s"
    and "sp_state (stp_port_at r q) \<noteq> STP_DISABLED"
  shows "\<exists>pkt. st_out (stp_transmit_config p s) = st_out s @ [(p, pkt)] \<and> length pkt = 52 \<and>
    take 6 pkt = eth_addr_stp \<and> take 3 (drop 14 pkt) = [0x42, 0x42, 0x03] \<and>
    stp_received_bpdu q (drop 17 pkt) r =
      update_port q (\<lambda>x. x\<lparr> sp_rx_count := sp_rx_count x + 1 \<rparr>) (stp_received_config_bpdu q (stp_make_config p s) r) \<and>
    cb_root_id (stp_make_config p s) = st_designated_root s \<and>
    cb_root_path_cost (stp_make_config p s) = st_root_path_cost s \<and>
    cb_bridge_id (stp_make_config p s) = st_bridge_id s \<and>
    cb_port_id (stp_make_config p s) = sp_port_id (stp_port_at s p) \<and>
    uint (cb_max_age (stp_make_config p s)) = st_max_age s \<and>
    cb_message_age (stp_make_config p s) < cb_max_age (stp_make_config p s)"
proof -
  let ?c = "stp_make_config p s"
  let ?pkt = "eth_addr_stp @ replicate 6 0 @ to_be 2 (38 :: u16) @
    [STP_LLC_DSAP, STP_LLC_SSAP, STP_LLC_CNTL] @ config_bpdu_bytes ?c"
  note out = transmit_config_out [OF assms(2)]
  have c: "cb_protocol_id ?c = STP_PROTOCOL_ID" "cb_bpdu_type ?c = STP_TYPE_CONFIG" "cb_root_id ?c = st_designated_root s"
    "cb_root_path_cost ?c = st_root_path_cost s" "cb_bridge_id ?c = st_bridge_id s"
    "cb_port_id ?c = sp_port_id (stp_port_at s p)" "cb_max_age ?c = word_of_int (st_max_age s)"
    by (simp_all add: stp_make_config_def Let_def)
  have "times_16bit (times s)" using reachable_times_ok [OF assms(1)] by (simp add: times_ok_def)
  then have age: "uint (cb_max_age ?c) = st_max_age s"
    using c(7) by (simp add: times_def uint_word_of_int take_bit_int_eq_self)
  have pkt: "length ?pkt = 52" "take 6 ?pkt = eth_addr_stp" "take 3 (drop 14 ?pkt) = [0x42, 0x42, 0x03]"
    "drop 17 ?pkt = config_bpdu_bytes ?c"
    by (simp_all add: eth_addr_stp_def STP_LLC_DSAP_def STP_LLC_SSAP_def STP_LLC_CNTL_def)
  have "stp_received_bpdu q (drop 17 ?pkt) r =
      update_port q (\<lambda>x. x\<lparr> sp_rx_count := sp_rx_count x + 1 \<rparr>) (stp_received_config_bpdu q ?c r)"
    unfolding pkt(4) by (rule received_config_bytes [OF c(1,2) assms(3)])
  moreover have "cb_message_age ?c < cb_max_age ?c" using out(2) age by (simp add: word_less_def)
  ultimately show ?thesis using out(1) pkt(1-3) c(3-6) age by blast
qed

lemma create_max_age: "0 < st_max_age (stp_create name b)"
proof -
  have "st_max_age (stp_create_bridge name b) = st_bridge_max_age (stp_create_bridge name b)"
    by (simp add: stp_create_bridge_def stp_use_bridge_times_def Let_def)
  then have "st_max_age (stp_create name b) = st_bridge_max_age (stp_create name b)"
    using times_create_ports by (simp add: stp_create_def Let_def times_defs)
  then show ?thesis using times_ok_create [of name b] by (simp add: times_ok_def times_defs)
qed

lemma create_transmits: "st_out (stp_transmit_config 0 (stp_create name b)) \<noteq> st_out (stp_create name b)"
proof -
  let ?s = "stp_create name b"
  have root: "stp_is_root_bridge ?s" by (simp add: stp_is_root_bridge_def stp_create_ports)
  moreover have "\<not> tm_active (sp_hold_timer (stp_port_at ?s 0))"
    using stp_create_ports(2) [of 0 name b] by (simp add: stp_created_port_def STP_MAX_PORTS_def)
  moreover have "uint (cb_message_age (stp_make_config 0 ?s)) < st_max_age ?s"
    using root create_max_age by (simp add: stp_make_config_def Let_def)
  ultimately show ?thesis by (simp add: stp_transmit_config_def Let_def send_bpdu_out frame_simps)
qed

theorem stp_config_transmitted_witness:
  "\<exists>pkt. st_out (stp_transmit_config 0 (stp_create ''br1'' 7)) = st_out (stp_create ''br1'' 7) @ [(0, pkt)] \<and>
    stp_received_bpdu 0 (drop 17 pkt) sample_bridge =
      update_port 0 (\<lambda>x. x\<lparr> sp_rx_count := sp_rx_count x + 1 \<rparr>)
        (stp_received_config_bpdu 0 (stp_make_config 0 (stp_create ''br1'' 7)) sample_bridge)"
  using stp_config_transmitted [OF stp_reachable.create create_transmits, of sample_bridge 0 "''br1''" 7]
    sample_bridge_facts(2) by auto

section \<open>Malformed BPDUs\<close>

definition stp_bpdu_ok :: "u8 list \<Rightarrow> bool" where
  "stp_bpdu_ok b \<longleftrightarrow> length b \<ge> 4 \<and> b ! 0 = 0 \<and> b ! 1 = 0 \<and>
    (b ! 3 = STP_TYPE_CONFIG \<and> length b \<ge> 35 \<or> b ! 3 = STP_TYPE_TCN \<and> length b = 4)"

definition counts :: "stp \<Rightarrow> (int \<times> int) list" where
  "counts s = map (\<lambda>x. (sp_rx_count x, sp_error_count x)) (st_ports s)"

named_theorems counts_simps

lemma counts_quiet: "quiet t = quiet s \<Longrightarrow> counts t = counts s"
proof -
  have "counts (quiet s) = counts s" for s by (simp add: counts_def quiet_def quiet_port_def)
  then show "quiet t = quiet s \<Longrightarrow> counts t = counts s" by metis
qed

lemma counts_update_port [counts_simps]:
  "(\<And>x. sp_rx_count (f x) = sp_rx_count x \<and> sp_error_count (f x) = sp_error_count x) \<Longrightarrow> counts (update_port p f s) = counts s"
  by (simp add: counts_def st_ports_update_port map_list_update_same)

lemma counts_for_each:
  "(\<And>p t. counts (body p t) = counts t) \<Longrightarrow> counts (for_each_enabled_port body s) = counts s"
  by (rule for_each_enabled_port_inv [where n = "length (st_ports s)"]) simp_all

lemma counts_primitive [counts_simps]:
  "counts (seq_change s) = counts s"
  "counts (s\<lparr> st_first_changed_port := n \<rparr>) = counts s"
  "counts (stp_root_selection s) = counts s"
  by (simp_all add: counts_def frame_simps)

lemma counts_set_port_state [counts_simps]: "counts (stp_set_port_state p v s) = counts s"
  unfolding stp_set_port_state_def Let_def by (simp add: counts_simps)

lemma counts_configuration_update [counts_simps]: "counts (stp_configuration_update s) = counts s"
proof -
  have "counts (stp_designated_port_selection t) = counts t" for t
    unfolding stp_designated_port_selection_def stp_become_designated_port_def
    by (rule counts_for_each) (simp add: counts_simps)
  then show ?thesis by (simp add: stp_configuration_update_def counts_simps)
qed

lemma counts_port_state_selection [counts_simps]: "counts (stp_port_state_selection s) = counts s"
proof -
  have "counts (stp_topology_change_detection t) = counts t" for t by (rule counts_quiet) (simp add: quiet_simps)
  then have "counts (stp_make_blocking p t) = counts t" "counts (stp_make_forwarding p t) = counts t" for p t
    by (simp_all add: stp_make_blocking_def stp_make_forwarding_def Let_def counts_simps)
  then show ?thesis
    unfolding stp_port_state_selection_def
    by (intro counts_for_each) (simp add: stp_select_port_state_def counts_simps)
qed

lemma counts_received:
  "counts (stp_received_config_bpdu p c s) = counts s" "counts (stp_received_tcn_bpdu p s) = counts s"
proof -
  define r where "r = stp_port_state_selection (stp_configuration_update (stp_record_config_information p c s))"
  have "counts r = counts s" by (simp add: r_def stp_record_config_information_def counts_simps)
  moreover have "quiet (stp_received_config_bpdu p c s) = quiet s \<or> quiet (stp_received_config_bpdu p c s) = quiet r"
    unfolding stp_received_config_bpdu_def Let_def r_def [symmetric] by (simp add: quiet_simps)
  ultimately show "counts (stp_received_config_bpdu p c s) = counts s" using counts_quiet by metis
  show "counts (stp_received_tcn_bpdu p s) = counts s"
    by (rule counts_quiet) (simp add: stp_received_tcn_bpdu_def quiet_simps)
qed

lemma ucast_u8_u16: "(ucast (ucast x :: u16) :: u8) = x"
  by (rule bit_word_eqI) (auto simp: bit_simps dest: bit_imp_le_length)

lemma be16_zero: "length b \<ge> 2 \<Longrightarrow> (of_be (take 2 b) :: u16) = 0 \<longleftrightarrow> b ! 0 = 0 \<and> b ! 1 = 0"
proof -
  assume "length b \<ge> 2"
  then obtain x y r where b: "b = x # y # r" by (metis Suc_le_length_iff numeral_2_eq_2)
  have hi: "push_bit 8 (ucast x :: u16) = 0 \<longleftrightarrow> x = 0"
  proof
    assume "push_bit 8 (ucast x :: u16) = 0"
    moreover have "drop_bit 8 (push_bit 8 (ucast x :: u16)) = ucast x"
      by (rule bit_word_eqI) (auto simp: bit_simps dest: bit_imp_le_length)
    ultimately have "(ucast x :: u16) = 0" by simp
    then have "ucast (ucast x :: u16) = (0 :: u8)" by simp
    then show "x = 0" by (simp only: ucast_u8_u16)
  qed simp
  have lo: "(ucast y :: u16) = 0 \<longleftrightarrow> y = 0"
  proof
    assume "(ucast y :: u16) = 0"
    then have "ucast (ucast y :: u16) = (0 :: u8)" by simp
    then show "y = 0" by (simp only: ucast_u8_u16)
  qed simp
  show ?thesis using hi lo by (simp add: b of_be_def or_eq_0_iff)
qed

text \<open>
  C25.  Every BPDU that arrives on an enabled port is counted once: as received if it is a
  configuration BPDU of at least 35 bytes or a topology change notification of exactly 4 bytes, with
  protocol identifier 0, and otherwise as an error, in which case nothing else about the entity
  changes.  The counts of other ports stay what they were, and on a disabled port a BPDU has no effect.
\<close>

theorem stp_bpdu_counted:
  assumes "p < length (st_ports s)"
  shows "(sp_state (stp_port_at s p) = STP_DISABLED \<longrightarrow> stp_received_bpdu p b s = s) \<and>
    (sp_state (stp_port_at s p) \<noteq> STP_DISABLED \<longrightarrow>
      (if stp_bpdu_ok b
       then counts (stp_received_bpdu p b s) = (counts s)[p := (sp_rx_count (stp_port_at s p) + 1, sp_error_count (stp_port_at s p))]
       else stp_received_bpdu p b s = update_port p (\<lambda>x. x\<lparr> sp_error_count := sp_error_count x + 1 \<rparr>) s))"
proof -
  let ?rx = "update_port p (\<lambda>x. x\<lparr> sp_rx_count := sp_rx_count x + 1 \<rparr>)"
  have rx: "counts (?rx t) = (counts s)[p := (sp_rx_count (stp_port_at s p) + 1, sp_error_count (stp_port_at s p))]"
    if "counts t = counts s" for t
  proof -
    have "p < length (st_ports t)" using that assms by (metis counts_def length_map)
    then have "(counts t) ! p = (sp_rx_count (stp_port_at t p), sp_error_count (stp_port_at t p))"
      by (simp add: counts_def)
    moreover have "(counts s) ! p = (sp_rx_count (stp_port_at s p), sp_error_count (stp_port_at s p))"
      using assms by (simp add: counts_def)
    ultimately have "sp_rx_count (stp_port_at t p) = sp_rx_count (stp_port_at s p)"
      "sp_error_count (stp_port_at t p) = sp_error_count (stp_port_at s p)" using that by simp_all
    then show ?thesis using that by (simp add: counts_def st_ports_update_port map_update)
  qed
  have dis: "sp_state (stp_port_at s p) = STP_DISABLED \<Longrightarrow> stp_received_bpdu p b s = s"
    by (simp add: stp_received_bpdu_def)
  show ?thesis
  proof (cases "stp_bpdu_ok b")
    case True
    then have b: "\<not> length b < 4" "(of_be (take 2 b) :: u16) = STP_PROTOCOL_ID"
      using be16_zero [of b] by (simp_all add: stp_bpdu_ok_def STP_PROTOCOL_ID_def)
    consider (config) "b ! 3 = STP_TYPE_CONFIG" "\<not> length b < 35" | (tcn) "b ! 3 = STP_TYPE_TCN" "length b = 4"
      using True unfolding stp_bpdu_ok_def by linarith
    then obtain t where "counts t = counts s" "sp_state (stp_port_at s p) \<noteq> STP_DISABLED \<Longrightarrow> stp_received_bpdu p b s = ?rx t"
    proof cases
      case config
      then show thesis using b by (intro that [OF counts_received(1)]) (simp add: stp_received_bpdu_def)
    next
      case tcn
      then show thesis using b
        by (intro that [OF counts_received(2)]) (simp add: stp_received_bpdu_def STP_TYPE_CONFIG_def STP_TYPE_TCN_def)
    qed
    then show ?thesis using True rx dis by simp
  next
    case False
    then consider "length b < 4" | "(of_be (take 2 b) :: u16) \<noteq> STP_PROTOCOL_ID"
      | "b ! 3 = STP_TYPE_CONFIG" "length b < 35" | "b ! 3 = STP_TYPE_TCN" "length b \<noteq> 4"
      | "b ! 3 \<noteq> STP_TYPE_CONFIG" "b ! 3 \<noteq> STP_TYPE_TCN"
      using be16_zero [of b] unfolding stp_bpdu_ok_def STP_PROTOCOL_ID_def by linarith
    then have "sp_state (stp_port_at s p) \<noteq> STP_DISABLED \<Longrightarrow> stp_received_bpdu p b s = stp_count_error p s"
      by cases (simp_all add: stp_received_bpdu_def STP_TYPE_CONFIG_def STP_TYPE_TCN_def)
    then show ?thesis using False dis by (simp add: stp_count_error_def)
  qed
qed

theorem stp_bpdu_counted_witness:
  "stp_received_bpdu 0 [0, 0, 0, 0x7f] sample_ports =
     update_port 0 (\<lambda>x. x\<lparr> sp_error_count := sp_error_count x + 1 \<rparr>) sample_ports \<and>
   fst (counts (stp_received_bpdu 0 [0, 0, 0, 0x80] sample_ports) ! 0) = 1"
proof -
  have "0 < length (st_ports sample_ports)" "sp_state (stp_port_at sample_ports 0) = STP_BLOCKING"
    "sp_rx_count (stp_port_at sample_ports 0) = 0" "0 < length (counts sample_ports)"
    by (simp_all add: sample_ports_def stp_zero_def stp_port_zero_def counts_def)
  moreover have "\<not> stp_bpdu_ok [0, 0, 0, 0x7f]" "stp_bpdu_ok [0, 0, 0, 0x80]"
    by (simp_all add: stp_bpdu_ok_def STP_TYPE_CONFIG_def STP_TYPE_TCN_def)
  ultimately show ?thesis
    using stp_bpdu_counted [of 0 sample_ports "[0, 0, 0, 0x7f]"] stp_bpdu_counted [of 0 sample_ports "[0, 0, 0, 0x80]"]
    by simp
qed

section \<open>Reporting changed ports\<close>

text \<open>
  The loop of \<open>stp_run\<close> in \<open>ofproto/ofproto-dpif.c\<close> that asks for the changed ports one by one, and
  the ports it sees.
\<close>

lemma get_changed_port_decreases:
  assumes "stp_get_changed_port s = (t, Some p)"
  shows "length (filter sp_state_changed (st_ports t)) < length (filter sp_state_changed (st_ports s))"
proof (cases rule: get_changed_port_cases [of s])
  case (some q)
  then have q: "q = p" "t = (update_port p (\<lambda>x. x\<lparr> sp_state_changed := False \<rparr>) s)\<lparr> st_first_changed_port := Suc p \<rparr>"
    using assms by simp_all
  let ?x = "stp_port_at s p"
  have xs: "st_ports s = take p (st_ports s) @ ?x # drop (Suc p) (st_ports s)"
    using some(3) q(1) by (simp add: id_take_nth_drop)
  have t: "st_ports t = take p (st_ports s) @ ?x\<lparr> sp_state_changed := False \<rparr> # drop (Suc p) (st_ports s)"
    using some(3) q by (simp add: frame_simps upd_conv_take_nth_drop)
  show ?thesis unfolding t by (subst (3) xs) (use some(4) q(1) in simp)
qed (use assms in simp)

function stp_changed_ports :: "stp \<Rightarrow> nat list \<times> stp" where
  "stp_changed_ports s =
    (case stp_get_changed_port s of
       (s, None) \<Rightarrow> ([], s)
     | (s, Some p) \<Rightarrow> let (ps, s) = stp_changed_ports s in (p # ps, s))"
  by pat_completeness auto

termination
  by (relation "measure (\<lambda>s. length (filter sp_state_changed (st_ports s)))")
    (auto dest!: sym [THEN get_changed_port_decreases])

declare stp_changed_ports.simps [simp del]

lemma changed_ports:
  assumes "stp_inv s"
  shows "fst (stp_changed_ports s) = filter (\<lambda>p. sp_state_changed (stp_port_at s p)) [st_first_changed_port s..<length (st_ports s)] \<and>
    (\<forall>x\<in>set (st_ports (snd (stp_changed_ports s))). \<not> sp_state_changed x) \<and>
    map sp_state (st_ports (snd (stp_changed_ports s))) = map sp_state (st_ports s)"
  using assms
proof (induction s rule: stp_changed_ports.induct)
  case (1 s)
  let ?ch = "\<lambda>s p. sp_state_changed (stp_port_at s p)"
  have base: "stp_base_ok s" using "1.prems" by (simp add: stp_inv_def)
  show ?case
  proof (cases rule: get_changed_port_cases [of s])
    case none
    have "\<not> ?ch s q" if "q < length (st_ports s)" for q
      using none(2) that base unfolding stp_base_ok_def by (metis linorder_not_le)
    then have "\<forall>x\<in>set (st_ports s). \<not> sp_state_changed x" by (auto simp: in_set_conv_nth)
    then show ?thesis using none by (simp add: stp_changed_ports.simps [of s] filter_empty_conv)
  next
    case (some p)
    let ?t = "(update_port p (\<lambda>x. x\<lparr> sp_state_changed := False \<rparr>) s)\<lparr> st_first_changed_port := Suc p \<rparr>"
    have t: "stp_inv ?t" using get_changed_port_ok [OF "1.prems"] some(1) by simp
    note IH = "1.IH" [OF some(1) [symmetric] refl t]
    have ch: "stp_changed_ports s = (p # fst (stp_changed_ports ?t), snd (stp_changed_ports ?t))"
      by (simp add: stp_changed_ports.simps [of s] some(1) case_prod_beta)
    have "filter (?ch ?t) [Suc p..<length (st_ports s)] = filter (?ch s) [Suc p..<length (st_ports s)]"
      by (rule filter_cong) (auto simp: frame_simps)
    moreover have "filter (?ch s) [st_first_changed_port s..<p] = []" using some(5) by (simp add: filter_empty_conv)
    moreover have "[st_first_changed_port s..<length (st_ports s)] =
        [st_first_changed_port s..<p] @ p # [Suc p..<length (st_ports s)]"
      using upt_add_eq_append [OF some(2), of "length (st_ports s) - p"] some(3) by (simp add: upt_conv_Cons)
    ultimately have "fst (stp_changed_ports s) = filter (?ch s) [st_first_changed_port s..<length (st_ports s)]"
      using IH some(4) by (simp add: ch frame_simps)
    moreover have "map sp_state (st_ports ?t) = map sp_state (st_ports s)"
      using states_update_port [of "\<lambda>x. x\<lparr> sp_state_changed := False \<rparr>" p s] by simp
    ultimately show ?thesis using IH by (simp add: ch)
  qed
qed

text \<open>
  C26.  The client's loop over the changed ports ends, and in every reachable state it sees exactly the
  ports whose state has changed since the last report, each once and in ascending order; afterwards no
  port is marked as changed, and no port's state has been touched.
\<close>

theorem stp_changed_ports_complete:
  assumes "stp_reachable s"
  shows "fst (stp_changed_ports s) = filter (\<lambda>p. sp_state_changed (stp_port_at s p)) [0..<STP_MAX_PORTS] \<and>
    (\<forall>p<STP_MAX_PORTS. \<not> sp_state_changed (stp_port_at (snd (stp_changed_ports s)) p)) \<and>
    map sp_state (st_ports (snd (stp_changed_ports s))) = map sp_state (st_ports s) \<and>
    snd (stp_get_changed_port (snd (stp_changed_ports s))) = None"
proof -
  let ?t = "snd (stp_changed_ports s)"
  note len = reachable_facts(1) [OF assms] and base = reachable_facts(2) [OF assms]
  note c = changed_ports [OF stp_reachable_inv [OF assms]]
  have f: "st_first_changed_port s \<le> STP_MAX_PORTS" "\<And>p. p < st_first_changed_port s \<Longrightarrow> \<not> sp_state_changed (stp_port_at s p)"
    using base unfolding stp_base_ok_def by (meson leD order.strict_trans2)+
  have "[0..<STP_MAX_PORTS] = [0..<st_first_changed_port s] @ [st_first_changed_port s..<STP_MAX_PORTS]"
    using upt_add_eq_append [of 0 "st_first_changed_port s" "STP_MAX_PORTS - st_first_changed_port s"] f(1) by simp
  moreover have "filter (\<lambda>p. sp_state_changed (stp_port_at s p)) [0..<st_first_changed_port s] = []"
    using f(2) by (simp add: filter_empty_conv)
  ultimately have 1: "fst (stp_changed_ports s) = filter (\<lambda>p. sp_state_changed (stp_port_at s p)) [0..<STP_MAX_PORTS]"
    using c len by simp
  have lt: "length (st_ports ?t) = STP_MAX_PORTS" using c len by (metis length_map)
  then have 2: "\<not> sp_state_changed (stp_port_at ?t p)" if "p < STP_MAX_PORTS" for p using c that by simp
  have "snd (stp_get_changed_port ?t) = None"
    by (cases rule: get_changed_port_cases [of ?t]) (use 2 lt in auto)
  then show ?thesis using 1 2 c by blast
qed

lemma created_ports_changed: "p < STP_MAX_PORTS \<Longrightarrow> sp_state_changed (stp_port_at (stp_create name b) p)"
  using stp_create_ports(2) by (simp add: stp_created_port_def)

theorem stp_changed_ports_complete_witness:
  "stp_reachable (stp_create ''br0'' 5) \<and> fst (stp_changed_ports (stp_create ''br0'' 5)) = [0..<STP_MAX_PORTS] \<and>
   snd (stp_get_changed_port (snd (stp_changed_ports (stp_create ''br0'' 5)))) = None"
proof -
  note r = stp_reachable.create [of "''br0''" 5]
  have "filter (\<lambda>p. sp_state_changed (stp_port_at (stp_create ''br0'' 5) p)) [0..<STP_MAX_PORTS] = [0..<STP_MAX_PORTS]"
    by (simp add: filter_id_conv created_ports_changed)
  then show ?thesis using stp_changed_ports_complete [OF r] r by simp
qed

end
