(* ===== verification/Hmap.thy ===== *)
theory Hmap
  imports Bits "HOL-Library.Multiset"
begin

text \<open>
  The hash map of \<open>lib/hmap.h\<close> and \<open>lib/hmap.c\<close>.  A bucket, the chain of nodes that starts at an element
  of \<open>buckets\<close>, is the list of its nodes, and a node is the pair of its \<open>hash\<close> and its address; what
  a node is embedded in belongs to the client.  A \<open>struct hmap_node *\<close> into a chain is the rest of the
  chain from that node on, the null pointer the empty list.  \<open>size_t\<close> has 64 bits.  Functions that walk
  a chain to a node which is not there would run into the null pointer; they return \<open>None\<close>.
  \<open>hmap_moved\<close> and \<open>hmap_destroy\<close>, which only concern the memory of the bucket array, have no
  counterpart.
\<close>

section \<open>Definitions\<close>

type_synonym hmap_node = "u64 \<times> addr"

record hmap =
  hm_buckets :: "hmap_node list list"
  hm_mask :: u64
  hm_n :: nat

definition hmap_init :: hmap where
  "hmap_init = \<lparr> hm_buckets = [[]], hm_mask = 0, hm_n = 0 \<rparr>"

definition hmap_clear :: "hmap \<Rightarrow> hmap" where
  "hmap_clear hmap =
    (if hm_n hmap > 0 then hmap\<lparr> hm_n := 0, hm_buckets := replicate (unat (hm_mask hmap) + 1) [] \<rparr> else hmap)"

definition hmap_count :: "hmap \<Rightarrow> nat" where
  "hmap_count hmap = hm_n hmap"

definition hmap_capacity :: "hmap \<Rightarrow> u64" where
  "hmap_capacity hmap = hm_mask hmap * 2 + 1"

definition hmap_is_empty :: "hmap \<Rightarrow> bool" where
  "hmap_is_empty hmap \<longleftrightarrow> hm_n hmap = 0"

definition hmap_bucket :: "hmap \<Rightarrow> u64 \<Rightarrow> nat" where
  "hmap_bucket hmap hash = unat (hash AND hm_mask hmap)"

definition hmap_insert_fast :: "addr \<Rightarrow> u64 \<Rightarrow> hmap \<Rightarrow> hmap" where
  "hmap_insert_fast node hash hmap =
    (let i = hmap_bucket hmap hash
     in hmap\<lparr> hm_buckets := (hm_buckets hmap)[i := (hash, node) # hm_buckets hmap ! i], hm_n := hm_n hmap + 1 \<rparr>)"

text \<open>
  The exchange of two maps, with which \<open>resize\<close> ends on its temporary map; \<open>hmap_moved\<close>, which
  lets a map of one bucket use its own \<open>one\<close> again, leaves the chains as they are.
\<close>

definition hmap_swap :: "hmap \<Rightarrow> hmap \<Rightarrow> hmap \<times> hmap" where
  "hmap_swap a b = (b, a)"

declare hmap_swap_def [simp]

definition resize :: "u64 \<Rightarrow> hmap \<Rightarrow> hmap" where
  "resize new_mask hmap =
    (let tmp = hmap_init;
         tmp = (if new_mask \<noteq> 0 then tmp\<lparr> hm_buckets := replicate (unat new_mask + 1) [], hm_mask := new_mask \<rparr> else tmp);
         tmp = fold (\<lambda>chain tmp. fold (\<lambda>(hash, node) tmp. hmap_insert_fast node hash tmp) chain tmp) (hm_buckets hmap) tmp
     in fst (hmap_swap hmap tmp))"

definition calc_mask :: "u64 \<Rightarrow> u64" where
  "calc_mask capacity =
    (let mask = drop_bit 1 capacity;
         mask = mask OR drop_bit 1 mask;
         mask = mask OR drop_bit 2 mask;
         mask = mask OR drop_bit 4 mask;
         mask = mask OR drop_bit 8 mask;
         mask = mask OR drop_bit 16 mask;
         mask = mask OR drop_bit 32 mask
     in mask OR push_bit 1 (mask AND 1))"

definition hmap_expand :: "hmap \<Rightarrow> hmap" where
  "hmap_expand hmap =
    (let new_mask = calc_mask (of_nat (hm_n hmap))
     in if new_mask > hm_mask hmap then resize new_mask hmap else hmap)"

definition hmap_shrink :: "hmap \<Rightarrow> hmap" where
  "hmap_shrink hmap =
    (let new_mask = calc_mask (of_nat (hm_n hmap))
     in if new_mask < hm_mask hmap then resize new_mask hmap else hmap)"

definition hmap_reserve :: "nat \<Rightarrow> hmap \<Rightarrow> hmap" where
  "hmap_reserve n hmap =
    (let new_mask = calc_mask (of_nat n)
     in if new_mask > hm_mask hmap then resize new_mask hmap else hmap)"

definition hmap_insert :: "addr \<Rightarrow> u64 \<Rightarrow> hmap \<Rightarrow> hmap" where
  "hmap_insert node hash hmap =
    (let hmap = hmap_insert_fast node hash hmap
     in if hm_n hmap div 2 > unat (hm_mask hmap) then hmap_expand hmap else hmap)"

text \<open>The walk along \<open>bucket = &(*bucket)->next\<close> to a node, and what becomes of the link to it.\<close>

fun chain_update :: "addr \<Rightarrow> (hmap_node list \<Rightarrow> hmap_node list) \<Rightarrow> hmap_node list \<Rightarrow> hmap_node list option" where
  "chain_update node f [] = None"
| "chain_update node f ((hash, p) # chain) =
    (if p = node then Some (f ((hash, p) # chain)) else map_option (Cons (hash, p)) (chain_update node f chain))"

definition hmap_remove :: "addr \<Rightarrow> u64 \<Rightarrow> hmap \<Rightarrow> hmap option" where
  "hmap_remove node hash hmap =
    (let i = hmap_bucket hmap hash
     in map_option (\<lambda>chain. hmap\<lparr> hm_buckets := (hm_buckets hmap)[i := chain], hm_n := hm_n hmap - 1 \<rparr>)
          (chain_update node tl (hm_buckets hmap ! i)))"

definition hmap_node_moved :: "addr \<Rightarrow> addr \<Rightarrow> u64 \<Rightarrow> hmap \<Rightarrow> hmap option" where
  "hmap_node_moved old_node node hash hmap =
    (let i = hmap_bucket hmap hash
     in map_option (\<lambda>chain. hmap\<lparr> hm_buckets := (hm_buckets hmap)[i := chain] \<rparr>)
          (chain_update old_node (\<lambda>rest. (hash, node) # tl rest) (hm_buckets hmap ! i)))"

definition hmap_replace :: "addr \<Rightarrow> u64 \<Rightarrow> addr \<Rightarrow> hmap \<Rightarrow> hmap option" where
  "hmap_replace old_node hash new_node hmap =
    (let i = hmap_bucket hmap hash
     in map_option (\<lambda>chain. hmap\<lparr> hm_buckets := (hm_buckets hmap)[i := chain] \<rparr>)
          (chain_update old_node (\<lambda>rest. (hash, new_node) # tl rest) (hm_buckets hmap ! i)))"

fun hmap_next_with_hash_at :: "hmap_node list \<Rightarrow> u64 \<Rightarrow> hmap_node list" where
  "hmap_next_with_hash_at [] hash = []"
| "hmap_next_with_hash_at ((h, p) # chain) hash =
    (if h \<noteq> hash then hmap_next_with_hash_at chain hash else (h, p) # chain)"

definition hmap_first_with_hash :: "hmap \<Rightarrow> u64 \<Rightarrow> hmap_node list" where
  "hmap_first_with_hash hmap hash = hmap_next_with_hash_at (hm_buckets hmap ! hmap_bucket hmap hash) hash"

definition hmap_first_in_bucket :: "hmap \<Rightarrow> u64 \<Rightarrow> hmap_node list" where
  "hmap_first_in_bucket hmap hash = hm_buckets hmap ! hmap_bucket hmap hash"

fun hmap_next_in_bucket :: "hmap_node list \<Rightarrow> hmap_node list" where
  "hmap_next_in_bucket (node # chain) = chain"
| "hmap_next_in_bucket [] = []"

fun hmap_next_with_hash :: "hmap_node list \<Rightarrow> hmap_node list" where
  "hmap_next_with_hash ((h, p) # chain) = hmap_next_with_hash_at chain h"
| "hmap_next_with_hash [] = []"

text \<open>The nodes visited by \<open>HMAP_FOR_EACH_WITH_HASH\<close>.\<close>

lemma length_next_with_hash_at: "length (hmap_next_with_hash_at chain hash) \<le> length chain"
  by (induction chain hash rule: hmap_next_with_hash_at.induct) auto

function hmap_for_each_with_hash :: "hmap_node list \<Rightarrow> hmap_node list" where
  "hmap_for_each_with_hash [] = []"
| "hmap_for_each_with_hash (node # chain) = node # hmap_for_each_with_hash (hmap_next_with_hash (node # chain))"
  by pat_completeness auto
termination
proof (relation "measure length")
  fix node chain
  show "(hmap_next_with_hash (node # chain), node # chain) \<in> measure length"
    by (cases node) (simp add: length_next_with_hash_at le_imp_less_Suc)
qed simp

function hmap_next_from :: "hmap \<Rightarrow> nat \<Rightarrow> hmap_node list" where
  "hmap_next_from hmap start =
    (if start \<le> unat (hm_mask hmap)
     then if hm_buckets hmap ! start \<noteq> [] then hm_buckets hmap ! start else hmap_next_from hmap (start + 1)
     else [])"
  by pat_completeness auto
termination by (relation "measure (\<lambda>(hmap, start). unat (hm_mask hmap) + 1 - start)") auto

declare hmap_next_from.simps [simp del]

definition hmap_first :: "hmap \<Rightarrow> hmap_node list" where
  "hmap_first hmap = hmap_next_from hmap 0"

fun hmap_next :: "hmap \<Rightarrow> hmap_node list \<Rightarrow> hmap_node list" where
  "hmap_next hmap ((hash, node) # next) =
    (if next \<noteq> [] then next else hmap_next_from hmap (hmap_bucket hmap hash + 1))"
| "hmap_next hmap [] = []"

text \<open>The nodes visited by \<open>HMAP_FOR_EACH\<close>, started at a node; \<open>None\<close> if the loop does not end.\<close>

partial_function (option) hmap_for_each :: "hmap \<Rightarrow> hmap_node list \<Rightarrow> hmap_node list option" where
  "hmap_for_each hmap node =
    (if node = [] then Some []
     else Option.bind (hmap_for_each hmap (hmap_next hmap node)) (\<lambda>visited. Some (hd node # visited)))"

text \<open>The inner loop of \<open>hmap_at_position\<close>, along one bucket.\<close>

fun hmap_chain_at :: "nat \<Rightarrow> nat \<Rightarrow> hmap_node list \<Rightarrow> hmap_node list" where
  "hmap_chain_at offset n_idx [] = []"
| "hmap_chain_at offset n_idx (node # chain) =
    (if n_idx = offset then node # chain else hmap_chain_at offset (n_idx + 1) chain)"

function hmap_at_position_from :: "hmap \<Rightarrow> nat \<Rightarrow> nat \<Rightarrow> hmap_node list \<times> u32 \<times> u32" where
  "hmap_at_position_from hmap b_idx offset =
    (if b_idx \<le> unat (hm_mask hmap)
     then (case hmap_chain_at offset 0 (hm_buckets hmap ! b_idx) of
             (hash, node) # next \<Rightarrow>
               if next \<noteq> [] then ((hash, node) # next, ucast (hash AND hm_mask hmap), of_nat (offset + 1))
               else ((hash, node) # next, ucast ((hash AND hm_mask hmap) + 1), 0)
           | [] \<Rightarrow> hmap_at_position_from hmap (b_idx + 1) 0)
     else ([], 0, 0))"
  by pat_completeness auto
termination by (relation "measure (\<lambda>(hmap, b_idx, offset). unat (hm_mask hmap) + 1 - b_idx)") auto

declare hmap_at_position_from.simps [simp del]

definition hmap_at_position :: "hmap \<Rightarrow> u32 \<Rightarrow> u32 \<Rightarrow> hmap_node list \<times> u32 \<times> u32" where
  "hmap_at_position hmap bucketp offsetp = hmap_at_position_from hmap (unat bucketp) (unat offsetp)"

text \<open>The nodes a client visits that calls \<open>hmap_at_position\<close> until it returns a null pointer.\<close>

partial_function (option) hmap_positions :: "hmap \<Rightarrow> u32 \<Rightarrow> u32 \<Rightarrow> hmap_node list option" where
  "hmap_positions hmap bucketp offsetp =
    (case hmap_at_position hmap bucketp offsetp of (node, bucketp, offsetp) \<Rightarrow>
       if node = [] then Some []
       else Option.bind (hmap_positions hmap bucketp offsetp) (\<lambda>visited. Some (hd node # visited)))"

fun hmap_chain_contains :: "addr \<Rightarrow> hmap_node list \<Rightarrow> bool" where
  "hmap_chain_contains node [] \<longleftrightarrow> False"
| "hmap_chain_contains node ((hash, p) # chain) \<longleftrightarrow> (if p = node then True else hmap_chain_contains node chain)"

definition hmap_contains :: "hmap \<Rightarrow> addr \<Rightarrow> u64 \<Rightarrow> bool" where
  "hmap_contains hmap node hash \<longleftrightarrow> hmap_chain_contains node (hmap_first_in_bucket hmap hash)"

text \<open>
  \<open>hmap_random_node\<close>: the values of \<open>random_uint32()\<close> are a list, and \<open>None\<close> stands for a loop that is still
  looking for a bucket when the list is used up; \<open>random_range\<close> is the function of \<open>lib/random.h\<close>.
\<close>

definition random_range :: "u32 \<Rightarrow> nat \<Rightarrow> nat" where
  "random_range random n = unat random mod n"

fun hmap_random_bucket :: "hmap \<Rightarrow> u32 list \<Rightarrow> (hmap_node list \<times> u32 list) option" where
  "hmap_random_bucket hmap [] = None"
| "hmap_random_bucket hmap (r # rs) =
    (let bucket = hm_buckets hmap ! unat (ucast r AND hm_mask hmap)
     in if bucket \<noteq> [] then Some (bucket, rs) else hmap_random_bucket hmap rs)"

definition hmap_random_node :: "hmap \<Rightarrow> u32 list \<Rightarrow> (hmap_node list \<times> u32 list) option" where
  "hmap_random_node hmap rs =
    (case hmap_random_bucket hmap rs of
       Some (bucket, r # rs) \<Rightarrow> Some (drop (random_range r (length bucket)) bucket, rs)
     | _ \<Rightarrow> None)"

section \<open>The size of the bucket array\<close>

lemma smear_step:
  fixes m x :: u64
  assumes "\<And>i. bit x i \<longleftrightarrow> (\<exists>j. i \<le> j \<and> j < i + w \<and> bit m j)"
  shows "bit (x OR drop_bit w x) i \<longleftrightarrow> (\<exists>j. i \<le> j \<and> j < i + 2 * w \<and> bit m j)"
proof -
  have "bit (x OR drop_bit w x) i \<longleftrightarrow>
      (\<exists>j. i \<le> j \<and> j < i + w \<and> bit m j) \<or> (\<exists>j. w + i \<le> j \<and> j < w + i + w \<and> bit m j)"
    by (simp add: bit_or_iff bit_drop_bit_eq assms)
  also have "\<dots> \<longleftrightarrow> (\<exists>j. i \<le> j \<and> j < i + 2 * w \<and> bit m j)"
    by (smt (verit) add.commute add.left_commute add_le_cancel_left le_add1 le_trans less_le_trans mult_2 not_le)
  finally show ?thesis .
qed

definition smear :: "u64 \<Rightarrow> u64" where
  "smear m =
    (let m = m OR drop_bit 1 m; m = m OR drop_bit 2 m; m = m OR drop_bit 4 m;
         m = m OR drop_bit 8 m; m = m OR drop_bit 16 m
     in m OR drop_bit 32 m)"

lemma bit_smear: "bit (smear m) i \<longleftrightarrow> (\<exists>j. i \<le> j \<and> bit m j)"
proof -
  define m1 where "m1 = m OR drop_bit 1 m"
  define m2 where "m2 = m1 OR drop_bit 2 m1"
  define m4 where "m4 = m2 OR drop_bit 4 m2"
  define m8 where "m8 = m4 OR drop_bit 8 m4"
  define m16 where "m16 = m8 OR drop_bit 16 m8"
  have 0: "bit m i \<longleftrightarrow> (\<exists>j. i \<le> j \<and> j < i + 1 \<and> bit m j)" for i
    by (metis Suc_eq_plus1 le_refl lessI less_Suc_eq_le order_antisym)
  have 1: "bit m1 i \<longleftrightarrow> (\<exists>j. i \<le> j \<and> j < i + 2 \<and> bit m j)" for i
    using smear_step [OF 0] by (simp add: m1_def)
  have 2: "bit m2 i \<longleftrightarrow> (\<exists>j. i \<le> j \<and> j < i + 4 \<and> bit m j)" for i
    using smear_step [OF 1] by (simp add: m2_def)
  have 4: "bit m4 i \<longleftrightarrow> (\<exists>j. i \<le> j \<and> j < i + 8 \<and> bit m j)" for i
    using smear_step [OF 2] by (simp add: m4_def)
  have 8: "bit m8 i \<longleftrightarrow> (\<exists>j. i \<le> j \<and> j < i + 16 \<and> bit m j)" for i
    using smear_step [OF 4] by (simp add: m8_def)
  have 16: "bit m16 i \<longleftrightarrow> (\<exists>j. i \<le> j \<and> j < i + 32 \<and> bit m j)" for i
    using smear_step [OF 8] by (simp add: m16_def)
  have "smear m = m16 OR drop_bit 32 m16"
    by (simp add: smear_def m1_def m2_def m4_def m8_def m16_def)
  then have "bit (smear m) i \<longleftrightarrow> (\<exists>j. i \<le> j \<and> j < i + 64 \<and> bit m j)"
    using smear_step [OF 16] by simp
  moreover have "j < 64" if "bit m j" for j
    using that bit_imp_le_length by fastforce
  ultimately show ?thesis by (meson less_le_trans le_add2)
qed

lemma smear_mask: "\<exists>k \<le> 64. smear m = mask k \<and> (m \<noteq> 0 \<longrightarrow> 0 < k \<and> bit m (k - 1)) \<and> (m = 0 \<longrightarrow> k = 0)"
proof (cases "m = 0")
  case True
  then show ?thesis by (intro exI [of _ 0]) (simp add: smear_def)
next
  case False
  define K where "K = Max {j. bit m j}"
  have fin: "finite {j. bit m j}"
    by (rule finite_subset [of _ "{..<64}"]) (use bit_imp_le_length in fastforce)+
  have ne: "{j. bit m j} \<noteq> {}" using False word_nonzero_bit by blast
  have K: "bit m K" using Max_in [OF fin ne] by (simp add: K_def)
  have ub: "j \<le> K" if "bit m j" for j using that fin by (simp add: K_def)
  have "K < 64" using K bit_imp_le_length by fastforce
  moreover have "smear m = mask (Suc K)"
  proof (rule bit_eqI)
    fix n
    assume "possible_bit TYPE(64 word) n"
    then show "bit (smear m) n = bit (mask (Suc K) :: u64) n"
      using K ub by (auto simp: bit_smear bit_mask_iff less_Suc_eq_le intro: le_trans)
  qed
  ultimately show ?thesis using K False by (intro exI [of _ "Suc K"]) simp
qed

lemma unat_mask64:
  assumes "k \<le> 64"
  shows "unat (mask k :: u64) = 2 ^ k - 1"
proof -
  have "unat (mask k :: u64) = take_bit k (mask 64)"
    unfolding take_bit_minus_one_eq_mask [symmetric] unsigned_take_bit_eq unsigned_minus_1_eq_mask by simp
  also have "\<dots> = mask k" unfolding take_bit_of_mask min_def using assms by simp
  finally show ?thesis by (simp only: mask_eq_exp_minus_1)
qed

lemma unat_half: "unat (drop_bit 1 (c :: u64)) = unat c div 2"
  unfolding unat_drop_bit_eq by (simp add: drop_bit_eq_div)

lemma calc_mask_smear: "calc_mask c = (let m = smear (drop_bit 1 c) in m OR push_bit 1 (m AND 1))"
  by (simp add: calc_mask_def smear_def Let_def)

lemma calc_mask_exp:
  "\<exists>k \<le> 63. calc_mask c = mask k \<and> (if unat c < 2 then k = 0 else k = 2 \<and> unat c < 4 \<or> 2 \<le> k \<and> bit c k)"
proof -
  define m where "m = drop_bit 1 c"
  obtain k where k: "k \<le> 64" "smear m = mask k" "m \<noteq> 0 \<Longrightarrow> 0 < k \<and> bit m (k - 1)" "m = 0 \<Longrightarrow> k = 0"
    using smear_mask [of m] by blast
  have m: "unat m = unat c div 2"
    unfolding m_def by (rule unat_half)
  have zero: "m = 0 \<longleftrightarrow> unat c < 2" unfolding unsigned_eq_0_iff [symmetric, where 'a = nat] m by auto
  have bit: "bit c k" "k \<le> 63" if "m \<noteq> 0"
  proof -
    have "bit m (k - 1)" "0 < k" using k(3) [OF that] by blast+
    then show "bit c k" by (simp add: m_def bit_drop_bit_eq del: drop_bit_Suc drop_bit_0)
    then show "k \<le> 63" using bit_imp_le_length by fastforce
  qed
  have eq: "calc_mask c = smear m OR push_bit 1 (smear m AND 1)"
    by (simp add: calc_mask_smear m_def Let_def)
  consider "k = 0" | "k = 1" | "2 \<le> k" by linarith
  then show ?thesis
  proof cases
    case 1
    then have "unat c < 2" using k(3) zero by blast
    moreover have "calc_mask c = mask 0" unfolding eq k(2) 1 by simp
    ultimately show ?thesis by (intro exI [of _ 0]) simp
  next
    case 2
    then have nz: "m \<noteq> 0" using k(4) by auto
    have "unat c < 4"
    proof -
      have "unat m \<le> 1"
      proof (rule ccontr)
        assume "\<not> unat m \<le> 1"
        then have "unat (drop_bit 1 m) \<noteq> 0" unfolding unat_half by linarith
        then have "drop_bit 1 m \<noteq> 0" unfolding unsigned_eq_0_iff .
        then obtain j where "bit (drop_bit 1 m) j" using word_nonzero_bit by blast
        then have "bit m (Suc j)" by (simp add: bit_drop_bit_eq)
        then have "bit (smear m) (Suc 0)" unfolding bit_smear by (intro exI [of _ "Suc j"]) simp
        then show False using k(2) 2 by (simp add: bit_mask_iff)
      qed
      then show ?thesis using m by simp
    qed
    moreover have "smear m OR push_bit 1 (smear m AND 1) = mask 2"
      unfolding k(2) 2 by (simp add: mask_eq_exp_minus_1 push_bit_eq_mult)
    ultimately show ?thesis using eq nz zero by (intro exI [of _ 2]) simp
  next
    case 3
    then have nz: "m \<noteq> 0" using k(4) by auto
    have "smear m OR push_bit 1 (smear m AND 1) = mask k"
      unfolding k(2) by (rule bit_eqI) (use 3 in \<open>auto simp: bit_simps\<close>)
    then show ?thesis using eq nz zero bit 3 by (intro exI [of _ k]) simp
  qed
qed

lemma bit_le_unat:
  assumes "bit (c :: u64) k"
  shows "2 ^ k \<le> unat c"
proof (rule ccontr)
  assume "\<not> ?thesis"
  then have "unat c < 2 ^ k" by simp
  then have "take_bit k (unat c) = unat c" by (simp add: take_bit_nat_eq_self)
  then have "\<not> bit (unat c) k" by (metis bit_take_bit_iff less_irrefl)
  then show False using assms by (simp add: bit_unsigned_iff)
qed

lemma calc_mask_covers:
  assumes "calc_mask c = mask k"
  shows "unat c div 2 < 2 ^ k"
proof -
  have "take_bit k (drop_bit 1 c) = drop_bit 1 c"
  proof (rule bit_eqI)
    fix n
    have "bit (calc_mask c) n" if "bit (drop_bit 1 c) n"
      using that by (auto simp: calc_mask_smear Let_def bit_or_iff bit_smear)
    then show "bit (take_bit k (drop_bit 1 c)) n = bit (drop_bit 1 c) n"
      by (auto simp: assms bit_take_bit_iff bit_mask_iff)
  qed
  then have "unat (drop_bit 1 c) < 2 ^ k"
    by (metis take_bit_nat_less_exp unsigned_take_bit_eq)
  then show ?thesis by (simp only: unat_half)
qed

lemma calc_mask_bounds:
  shows calc_mask_upper: "unat (calc_mask c) \<le> max 3 (unat c - 1)"
    and calc_mask_lower: "unat c div 2 \<le> unat (calc_mask c)"
proof -
  obtain k where k: "k \<le> 63" "calc_mask c = mask k"
    and c: "if unat c < 2 then k = 0 else k = 2 \<and> unat c < 4 \<or> 2 \<le> k \<and> bit c k"
    using calc_mask_exp [of c] by blast
  have u: "unat (calc_mask c) = 2 ^ k - 1" using k by (simp add: unat_mask64)
  consider "unat c < 2" "k = 0" | "unat c < 4" "k = 2" | "2 \<le> k" "bit c k"
    using c by (auto split: if_splits)
  then have "unat (calc_mask c) \<le> max 3 (unat c - 1) \<and> unat c div 2 \<le> unat (calc_mask c)"
  proof cases
    case 3
    have "2 ^ k \<le> unat c" by (rule bit_le_unat) (rule 3)
    then have "2 ^ k - 1 \<le> unat c - 1" by simp
    moreover have "unat c div 2 \<le> 2 ^ k - 1"
      using calc_mask_covers [OF k(2)] by simp
    ultimately show ?thesis using u by simp
  qed (use u in auto)
  then show "unat (calc_mask c) \<le> max 3 (unat c - 1)" "unat c div 2 \<le> unat (calc_mask c)" by auto
qed

section \<open>The invariant\<close>

text \<open>
  The nodes of a map with their hashes.  The array has as many buckets as the mask says, a power of two;
  each node is in the bucket of its hash; \<open>n\<close> counts the nodes; no node is in the map twice.
\<close>

abbreviation hmap_contents :: "hmap \<Rightarrow> hmap_node list" where
  "hmap_contents hmap \<equiv> concat (hm_buckets hmap)"

definition hmap_nodes :: "hmap \<Rightarrow> hmap_node set" where
  "hmap_nodes hmap = set (hmap_contents hmap)"

definition hmap_shape :: "hmap \<Rightarrow> bool" where
  "hmap_shape hmap \<longleftrightarrow>
    (\<exists>k \<le> 63. hm_mask hmap = mask k) \<and> length (hm_buckets hmap) = unat (hm_mask hmap) + 1 \<and>
    (\<forall>i < length (hm_buckets hmap). \<forall>(hash, node) \<in> set (hm_buckets hmap ! i). hmap_bucket hmap hash = i) \<and>
    hm_n hmap = length (hmap_contents hmap)"

definition hmap_ok :: "hmap \<Rightarrow> bool" where
  "hmap_ok hmap \<longleftrightarrow> hmap_shape hmap \<and> distinct (map snd (hmap_contents hmap))"

lemma mset_concat_update:
  "i < length bs \<Longrightarrow> mset (concat (bs[i := c])) + mset (bs ! i) = mset (concat bs) + mset c"
  by (induction bs arbitrary: i) (auto split: nat.split simp: less_Suc_eq_0_disj ac_simps)

lemma hmap_bucket_bound: "hmap_shape hmap \<Longrightarrow> hmap_bucket hmap hash < length (hm_buckets hmap)"
  by (auto simp: hmap_shape_def hmap_bucket_def less_Suc_eq_le word_and_le1 word_le_nat_alt [symmetric])

lemma hmap_bucket_update [simp]:
  "hmap_bucket (hm_buckets_update f hmap) = hmap_bucket hmap"
  "hmap_bucket (hm_n_update g hmap) = hmap_bucket hmap"
  by (simp_all add: hmap_bucket_def fun_eq_iff)

lemma hmap_shape_cases:
  assumes "hmap_shape hmap"
  obtains k where "k \<le> 63" "hm_mask hmap = mask k" "length (hm_buckets hmap) = 2 ^ k"
  using assms by (auto simp: hmap_shape_def unat_mask64)

text \<open>Every operation on one bucket keeps the shape.\<close>

lemma hmap_shape_chain:
  assumes "hmap_shape hmap" "i < length (hm_buckets hmap)" "\<forall>(hash, node) \<in> set c. hmap_bucket hmap hash = i"
    and "n + length (hm_buckets hmap ! i) = hm_n hmap + length c"
  shows "hmap_shape (hmap\<lparr> hm_buckets := (hm_buckets hmap)[i := c], hm_n := n \<rparr>)"
proof -
  have "size (mset (concat ((hm_buckets hmap)[i := c]))) + length (hm_buckets hmap ! i) = hm_n hmap + length c"
    using arg_cong [OF mset_concat_update [OF assms(2), of c], of size] assms(1) by (simp add: hmap_shape_def)
  then have "n = length (concat ((hm_buckets hmap)[i := c]))" using assms(4) by simp
  moreover have "\<forall>(hash, node) \<in> set ((hm_buckets hmap)[i := c] ! j). hmap_bucket hmap hash = j"
    if "j < length (hm_buckets hmap)" for j
    using that assms(1,3) by (cases "j = i") (auto simp: hmap_shape_def)
  ultimately show ?thesis using assms(1) by (simp add: hmap_shape_def)
qed

lemma insert_fast_shape:
  assumes "hmap_shape hmap"
  shows "hmap_shape (hmap_insert_fast node hash hmap)"
proof -
  have "\<forall>(h, p) \<in> set (hm_buckets hmap ! hmap_bucket hmap hash). hmap_bucket hmap h = hmap_bucket hmap hash"
    using assms hmap_bucket_bound [OF assms] unfolding hmap_shape_def by blast
  then show ?thesis
    unfolding hmap_insert_fast_def Let_def
    by (intro hmap_shape_chain [OF assms hmap_bucket_bound [OF assms]]) simp_all
qed

lemma insert_fast_contents:
  assumes "hmap_shape hmap"
  shows "mset (hmap_contents (hmap_insert_fast node hash hmap)) = add_mset (hash, node) (mset (hmap_contents hmap))"
  using mset_concat_update [OF hmap_bucket_bound [OF assms],
      of hash "(hash, node) # hm_buckets hmap ! hmap_bucket hmap hash"]
  by (simp add: hmap_insert_fast_def Let_def)

lemma insert_fast_mask [simp]: "hm_mask (hmap_insert_fast node hash hmap) = hm_mask hmap"
  by (simp add: hmap_insert_fast_def Let_def)

lemma fold_insert_fast:
  assumes "hmap_shape tmp"
  shows "let tmp' = fold (\<lambda>(hash, node). hmap_insert_fast node hash) chain tmp
         in hmap_shape tmp' \<and> mset (hmap_contents tmp') = mset chain + mset (hmap_contents tmp) \<and>
            hm_mask tmp' = hm_mask tmp"
  using assms
  by (induction chain arbitrary: tmp) (auto simp: Let_def insert_fast_shape insert_fast_contents)

lemma fold_fold_insert_fast:
  assumes "hmap_shape tmp"
  shows "let tmp' = fold (fold (\<lambda>(hash, node). hmap_insert_fast node hash)) bs tmp
         in hmap_shape tmp' \<and> mset (hmap_contents tmp') = mset (concat bs) + mset (hmap_contents tmp) \<and>
            hm_mask tmp' = hm_mask tmp"
  using assms
proof (induction bs arbitrary: tmp)
  case (Cons chain bs)
  then show ?case
    using fold_insert_fast [of tmp chain] by (auto simp: Let_def ac_simps)
qed (simp add: Let_def)

lemma resize_ok:
  assumes "k \<le> 63"
  shows "hmap_shape (resize (mask k) hmap)"
    and "mset (hmap_contents (resize (mask k) hmap)) = mset (hmap_contents hmap)"
    and "hm_mask (resize (mask k) hmap) = mask k"
proof -
  define tmp where "tmp = \<lparr> hm_buckets = replicate (unat (mask k :: u64) + 1) [], hm_mask = mask k, hm_n = 0 \<rparr>"
  have "resize (mask k) hmap = fold (fold (\<lambda>(hash, node). hmap_insert_fast node hash)) (hm_buckets hmap) tmp"
    by (auto simp: resize_def tmp_def hmap_init_def Let_def)
  moreover have "hmap_shape tmp"
    using assms by (auto simp: tmp_def hmap_shape_def simp del: replicate_Suc)
  moreover have "hmap_contents tmp = []" "hm_mask tmp = mask k" by (simp_all add: tmp_def)
  ultimately show "hmap_shape (resize (mask k) hmap)"
    "mset (hmap_contents (resize (mask k) hmap)) = mset (hmap_contents hmap)"
    "hm_mask (resize (mask k) hmap) = mask k"
    using fold_fold_insert_fast [of tmp "hm_buckets hmap"] by (auto simp: Let_def)
qed

section \<open>What the operations do to the nodes\<close>

lemma hmap_okI:
  assumes "hmap_shape hmap" "mset (hmap_contents hmap) = mset xs" "distinct (map snd xs)"
  shows "hmap_ok hmap" "hmap_nodes hmap = set xs"
proof -
  have "mset (map snd (hmap_contents hmap)) = mset (map snd xs)" using assms(2) by simp
  then have "distinct (map snd (hmap_contents hmap))" using assms(3) mset_eq_imp_distinct_iff by blast
  then show "hmap_ok hmap" using assms(1) by (simp add: hmap_ok_def)
  show "hmap_nodes hmap = set xs" unfolding hmap_nodes_def by (rule mset_eq_setD [OF assms(2)])
qed

lemma hmap_init_ok: "hmap_ok hmap_init" "hmap_nodes hmap_init = {}"
  by (auto simp: hmap_ok_def hmap_shape_def hmap_init_def hmap_nodes_def)

lemma hmap_clear_ok:
  assumes "hmap_ok hmap"
  shows "hmap_ok (hmap_clear hmap)" "hmap_nodes (hmap_clear hmap) = {}"
  using assms
  by (auto simp: hmap_ok_def hmap_shape_def hmap_clear_def hmap_nodes_def hmap_bucket_def simp del: replicate_Suc)

lemma hmap_count_nodes:
  assumes "hmap_ok hmap"
  shows "hmap_count hmap = card (hmap_nodes hmap)"
proof -
  have "distinct (hmap_contents hmap)" using assms by (auto simp: hmap_ok_def distinct_map)
  then show ?thesis using assms
    by (simp add: hmap_count_def hmap_nodes_def hmap_ok_def hmap_shape_def distinct_card del: set_concat)
qed

lemma insert_fast_ok:
  assumes "hmap_ok hmap" "node \<notin> snd ` hmap_nodes hmap"
  shows "hmap_ok (hmap_insert_fast node hash hmap)"
    and "hmap_nodes (hmap_insert_fast node hash hmap) = insert (hash, node) (hmap_nodes hmap)"
proof -
  have shape: "hmap_shape hmap" using assms(1) by (simp add: hmap_ok_def)
  have "mset (hmap_contents (hmap_insert_fast node hash hmap)) = mset ((hash, node) # hmap_contents hmap)"
    using insert_fast_contents [OF shape] by simp
  moreover have "distinct (map snd ((hash, node) # hmap_contents hmap))"
    using assms by (simp add: hmap_ok_def hmap_nodes_def)
  ultimately have "hmap_ok (hmap_insert_fast node hash hmap) \<and>
      hmap_nodes (hmap_insert_fast node hash hmap) = set ((hash, node) # hmap_contents hmap)"
    using hmap_okI [OF insert_fast_shape [OF shape]] by blast
  then show "hmap_ok (hmap_insert_fast node hash hmap)"
    "hmap_nodes (hmap_insert_fast node hash hmap) = insert (hash, node) (hmap_nodes hmap)"
    by (simp_all add: hmap_nodes_def)
qed

lemma resize_calc_mask:
  assumes "hmap_ok hmap"
  shows "hmap_ok (resize (calc_mask c) hmap)" "hmap_nodes (resize (calc_mask c) hmap) = hmap_nodes hmap"
    and "hm_mask (resize (calc_mask c) hmap) = calc_mask c"
proof -
  obtain k where k: "k \<le> 63" "calc_mask c = mask k" using calc_mask_exp by blast
  show "hmap_ok (resize (calc_mask c) hmap)" "hmap_nodes (resize (calc_mask c) hmap) = hmap_nodes hmap"
    unfolding k(2) using hmap_okI [OF resize_ok(1,2) [OF k(1)]] assms by (simp_all add: hmap_ok_def hmap_nodes_def)
  show "hm_mask (resize (calc_mask c) hmap) = calc_mask c"
    unfolding k(2) by (rule resize_ok(3) [OF k(1)])
qed

lemma hmap_expand_ok:
  assumes "hmap_ok hmap"
  shows "hmap_ok (hmap_expand hmap)" "hmap_nodes (hmap_expand hmap) = hmap_nodes hmap"
  using resize_calc_mask [OF assms] assms by (simp_all add: hmap_expand_def Let_def)

lemma hmap_shrink_ok:
  assumes "hmap_ok hmap"
  shows "hmap_ok (hmap_shrink hmap)" "hmap_nodes (hmap_shrink hmap) = hmap_nodes hmap"
  using resize_calc_mask [OF assms] assms by (simp_all add: hmap_shrink_def Let_def)

lemma hmap_reserve_ok:
  assumes "hmap_ok hmap"
  shows "hmap_ok (hmap_reserve n hmap)" "hmap_nodes (hmap_reserve n hmap) = hmap_nodes hmap"
  using resize_calc_mask [OF assms] assms by (simp_all add: hmap_reserve_def Let_def)

lemma hmap_insert_ok:
  assumes "hmap_ok hmap" "node \<notin> snd ` hmap_nodes hmap"
  shows "hmap_ok (hmap_insert node hash hmap)"
    and "hmap_nodes (hmap_insert node hash hmap) = insert (hash, node) (hmap_nodes hmap)"
  using insert_fast_ok [OF assms] hmap_expand_ok by (simp_all add: hmap_insert_def Let_def)

lemma chain_update_split:
  assumes "(hash, node) \<in> set chain" "distinct (map snd chain)"
  obtains pre post where "chain = pre @ (hash, node) # post"
    and "\<And>f. chain_update node f chain = Some (pre @ f ((hash, node) # post))"
proof -
  obtain pre post where chain: "chain = pre @ (hash, node) # post" using assms(1) by (meson split_list)
  have "node \<notin> snd ` set pre" using assms(2) chain by force
  then have "chain_update node f (pre @ (hash, node) # post) = Some (pre @ f ((hash, node) # post))" for f
    by (induction pre) auto
  then show ?thesis using that chain by blast
qed

lemma hmap_nodes_bucket:
  assumes "hmap_shape hmap"
  shows "(hash, node) \<in> hmap_nodes hmap \<longleftrightarrow> (hash, node) \<in> set (hm_buckets hmap ! hmap_bucket hmap hash)"
  using assms hmap_bucket_bound [OF assms, of hash]
  by (fastforce simp: hmap_nodes_def hmap_shape_def in_set_conv_nth [of _ "hm_buckets hmap"])

lemma hmap_chain_distinct:
  assumes "hmap_ok hmap" "i < length (hm_buckets hmap)"
  shows "distinct (map snd (hm_buckets hmap ! i))"
  using assms by (auto simp: hmap_ok_def map_concat distinct_concat_iff)

text \<open>Both removal and replacement put a list of nodes in the place of one node of a chain.\<close>

lemma hmap_chain_edit:
  fixes hash node hmap n
  defines "i \<equiv> hmap_bucket hmap hash"
  assumes ok: "hmap_ok hmap" and node: "(hash, node) \<in> hmap_nodes hmap" and "\<forall>(h, p) \<in> set ins. h = hash"
    and n: "n + 1 = hm_n hmap + length ins"
  obtains pre post where "hm_buckets hmap ! i = pre @ (hash, node) # post"
    "\<And>f. chain_update node f (hm_buckets hmap ! i) = Some (pre @ f ((hash, node) # post))"
    "hmap_shape (hmap\<lparr> hm_buckets := (hm_buckets hmap)[i := pre @ ins @ post], hm_n := n \<rparr>)"
    "mset (concat ((hm_buckets hmap)[i := pre @ ins @ post])) =
     mset (ins @ remove1 (hash, node) (hmap_contents hmap))"
proof -
  have shape: "hmap_shape hmap" using ok by (simp add: hmap_ok_def)
  have i: "i < length (hm_buckets hmap)" unfolding i_def by (rule hmap_bucket_bound [OF shape])
  have "(hash, node) \<in> set (hm_buckets hmap ! i)" using node hmap_nodes_bucket [OF shape] by (simp add: i_def)
  then obtain pre post where chain: "hm_buckets hmap ! i = pre @ (hash, node) # post"
    "\<And>f. chain_update node f (hm_buckets hmap ! i) = Some (pre @ f ((hash, node) # post))"
    using chain_update_split [OF _ hmap_chain_distinct [OF ok i]] by metis
  have placed: "\<forall>(h, p) \<in> set (hm_buckets hmap ! i). hmap_bucket hmap h = i"
    using shape i by (auto simp: hmap_shape_def)
  have "hmap_shape (hmap\<lparr> hm_buckets := (hm_buckets hmap)[i := pre @ ins @ post], hm_n := n \<rparr>)"
    by (rule hmap_shape_chain [OF shape i])
      (use assms(4) placed [unfolded chain(1)] n in \<open>auto simp: chain(1) i_def [symmetric]\<close>)
  moreover have "mset (concat ((hm_buckets hmap)[i := pre @ ins @ post])) =
      mset (ins @ remove1 (hash, node) (hmap_contents hmap))"
    using arg_cong [OF mset_concat_update [OF i, of "pre @ ins @ post"], of "\<lambda>M. M - mset (hm_buckets hmap ! i)"] node
    by (simp add: chain(1) hmap_nodes_def ac_simps)
  ultimately show ?thesis using that chain by blast
qed

lemma distinct_map_remove1: "distinct (map f xs) \<Longrightarrow> distinct (map f (remove1 x xs))"
  by (induction xs) (auto, metis imageI in_mono set_remove1_subset)

lemma hmap_remove_ok:
  assumes "hmap_ok hmap" "(hash, node) \<in> hmap_nodes hmap"
  shows "\<exists>hmap'. hmap_remove node hash hmap = Some hmap' \<and> hmap_ok hmap' \<and>
                 hmap_nodes hmap' = hmap_nodes hmap - {(hash, node)} \<and> hm_mask hmap' = hm_mask hmap"
proof -
  let ?i = "hmap_bucket hmap hash"
  have "hmap_contents hmap \<noteq> []" using assms(2) unfolding hmap_nodes_def by (metis empty_iff empty_set)
  then have "hm_n hmap > 0" using assms(1) by (simp add: hmap_ok_def hmap_shape_def)
  then have n: "hm_n hmap - 1 + 1 = hm_n hmap + length ([] :: hmap_node list)" by simp
  obtain pre post where e: "\<And>f. chain_update node f (hm_buckets hmap ! ?i) = Some (pre @ f ((hash, node) # post))"
    "hmap_shape (hmap\<lparr> hm_buckets := (hm_buckets hmap)[?i := pre @ [] @ post], hm_n := hm_n hmap - 1 \<rparr>)"
    "mset (concat ((hm_buckets hmap)[?i := pre @ [] @ post])) = mset ([] @ remove1 (hash, node) (hmap_contents hmap))"
    by (rule hmap_chain_edit [OF assms _ n]) (simp, blast)
  have d: "distinct (map snd (hmap_contents hmap))" using assms(1) by (simp add: hmap_ok_def)
  then have "distinct (map snd (remove1 (hash, node) (hmap_contents hmap)))"
    by (rule distinct_map_remove1)
  moreover have "set (remove1 (hash, node) (hmap_contents hmap)) = hmap_nodes hmap - {(hash, node)}"
    using d by (simp add: hmap_nodes_def distinct_map set_remove1_eq del: set_concat)
  ultimately show ?thesis
    using hmap_okI [OF e(2), of "remove1 (hash, node) (hmap_contents hmap)"] e(1,3)
    by (simp add: hmap_remove_def Let_def)
qed

lemma hmap_replace_ok:
  assumes "hmap_ok hmap" "(hash, old_node) \<in> hmap_nodes hmap" "new_node \<notin> snd ` hmap_nodes hmap - {old_node}"
  shows "\<exists>hmap'. hmap_replace old_node hash new_node hmap = Some hmap' \<and> hmap_ok hmap' \<and>
                 hmap_nodes hmap' = insert (hash, new_node) (hmap_nodes hmap - {(hash, old_node)}) \<and>
                 hm_mask hmap' = hm_mask hmap"
proof -
  let ?i = "hmap_bucket hmap hash" and ?new = "[(hash, new_node)]"
  have n: "hm_n hmap + 1 = hm_n hmap + length ?new" by simp
  obtain pre post where e: "\<And>f. chain_update old_node f (hm_buckets hmap ! ?i) = Some (pre @ f ((hash, old_node) # post))"
    "hmap_shape (hmap\<lparr> hm_buckets := (hm_buckets hmap)[?i := pre @ ?new @ post], hm_n := hm_n hmap \<rparr>)"
    "mset (concat ((hm_buckets hmap)[?i := pre @ ?new @ post])) = mset (?new @ remove1 (hash, old_node) (hmap_contents hmap))"
    by (rule hmap_chain_edit [OF assms(1,2) _ n]) (simp, blast)
  have d: "distinct (map snd (hmap_contents hmap))" using assms(1) by (simp add: hmap_ok_def)
  have r: "set (remove1 (hash, old_node) (hmap_contents hmap)) = hmap_nodes hmap - {(hash, old_node)}"
    using d by (simp add: hmap_nodes_def distinct_map set_remove1_eq del: set_concat)
  have inj: "inj_on snd (hmap_nodes hmap)" using d by (simp add: distinct_map hmap_nodes_def)
  have "new_node \<notin> snd ` (hmap_nodes hmap - {(hash, old_node)})"
  proof
    assume "new_node \<in> snd ` (hmap_nodes hmap - {(hash, old_node)})"
    then obtain h where h: "(h, new_node) \<in> hmap_nodes hmap" "(h, new_node) \<noteq> (hash, old_node)" by force
    then have "new_node = old_node" using assms(3) by force
    then show False using inj_onD [OF inj _ h(1) assms(2)] h(2) by simp
  qed
  moreover have "distinct (map snd (remove1 (hash, old_node) (hmap_contents hmap)))"
    using d by (rule distinct_map_remove1)
  ultimately have "distinct (map snd (?new @ remove1 (hash, old_node) (hmap_contents hmap)))" by (simp add: r)
  then show ?thesis
    using hmap_okI [OF e(2), of "?new @ remove1 (hash, old_node) (hmap_contents hmap)"] e(1,3)
    by (simp add: hmap_replace_def Let_def r)
qed

lemma hmap_node_moved_replace: "hmap_node_moved old_node node hash hmap = hmap_replace old_node hash node hmap"
  by (simp add: hmap_node_moved_def hmap_replace_def)

section \<open>Searching and iterating\<close>

lemma next_with_hash_at_dropWhile: "hmap_next_with_hash_at chain hash = dropWhile (\<lambda>(h, p). h \<noteq> hash) chain"
  by (induction chain hash rule: hmap_next_with_hash_at.induct) auto

lemma for_each_with_hash_filter:
  "hmap_for_each_with_hash (hmap_next_with_hash_at chain hash) = filter (\<lambda>(h, p). h = hash) chain"
proof (induction chain)
  case (Cons node chain)
  then show ?case by (cases node) auto
qed simp

lemma hmap_first_with_hash_for_each:
  assumes "hmap_ok hmap"
  shows "set (hmap_for_each_with_hash (hmap_first_with_hash hmap hash)) = {x \<in> hmap_nodes hmap. fst x = hash}"
    and "distinct (map snd (hmap_for_each_with_hash (hmap_first_with_hash hmap hash)))"
proof -
  have shape: "hmap_shape hmap" using assms by (simp add: hmap_ok_def)
  show "set (hmap_for_each_with_hash (hmap_first_with_hash hmap hash)) = {x \<in> hmap_nodes hmap. fst x = hash}"
    using hmap_nodes_bucket [OF shape]
    by (auto simp: hmap_first_with_hash_def for_each_with_hash_filter)
  show "distinct (map snd (hmap_for_each_with_hash (hmap_first_with_hash hmap hash)))"
    using hmap_chain_distinct [OF assms hmap_bucket_bound [OF shape, of hash]]
    by (simp add: hmap_first_with_hash_def for_each_with_hash_filter distinct_map_filter)
qed

lemma hmap_chain_contains_iff: "hmap_chain_contains node chain \<longleftrightarrow> node \<in> snd ` set chain"
  by (induction node chain rule: hmap_chain_contains.induct) auto

lemma hmap_contains_iff:
  assumes "hmap_ok hmap" "\<forall>h. (h, node) \<in> hmap_nodes hmap \<longrightarrow> h = hash"
  shows "hmap_contains hmap node hash \<longleftrightarrow> (hash, node) \<in> hmap_nodes hmap"
proof -
  have shape: "hmap_shape hmap" using assms(1) by (simp add: hmap_ok_def)
  have "hm_buckets hmap ! hmap_bucket hmap hash \<in> set (hm_buckets hmap)"
    using hmap_bucket_bound [OF shape] by simp
  then show ?thesis
    using assms(2) hmap_nodes_bucket [OF shape, of hash node]
    by (force simp: hmap_contains_def hmap_chain_contains_iff hmap_first_in_bucket_def hmap_nodes_def)
qed

lemma hmap_for_each_chain:
  assumes "chain \<noteq> []" "\<forall>(h, p) \<in> set chain. hmap_bucket hmap h = i"
    and "hmap_for_each hmap (hmap_next_from hmap (i + 1)) = Some rest"
  shows "hmap_for_each hmap chain = Some (chain @ rest)"
  using assms(1,2)
proof (induction chain)
  case (Cons node chain)
  obtain h p where node: "node = (h, p)" by (cases node)
  have "hmap_for_each hmap (hmap_next hmap (node # chain)) = Some (chain @ rest)"
    using Cons assms(3) by (cases "chain = []") (auto simp: node)
  then show ?case by (simp add: hmap_for_each.simps [of hmap "node # chain"])
qed simp

lemma hmap_next_from_for_each:
  assumes "hmap_shape hmap"
  shows "hmap_for_each hmap (hmap_next_from hmap start) = Some (concat (drop start (hm_buckets hmap)))"
proof (induction "length (hm_buckets hmap) - start" arbitrary: start)
  case 0
  then have "\<not> start \<le> unat (hm_mask hmap)" using assms by (simp add: hmap_shape_def)
  then show ?case using 0 by (simp add: hmap_next_from.simps [of hmap start] hmap_for_each.simps)
next
  case (Suc x)
  then have start: "start < length (hm_buckets hmap)" and le: "start \<le> unat (hm_mask hmap)"
    using assms by (simp_all add: hmap_shape_def)
  have IH: "hmap_for_each hmap (hmap_next_from hmap (start + 1)) = Some (concat (drop (start + 1) (hm_buckets hmap)))"
    by (rule Suc.hyps(1)) (use Suc.hyps(2) in simp)
  have dr: "concat (drop start (hm_buckets hmap)) = hm_buckets hmap ! start @ concat (drop (start + 1) (hm_buckets hmap))"
    using Cons_nth_drop_Suc [OF start] by (metis Suc_eq_plus1 concat.simps(2))
  show ?case
  proof (cases "hm_buckets hmap ! start = []")
    case True
    then show ?thesis using le IH dr by (simp add: hmap_next_from.simps [of hmap start])
  next
    case False
    have "\<forall>(h, p) \<in> set (hm_buckets hmap ! start). hmap_bucket hmap h = start"
      using assms start by (auto simp: hmap_shape_def)
    then show ?thesis
      using hmap_for_each_chain [OF False _ IH] le False dr by (simp add: hmap_next_from.simps [of hmap start])
  qed
qed

lemma hmap_chain_at_drop: "n_idx \<le> offset \<Longrightarrow> hmap_chain_at offset n_idx chain = drop (offset - n_idx) chain"
proof (induction offset n_idx chain rule: hmap_chain_at.induct)
  case (2 offset n_idx node chain)
  then show ?case by (cases "n_idx = offset") (auto simp: Suc_diff_Suc [symmetric] Suc_le_eq)
qed simp

text \<open>What is still to be visited from a position on.\<close>

definition hmap_rest :: "hmap \<Rightarrow> nat \<Rightarrow> nat \<Rightarrow> hmap_node list" where
  "hmap_rest hmap b_idx offset =
    (if b_idx < length (hm_buckets hmap)
     then drop offset (hm_buckets hmap ! b_idx) @ concat (drop (b_idx + 1) (hm_buckets hmap)) else [])"

lemma hmap_rest_next: "hmap_rest hmap b_idx 0 = concat (drop b_idx (hm_buckets hmap))"
  by (cases "b_idx < length (hm_buckets hmap)")
    (simp_all add: hmap_rest_def Cons_nth_drop_Suc [symmetric])

lemma hmap_chain_length: "hmap_shape hmap \<Longrightarrow> i < length (hm_buckets hmap) \<Longrightarrow> length (hm_buckets hmap ! i) \<le> hm_n hmap"
  using member_le_sum_list [of "length (hm_buckets hmap ! i)" "map length (hm_buckets hmap)"]
  by (simp add: hmap_shape_def length_concat)

lemma unat_ucast32: "unat (w :: u64) < 2 ^ 32 \<Longrightarrow> unat (ucast w :: u32) = unat w"
  by (simp add: unsigned_ucast_eq take_bit_nat_eq_self)

lemma hmap_at_position_rest:
  assumes shape: "hmap_shape hmap" and m: "length (hm_buckets hmap) < 2 ^ 32" and n: "hm_n hmap < 2 ^ 32"
    and at: "hmap_at_position_from hmap b_idx offset = (node, bucketp, offsetp)"
  shows "if node = [] then hmap_rest hmap b_idx offset = []
         else hmap_rest hmap b_idx offset = hd node # hmap_rest hmap (unat bucketp) (unat offsetp)"
  using at
proof (induction "length (hm_buckets hmap) - b_idx" arbitrary: b_idx offset)
  case 0
  then show ?case
    using shape by (simp add: hmap_rest_def hmap_at_position_from.simps [of hmap b_idx] hmap_shape_def)
next
  case (Suc x)
  then have b: "b_idx < length (hm_buckets hmap)" and le: "b_idx \<le> unat (hm_mask hmap)"
    using shape by (simp_all add: hmap_shape_def)
  let ?chain = "drop offset (hm_buckets hmap ! b_idx)"
  note at' = Suc.prems [unfolded hmap_at_position_from.simps [of hmap b_idx] hmap_chain_at_drop [OF le0] diff_zero]
  show ?case
  proof (cases ?chain)
    case Nil
    then have "hmap_at_position_from hmap (b_idx + 1) 0 = (node, bucketp, offsetp)" using at' le by simp
    then have "if node = [] then hmap_rest hmap (b_idx + 1) 0 = []
         else hmap_rest hmap (b_idx + 1) 0 = hd node # hmap_rest hmap (unat bucketp) (unat offsetp)"
      using Suc.hyps by simp
    moreover have "hmap_rest hmap b_idx offset = hmap_rest hmap (b_idx + 1) 0"
      using Nil b by (simp add: hmap_rest_def [of hmap b_idx] hmap_rest_next)
    ultimately show ?thesis by (simp only:)
  next
    case (Cons a "next")
    obtain hash p where a: "a = (hash, p)" by (cases a)
    have "a \<in> set (hm_buckets hmap ! b_idx)" using Cons by (metis in_set_dropD list.set_intros(1))
    then have h: "unat (hash AND hm_mask hmap) = b_idx"
      using shape b a by (auto simp: hmap_shape_def hmap_bucket_def)
    have o: "offset + 1 < 2 ^ 32" if "next \<noteq> []"
    proof -
      have "offset + 1 < length (hm_buckets hmap ! b_idx)"
        using arg_cong [OF Cons, of length] that by (cases "next") auto
      then show ?thesis using hmap_chain_length [OF shape b] n by linarith
    qed
    have rest: "hmap_rest hmap b_idx offset = a # next @ concat (drop (b_idx + 1) (hm_buckets hmap))"
      using b Cons by (simp add: hmap_rest_def)
    have node: "node = a # next" using at' le Cons a by (auto split: if_splits)
    have "hmap_rest hmap (unat bucketp) (unat offsetp) = next @ concat (drop (b_idx + 1) (hm_buckets hmap))"
    proof (cases "next = []")
      case True
      have "unat ((hash AND hm_mask hmap) + 1) = b_idx + 1"
        unfolding unat_word_ariths(1) h using b m by simp
      then have "unat (ucast ((hash AND hm_mask hmap) + 1) :: u32) = b_idx + 1"
        using unat_ucast32 b m by simp
      then show ?thesis using at' le Cons a True by (auto simp: hmap_rest_next)
    next
      case False
      have "unat (ucast (hash AND hm_mask hmap) :: u32) = b_idx" using unat_ucast32 h b m by simp
      moreover have "unat (of_nat (offset + 1) :: u32) = offset + 1"
        unfolding unat_of_nat using o [OF False] by simp
      moreover have "drop (offset + 1) (hm_buckets hmap ! b_idx) = next"
        using arg_cong [OF Cons, of tl] by (simp add: drop_Suc tl_drop)
      moreover have "bucketp = ucast (hash AND hm_mask hmap)" "offsetp = of_nat (offset + 1)"
        using at' le Cons a False by auto
      ultimately show ?thesis using b by (simp add: hmap_rest_def)
    qed
    then show ?thesis using rest node by simp
  qed
qed


lemma hmap_positions_rest:
  assumes "hmap_shape hmap" "length (hm_buckets hmap) < 2 ^ 32" "hm_n hmap < 2 ^ 32"
  shows "hmap_positions hmap bucketp offsetp = Some (hmap_rest hmap (unat bucketp) (unat offsetp))"
proof (induction "length (hmap_rest hmap (unat bucketp) (unat offsetp))" arbitrary: bucketp offsetp rule: less_induct)
  case less
  obtain node b off where at: "hmap_at_position hmap bucketp offsetp = (node, b, off)" by (metis prod_cases3)
  note rest = hmap_at_position_rest [OF assms at [unfolded hmap_at_position_def]]
  show ?case
  proof (cases "node = []")
    case True
    then show ?thesis using rest at by (simp add: hmap_positions.simps [of hmap bucketp])
  next
    case False
    then have "hmap_positions hmap b off = Some (hmap_rest hmap (unat b) (unat off))"
      using less rest by simp
    then show ?thesis using rest at False by (simp add: hmap_positions.simps [of hmap bucketp])
  qed
qed

section \<open>The interface of the tables built on a hash map\<close>

text \<open>
  A client searches the nodes of a table for one whose key is wanted, under the hash of that key.  Visiting
  all nodes with the hash and visiting the whole bucket of the hash are two ways to do so.  The keys live in
  the objects the nodes are embedded in, so they are a function of the address.
\<close>

locale node_search =
  fixes ok :: "'t \<Rightarrow> bool" and nodes :: "'t \<Rightarrow> hmap_node set" and search :: "'t \<Rightarrow> u64 \<Rightarrow> hmap_node list"
  assumes search_finds: "ok t \<Longrightarrow> (h, p) \<in> nodes t \<Longrightarrow> (h, p) \<in> set (search t h)"
    and search_sound: "ok t \<Longrightarrow> set (search t h) \<subseteq> nodes t"
begin

lemma search_key_exists:
  assumes "ok t" "\<forall>(h, p) \<in> nodes t. h = hash (key p)"
  shows "(\<exists>(h, p) \<in> set (search t (hash k)). key p = k) \<longleftrightarrow> k \<in> key ` snd ` nodes t"
  using search_finds [OF assms(1), of "hash k"] search_sound [OF assms(1), of "hash k"] assms(2) by force

lemma search_key_none:
  assumes "ok t" "\<forall>(h, p) \<in> nodes t. h = hash (key p)" "k \<notin> key ` snd ` nodes t"
  shows "find (\<lambda>(h, p). key p = k) (search t (hash k)) = None"
  using search_key_exists [where hash = hash and key = key and k = k, OF assms(1,2)] assms(3)
  by (auto simp: find_None_iff)

lemma search_key_some:
  assumes "ok t" "\<forall>(h, p) \<in> nodes t. h = hash (key p)" "inj_on key (snd ` nodes t)" "p \<in> snd ` nodes t"
  shows "find (\<lambda>(h, p'). key p' = key p) (search t (hash (key p))) = Some (hash (key p), p)"
proof -
  have "(hash (key p), p) \<in> nodes t" using assms(2,4) by force
  then have "(hash (key p), p) \<in> set (search t (hash (key p)))" by (rule search_finds [OF assms(1)])
  then obtain h p' where f: "find (\<lambda>(h, p'). key p' = key p) (search t (hash (key p))) = Some (h, p')"
    by (cases "find (\<lambda>(h, p'). key p' = key p) (search t (hash (key p)))") (auto simp: find_None_iff)
  then have "(h, p') \<in> set (search t (hash (key p)))" "key p' = key p"
    by (auto simp: find_Some_iff in_set_conv_nth)
  then have "(h, p') \<in> nodes t" using search_sound [OF assms(1)] by blast
  moreover from this have "p' = p"
    using inj_onD [OF assms(3) \<open>key p' = key p\<close> _ assms(4)] by force
  ultimately have "p' = p" "h = hash (key p)" using assms(2) by auto
  then show ?thesis using f by simp
qed

end

locale node_table = node_search +
  fixes empty :: 't and ins :: "addr \<Rightarrow> u64 \<Rightarrow> 't \<Rightarrow> 't" and del :: "addr \<Rightarrow> u64 \<Rightarrow> 't \<Rightarrow> 't option"
  assumes empty_ok: "ok empty" "nodes empty = {}"
    and ins_ok: "ok t \<Longrightarrow> p \<notin> snd ` nodes t \<Longrightarrow> ok (ins p h t) \<and> nodes (ins p h t) = insert (h, p) (nodes t)"
    and del_ok: "ok t \<Longrightarrow> (h, p) \<in> nodes t \<Longrightarrow> \<exists>t'. del p h t = Some t' \<and> ok t' \<and> nodes t' = nodes t - {(h, p)}"
begin

lemma table_from_list:
  "distinct ps \<Longrightarrow> ok (fold (\<lambda>p. ins p (h p)) ps empty) \<and> nodes (fold (\<lambda>p. ins p (h p)) ps empty) = (\<lambda>p. (h p, p)) ` set ps"
proof (induction ps rule: rev_induct)
  case (snoc p ps)
  then have "p \<notin> snd ` nodes (fold (\<lambda>p. ins p (h p)) ps empty)" by auto
  then show ?case using ins_ok snoc by auto
qed (simp add: empty_ok)

lemma search_from_list:
  assumes "distinct ps"
  shows "(\<exists>(h, p) \<in> set (search (fold (\<lambda>p. ins p (hash (key p))) ps empty) (hash k)). key p = k) \<longleftrightarrow> k \<in> key ` set ps"
proof -
  note t = table_from_list [OF assms, of "\<lambda>p. hash (key p)"]
  show ?thesis using search_key_exists [where hash = hash and key = key and k = k, OF conjunct1 [OF t]] t by (auto simp: image_image)
qed

end

interpretation with_hash: node_table hmap_ok hmap_nodes
  "\<lambda>t h. hmap_for_each_with_hash (hmap_first_with_hash t h)" hmap_init hmap_insert hmap_remove
proof (unfold_locales, goal_cases)
  case 6
  then show ?case using hmap_remove_ok by blast
qed (auto simp: hmap_first_with_hash_for_each hmap_init_ok hmap_insert_ok)

lemma in_bucket_sound:
  assumes "hmap_ok t"
  shows "set (hmap_first_in_bucket t h) \<subseteq> hmap_nodes t"
proof -
  have "hmap_bucket t h < length (hm_buckets t)"
    by (rule hmap_bucket_bound) (use assms in \<open>simp add: hmap_ok_def\<close>)
  then have "hm_buckets t ! hmap_bucket t h \<in> set (hm_buckets t)" by (rule nth_mem)
  then show ?thesis by (auto simp: hmap_first_in_bucket_def hmap_nodes_def)
qed

interpretation in_bucket: node_table hmap_ok hmap_nodes hmap_first_in_bucket hmap_init hmap_insert hmap_remove
proof (unfold_locales, goal_cases)
  case 6
  then show ?case using hmap_remove_ok by blast
qed (auto simp: hmap_nodes_bucket hmap_ok_def hmap_first_in_bucket_def in_bucket_sound [unfolded hmap_first_in_bucket_def]
    hmap_init_ok hmap_insert_ok [unfolded hmap_ok_def] hmap_init_ok(1) [unfolded hmap_ok_def])

section \<open>Properties of the hash map\<close>

text \<open>The operations of a client and, beside each, what it means for the set of nodes.\<close>

datatype hmap_call =
    Insert addr u64 | Insert_Fast addr u64 | Remove addr u64 | Replace addr u64 addr | Node_Moved addr u64 addr
  | Clear | Expand | Shrink | Reserve nat

fun hmap_do :: "hmap_call \<Rightarrow> hmap \<Rightarrow> hmap option" where
  "hmap_do (Insert node hash) hmap = Some (hmap_insert node hash hmap)"
| "hmap_do (Insert_Fast node hash) hmap = Some (hmap_insert_fast node hash hmap)"
| "hmap_do (Remove node hash) hmap = hmap_remove node hash hmap"
| "hmap_do (Replace old hash new) hmap = hmap_replace old hash new hmap"
| "hmap_do (Node_Moved old hash new) hmap = hmap_node_moved old new hash hmap"
| "hmap_do Clear hmap = Some (hmap_clear hmap)"
| "hmap_do Expand hmap = Some (hmap_expand hmap)"
| "hmap_do Shrink hmap = Some (hmap_shrink hmap)"
| "hmap_do (Reserve n) hmap = Some (hmap_reserve n hmap)"

fun nodes_do :: "hmap_call \<Rightarrow> hmap_node set \<Rightarrow> hmap_node set" where
  "nodes_do (Insert node hash) S = insert (hash, node) S"
| "nodes_do (Insert_Fast node hash) S = insert (hash, node) S"
| "nodes_do (Remove node hash) S = S - {(hash, node)}"
| "nodes_do (Replace old hash new) S = insert (hash, new) (S - {(hash, old)})"
| "nodes_do (Node_Moved old hash new) S = insert (hash, new) (S - {(hash, old)})"
| "nodes_do Clear S = {}"
| "nodes_do _ S = S"

fun hmap_call_ok :: "hmap_call \<Rightarrow> hmap_node set \<Rightarrow> bool" where
  "hmap_call_ok (Insert node hash) S \<longleftrightarrow> node \<notin> snd ` S"
| "hmap_call_ok (Insert_Fast node hash) S \<longleftrightarrow> node \<notin> snd ` S"
| "hmap_call_ok (Remove node hash) S \<longleftrightarrow> (hash, node) \<in> S"
| "hmap_call_ok (Replace old hash new) S \<longleftrightarrow> (hash, old) \<in> S \<and> new \<notin> snd ` S - {old}"
| "hmap_call_ok (Node_Moved old hash new) S \<longleftrightarrow> (hash, old) \<in> S \<and> new \<notin> snd ` S - {old}"
| "hmap_call_ok _ S \<longleftrightarrow> True"

lemma hmap_do_step:
  assumes "hmap_ok hmap" "hmap_call_ok c (hmap_nodes hmap)"
  shows "\<exists>hmap'. hmap_do c hmap = Some hmap' \<and> hmap_ok hmap' \<and> hmap_nodes hmap' = nodes_do c (hmap_nodes hmap)"
  using assms
  by (cases c) (auto simp: hmap_insert_ok insert_fast_ok hmap_clear_ok hmap_expand_ok hmap_shrink_ok hmap_reserve_ok
      hmap_node_moved_replace dest: hmap_remove_ok hmap_replace_ok)

text \<open>A client that keeps to the conditions of the calls.\<close>

fun hmap_run :: "hmap_call list \<Rightarrow> hmap \<Rightarrow> hmap option" where
  "hmap_run [] hmap = Some hmap"
| "hmap_run (c # cs) hmap = Option.bind (hmap_do c hmap) (hmap_run cs)"

fun calls_ok :: "hmap_call list \<Rightarrow> hmap_node set \<Rightarrow> bool" where
  "calls_ok [] S \<longleftrightarrow> True"
| "calls_ok (c # cs) S \<longleftrightarrow> hmap_call_ok c S \<and> calls_ok cs (nodes_do c S)"

lemma hmap_run_step:
  assumes "hmap_ok hmap" "calls_ok cs (hmap_nodes hmap)"
  shows "\<exists>hmap'. hmap_run cs hmap = Some hmap' \<and> hmap_ok hmap' \<and>
                 hmap_nodes hmap' = fold nodes_do cs (hmap_nodes hmap)"
  using assms
proof (induction cs arbitrary: hmap)
  case (Cons c cs)
  obtain hmap' where "hmap_do c hmap = Some hmap'" "hmap_ok hmap'" "hmap_nodes hmap' = nodes_do c (hmap_nodes hmap)"
    using hmap_do_step Cons.prems by fastforce
  then show ?case using Cons.IH [of hmap'] Cons.prems(2) by simp
qed simp

text \<open>
  C27.  The hash map implements a set of nodes: any sequence of insertions, removals, replacements, moves,
  clearings and changes of capacity, each made under the condition its comment states, runs without a walk
  off the end of a chain and leaves a well-formed map whose nodes are those the calls prescribe; \<open>hmap_count\<close>
  is their number, and \<open>HMAP_FOR_EACH_WITH_HASH\<close> then visits the nodes with a given hash, each once.
\<close>

theorem hmap_implements_set:
  assumes "calls_ok cs {}"
  shows "\<exists>hmap. hmap_run cs hmap_init = Some hmap \<and> hmap_nodes hmap = fold nodes_do cs {} \<and>
    hmap_count hmap = card (fold nodes_do cs {}) \<and>
    set (hmap_for_each_with_hash (hmap_first_with_hash hmap hash)) = {x \<in> fold nodes_do cs {}. fst x = hash} \<and>
    distinct (map snd (hmap_for_each_with_hash (hmap_first_with_hash hmap hash)))"
proof -
  obtain hmap where "hmap_run cs hmap_init = Some hmap" "hmap_ok hmap" "hmap_nodes hmap = fold nodes_do cs {}"
    using hmap_run_step [OF hmap_init_ok(1), of cs] assms by (auto simp: hmap_init_ok)
  moreover from this have "hmap_count hmap = card (fold nodes_do cs {})"
    using hmap_count_nodes by simp
  ultimately show ?thesis using hmap_first_with_hash_for_each [of hmap hash] by (intro exI [of _ hmap]) simp
qed

theorem hmap_implements_set_witness:
  "\<exists>hmap. hmap_run [Insert 1 5, Insert 2 9, Insert 3 1, Remove 2 9] hmap_init = Some hmap \<and>
    hmap_count hmap = 2 \<and> set (hmap_for_each_with_hash (hmap_first_with_hash hmap 1)) = {(1, 3)}"
proof -
  have "calls_ok [Insert 1 5, Insert 2 9, Insert 3 1, Remove 2 9] {}" by simp
  moreover have "fold nodes_do [Insert 1 5, Insert 2 9, Insert 3 1, Remove 2 9] {} = {(1, 3), (5, 1)}" by auto
  ultimately obtain hmap where "hmap_run [Insert 1 5, Insert 2 9, Insert 3 1, Remove 2 9] hmap_init = Some hmap"
    "hmap_count hmap = card {(1 :: u64, 3 :: addr), (5, 1)}"
    "set (hmap_for_each_with_hash (hmap_first_with_hash hmap 1)) = {x \<in> {(1, 3), (5, 1)}. fst x = 1}"
    using hmap_implements_set [of "[Insert 1 5, Insert 2 9, Insert 3 1, Remove 2 9]" 1] by metis
  moreover have "{x \<in> {(1 :: u64, 3 :: addr), (5, 1)}. fst x = 1} = {(1, 3)}" by auto
  ultimately show ?thesis by (intro exI [of _ hmap]) simp
qed

text \<open>
  C28.  Iterating over a well-formed hash map ends and visits every node exactly once: with \<open>HMAP_FOR_EACH\<close>
  without restriction, and with \<open>hmap_at_position\<close>, whose position is a pair of 32-bit numbers, for maps of
  less than \<open>2 ^ 32\<close> buckets and nodes.
\<close>

theorem hmap_iteration_complete:
  assumes "hmap_ok hmap"
  shows "\<exists>visited. hmap_for_each hmap (hmap_first hmap) = Some visited \<and>
    distinct (map snd visited) \<and> set visited = hmap_nodes hmap \<and>
    (length (hm_buckets hmap) < 2 ^ 32 \<and> hmap_count hmap < 2 ^ 32 \<longrightarrow> hmap_positions hmap 0 0 = Some visited)"
proof -
  have shape: "hmap_shape hmap" using assms by (simp add: hmap_ok_def)
  have "hmap_for_each hmap (hmap_first hmap) = Some (hmap_contents hmap)"
    unfolding hmap_first_def using hmap_next_from_for_each [OF shape, of 0] by simp
  moreover have "hmap_positions hmap 0 0 = Some (hmap_contents hmap)"
    if "length (hm_buckets hmap) < 2 ^ 32" "hmap_count hmap < 2 ^ 32"
    using hmap_positions_rest [OF shape that(1), of 0 0] that(2) by (simp add: hmap_rest_next hmap_count_def)
  ultimately show ?thesis using assms by (auto simp: hmap_ok_def hmap_nodes_def)
qed

theorem hmap_iteration_complete_witness:
  "\<exists>visited. hmap_for_each (hmap_insert_fast 1 5 hmap_init) (hmap_first (hmap_insert_fast 1 5 hmap_init)) = Some visited \<and>
    set visited = {(5, 1)} \<and> hmap_positions (hmap_insert_fast 1 5 hmap_init) 0 0 = Some visited"
proof -
  have ok: "hmap_ok (hmap_insert_fast 1 5 hmap_init)" "hmap_nodes (hmap_insert_fast 1 5 hmap_init) = {(5, 1)}"
    using insert_fast_ok [OF hmap_init_ok(1)] by (simp_all add: hmap_init_ok)
  have "length (hm_buckets (hmap_insert_fast 1 5 hmap_init)) < 2 ^ 32" "hmap_count (hmap_insert_fast 1 5 hmap_init) < 2 ^ 32"
    by (simp_all add: hmap_insert_fast_def hmap_init_def hmap_count_def hmap_bucket_def Let_def)
  then show ?thesis using hmap_iteration_complete [OF ok(1)] ok(2) by auto
qed

lemma is_pow2_mask: "k \<le> 63 \<Longrightarrow> is_pow2 (mask k + 1)"
  by (simp add: is_pow2_def mask_eq_exp_minus_1 take_bit_eq_mask [unfolded mask_eq_exp_minus_1, symmetric]
      take_bit_eq_mod)

lemma hmap_insert_load:
  assumes shape: "hmap_shape hmap" and n: "hm_n hmap + 1 < 2 ^ 64"
  shows "hm_n (hmap_insert node hash hmap) div 2 \<le> unat (hm_mask (hmap_insert node hash hmap))"
proof -
  define h where "h = hmap_insert_fast node hash hmap"
  have h: "hmap_shape h" "hm_n h = hm_n hmap + 1"
    using insert_fast_shape [OF shape] by (simp_all add: h_def hmap_insert_fast_def Let_def)
  define c where "c = (of_nat (hm_n h) :: u64)"
  obtain k where k: "k \<le> 63" "calc_mask c = mask k" using calc_mask_exp by blast
  note r = resize_ok [OF k(1), of h, folded k(2)]
  have "hm_n (resize (calc_mask c) h) = hm_n h"
    using r(1) h(1) arg_cong [OF r(2), of size] by (simp add: hmap_shape_def)
  moreover have "unat c = hm_n h" unfolding c_def h(2) unat_of_nat using n by simp
  ultimately have "hm_n (hmap_expand h) div 2 \<le> unat (hm_mask (hmap_expand h))"
    using calc_mask_lower [of c] r(3)
    by (auto simp: hmap_expand_def Let_def c_def [symmetric] not_less word_le_nat_alt)
  then show ?thesis by (simp add: hmap_insert_def h_def [symmetric] Let_def)
qed

text \<open>
  C29.  The mask computed for a capacity is one less than a power of two and big enough for at most two
  nodes per bucket, yet, from four buckets on, smaller than the capacity; and so long as the number of
  nodes fits \<open>size_t\<close>, a map has at most two nodes per bucket on average after \<open>hmap_insert\<close>.
\<close>

theorem hmap_load_bounded:
  assumes "hmap_ok hmap" "hmap_count hmap + 1 < 2 ^ 64"
  shows "is_pow2 (calc_mask c + 1) \<and> unat c div 2 \<le> unat (calc_mask c) \<and> unat (calc_mask c) \<le> max 3 (unat c - 1) \<and>
    hmap_count (hmap_insert node hash hmap) div 2 \<le> unat (hm_mask (hmap_insert node hash hmap))"
proof -
  have "is_pow2 (calc_mask c + 1)" using calc_mask_exp [of c] is_pow2_mask by metis
  then show ?thesis
    using calc_mask_bounds hmap_insert_load assms by (simp add: hmap_ok_def hmap_count_def)
qed

theorem hmap_load_bounded_witness:
  "hmap_count (hmap_insert 1 5 hmap_init) div 2 \<le> unat (hm_mask (hmap_insert 1 5 hmap_init))"
  using hmap_load_bounded [OF hmap_init_ok(1), where c = 1] by (simp add: hmap_count_def hmap_init_def)

end
