(* ===== verification/Hash.thy ===== *)
theory Hash
  imports Prelude
begin

text \<open>
  The hash functions of \<open>lib/hash.h\<close> and \<open>lib/hash.c\<close> (MurmurHash3), on a little-endian host: bytes in
  memory are a list, and a 32-bit read takes the first byte as the least significant.
\<close>

section \<open>Definitions\<close>

definition hash_rot :: "u32 \<Rightarrow> nat \<Rightarrow> u32" where
  "hash_rot x k = push_bit k x OR drop_bit (32 - k) x"

definition mhash_add_data :: "u32 \<Rightarrow> u32 \<Rightarrow> u32" where
  "mhash_add_data hash data =
    (let data = data * 0xcc9e2d51;
         data = hash_rot data 15;
         data = data * 0x1b873593
     in hash XOR data)"

definition mhash_add :: "u32 \<Rightarrow> u32 \<Rightarrow> u32" where
  "mhash_add hash data = hash_rot (mhash_add_data hash data) 13 * 5 + 0xe6546b64"

definition mhash_finish :: "u32 \<Rightarrow> nat \<Rightarrow> u32" where
  "mhash_finish hash n_bytes =
    (let hash = hash XOR of_nat n_bytes;
         hash = hash XOR drop_bit 16 hash;
         hash = hash * 0x85ebca6b;
         hash = hash XOR drop_bit 13 hash;
         hash = hash * 0xc2b2ae35
     in hash XOR drop_bit 16 hash)"

definition hash_2words :: "u32 \<Rightarrow> u32 \<Rightarrow> u32" where
  "hash_2words x y = mhash_finish (mhash_add (mhash_add x 0) y) 8"

definition hash_3words :: "u32 \<Rightarrow> u32 \<Rightarrow> u32 \<Rightarrow> u32" where
  "hash_3words a b c = mhash_finish (mhash_add (mhash_add (mhash_add a 0) b) c) 12"

definition hash_int :: "u32 \<Rightarrow> u32 \<Rightarrow> u32" where
  "hash_int x basis = hash_2words x basis"

definition hash_boolean :: "bool \<Rightarrow> u32 \<Rightarrow> u32" where
  "hash_boolean x basis = (if x then 0xc2b73583 else 0xe90f1258) XOR hash_rot basis 1"

definition hash_uint64 :: "u64 \<Rightarrow> u32" where
  "hash_uint64 x = hash_2words (ucast (drop_bit 32 x)) (ucast x)"

definition hash_uint64_basis :: "u64 \<Rightarrow> u32 \<Rightarrow> u32" where
  "hash_uint64_basis x basis = hash_3words (ucast (drop_bit 32 x)) (ucast x) basis"

text \<open>A 32-bit word from at most four bytes in memory, those missing being 0.\<close>

definition get_unaligned_u32 :: "u8 list \<Rightarrow> u32" where
  "get_unaligned_u32 p = of_be (rev p)"

fun hash_bytes_loop :: "u8 list \<Rightarrow> u32 \<Rightarrow> u32" where
  "hash_bytes_loop (a # b # c # d # p) hash = hash_bytes_loop p (mhash_add hash (get_unaligned_u32 [a, b, c, d]))"
| "hash_bytes_loop [] hash = hash"
| "hash_bytes_loop p hash = mhash_add_data hash (get_unaligned_u32 p)"

definition hash_bytes :: "u8 list \<Rightarrow> u32 \<Rightarrow> u32" where
  "hash_bytes p basis = mhash_finish (hash_bytes_loop p basis) (length p)"

definition hash_words :: "u32 list \<Rightarrow> u32 \<Rightarrow> u32" where
  "hash_words p basis = mhash_finish (fold (\<lambda>w hash. mhash_add hash w) p basis) (length p * 4)"

definition hash_string :: "u8 list \<Rightarrow> u32 \<Rightarrow> u32" where
  "hash_string s basis = hash_bytes s basis"

section \<open>Mixing loses nothing\<close>

text \<open>Each step of the mixing has an inverse: odd factors, rotations and shifted exclusive ors.\<close>

lemma inj_times_inverse: "inj (\<lambda>x :: u32. x * c)" if "c * d = 1" for c d :: u32
proof (rule injI)
  fix x y :: u32
  assume "x * c = y * c"
  then have "x * c * d = y * c * d" by simp
  then show "x = y" using that by (simp add: mult.assoc)
qed

lemma inj_mult_consts:
  "inj (\<lambda>x :: u32. x * 0xcc9e2d51)" "inj (\<lambda>x :: u32. x * 0x1b873593)"
  "inj (\<lambda>x :: u32. x * 0x85ebca6b)" "inj (\<lambda>x :: u32. x * 0xc2b2ae35)" "inj (\<lambda>x :: u32. x * 5)"
  by (rule inj_times_inverse [where d = "0xdee13bb1"], simp) (rule inj_times_inverse [where d = "0x56ed309b"], simp,
     rule inj_times_inverse [where d = "0xa5cb9243"], simp, rule inj_times_inverse [where d = "0x7ed1b41d"], simp,
     rule inj_times_inverse [where d = "0xcccccccd"], simp)

lemma bit_hash_rot:
  "0 < k \<Longrightarrow> k < 32 \<Longrightarrow> i < 32 \<Longrightarrow> bit (hash_rot x k) i = (if i < k then bit x (i + 32 - k) else bit x (i - k))"
  by (auto simp: hash_rot_def bit_simps add.commute dest: bit_imp_le_length)

lemma hash_rot_inverse: "0 < k \<Longrightarrow> k < 32 \<Longrightarrow> hash_rot (hash_rot x k) (32 - k) = x"
  by (rule bit_word_eqI) (auto simp: bit_hash_rot)

lemma inj_hash_rot: "0 < k \<Longrightarrow> k < 32 \<Longrightarrow> inj (\<lambda>x. hash_rot x k)"
  by (rule inj_on_inverseI [where g = "\<lambda>x. hash_rot x (32 - k)"]) (simp add: hash_rot_inverse)

lemma xor_shift_inverse:
  fixes x :: u32
  shows "(let z = x XOR drop_bit 16 x in z XOR drop_bit 16 z) = x"
    "(let z = x XOR drop_bit 13 x in z XOR drop_bit 13 z XOR drop_bit 26 z) = x"
  by (rule bit_word_eqI, auto simp: Let_def bit_simps add.assoc dest: bit_imp_le_length)+

lemma inj_xor_shift: "inj (\<lambda>x :: u32. x XOR drop_bit 16 x)" "inj (\<lambda>x :: u32. x XOR drop_bit 13 x)"
  by (rule inj_on_inverseI [where g = "\<lambda>z. z XOR drop_bit 16 z"], use xor_shift_inverse(1) in \<open>simp add: Let_def\<close>)
    (rule inj_on_inverseI [where g = "\<lambda>z. z XOR drop_bit 13 z XOR drop_bit 26 z"],
     use xor_shift_inverse(2) in \<open>simp add: Let_def\<close>)

lemma inj_mhash_finish: "inj (\<lambda>h. mhash_finish h n)"
proof -
  have "(\<lambda>h. mhash_finish h n) = (\<lambda>h. h XOR drop_bit 16 h) \<circ> (\<lambda>h. h * 0xc2b2ae35) \<circ>
      (\<lambda>h. h XOR drop_bit 13 h) \<circ> (\<lambda>h. h * 0x85ebca6b) \<circ> (\<lambda>h. h XOR drop_bit 16 h) \<circ> (\<lambda>h. h XOR of_nat n)"
    by (simp add: mhash_finish_def Let_def fun_eq_iff)
  moreover have "inj (\<lambda>h :: u32. h XOR of_nat n)"
    by (rule inj_on_inverseI [where g = "\<lambda>h. h XOR of_nat n"]) (simp add: xor.assoc)
  ultimately show ?thesis
    by (simp only:) (intro inj_compose inj_mult_consts inj_xor_shift)
qed

lemma inj_mhash_add_data: "inj (mhash_add_data h)"
proof -
  have "mhash_add_data h = (\<lambda>d. h XOR d) \<circ> (\<lambda>d. d * 0x1b873593) \<circ> (\<lambda>d. hash_rot d 15) \<circ> (\<lambda>d. d * 0xcc9e2d51)"
    by (simp add: mhash_add_data_def Let_def fun_eq_iff)
  moreover have "inj (\<lambda>d :: u32. h XOR d)"
    by (rule inj_on_inverseI [where g = "\<lambda>d. h XOR d"]) (simp add: xor.assoc [symmetric])
  ultimately show ?thesis
    by (simp only:) (intro inj_compose inj_mult_consts inj_hash_rot, simp_all)
qed

lemma inj_mhash_scramble: "inj (\<lambda>h. hash_rot h 13 * 5 + 0xe6546b64)"
proof -
  have "(\<lambda>h. hash_rot h 13 * 5 + 0xe6546b64) = (\<lambda>h. h + 0xe6546b64) \<circ> (\<lambda>h. h * 5) \<circ> (\<lambda>h. hash_rot h 13)"
    by (simp add: fun_eq_iff)
  moreover have "inj (\<lambda>h :: u32. h + 0xe6546b64)" by simp
  ultimately show ?thesis
    by (simp only:) (intro inj_compose inj_mult_consts inj_hash_rot, simp_all)
qed

lemma mhash_add_cancel:
  "mhash_add h d = mhash_add h e \<longleftrightarrow> d = e" "mhash_add g d = mhash_add h d \<longleftrightarrow> g = h"
proof -
  have "mhash_add_data g d = mhash_add_data h d \<longleftrightarrow> g = h"
  proof
    assume "mhash_add_data g d = mhash_add_data h d"
    then have "mhash_add_data g d XOR mhash_add_data 0 d = mhash_add_data h d XOR mhash_add_data 0 d" by simp
    then show "g = h" by (simp add: mhash_add_data_def Let_def xor.assoc)
  qed simp
  then show "mhash_add h d = mhash_add h e \<longleftrightarrow> d = e" "mhash_add g d = mhash_add h d \<longleftrightarrow> g = h"
    unfolding mhash_add_def using inj_mhash_scramble inj_mhash_add_data by (meson injD)+
qed

lemma fold_mhash_add_cancel:
  "fold (\<lambda>w h. mhash_add h w) p g = fold (\<lambda>w h. mhash_add h w) p h \<longleftrightarrow> g = h"
  by (induction p arbitrary: g h) (simp_all add: mhash_add_cancel)

text \<open>
  \<open>hash_words\<close> separates neighbours: changing one word of the data, or the basis, always changes the
  hash, so two keys of the same length with equal hashes differ in at least two words.
\<close>

theorem hash_words_separates:
  assumes "i < length p"
  shows "(hash_words (p[i := a]) basis = hash_words (p[i := b]) basis \<longleftrightarrow> a = b) \<and>
    (hash_words p basis = hash_words p basis' \<longleftrightarrow> basis = basis')"
proof -
  let ?f = "\<lambda>w h. mhash_add h w"
  have "fold ?f (p[i := c]) basis = fold ?f (drop (Suc i) p) (mhash_add (fold ?f (take i p) basis) c)" for c
    using assms by (simp add: upd_conv_take_nth_drop)
  then show ?thesis
    by (simp add: hash_words_def inj_eq [OF inj_mhash_finish] fold_mhash_add_cancel mhash_add_cancel)
qed

theorem hash_words_separates_witness: "hash_words ([1, 2, 3] [1 := 7]) 0 \<noteq> hash_words ([1, 2, 3] [1 := 8]) 0"
  using hash_words_separates [of 1 "[1, 2, 3]" 7 0 8 0] by simp

section \<open>Words and bytes\<close>

lemma unaligned_to_be: "get_unaligned_u32 (rev (to_be 4 w)) = w"
  by (simp add: get_unaligned_u32_def of_be_to_be_full)

lemma hash_bytes_loop_words:
  "hash_bytes_loop (concat (map (\<lambda>w. rev (to_be 4 w)) ws)) h = fold (\<lambda>w h. mhash_add h w) ws h"
proof (induction ws arbitrary: h)
  case (Cons w ws)
  have "\<exists>a b c d. xs = [a, b, c, d]" if "length xs = 4" for xs :: "u8 list"
    using that by (auto simp: numeral_eq_Suc length_Suc_conv)
  from this [of "rev (to_be 4 w)"] obtain a b c d where w: "rev (to_be 4 w) = [a, b, c, d]" by auto
  have "get_unaligned_u32 [a, b, c, d] = w" using unaligned_to_be [of w] w by simp
  then show ?case using Cons by (simp add: w)
qed simp

text \<open>
  \<open>hash_bytes\<close> and \<open>hash_words\<close> agree: hashing an array of words as the bytes it occupies in memory
  gives the hash of the array.
\<close>

theorem hash_bytes_of_words:
  "hash_bytes (concat (map (\<lambda>w. rev (to_be 4 w)) ws)) basis = hash_words ws basis"
proof -
  have "length (concat (map (\<lambda>w. rev (to_be 4 w)) ws)) = length ws * 4"
    by (induction ws) simp_all
  then show ?thesis by (simp add: hash_bytes_def hash_words_def hash_bytes_loop_words)
qed

text \<open>
  The constants of \<open>hash_boolean\<close> are not the values its comments name: they stem from an earlier hash
  function.
\<close>

lemma hash_boolean_constants: "hash_int 1 0 = 0xea95647d \<and> hash_int 2 0 = 0xa1cba8ce"
  by code_simp

end
