(* ===== verification/Packets.thy ===== *)
theory Packets
  imports Hmap Hash
begin

text \<open>
  The Ethernet address functions of \<open>lib/packets.h\<close> and \<open>lib/packets.c\<close>.  An address is the list of its six
  bytes.  The set of reserved addresses is, as in the source, a hash map over a static array of nodes; a node
  is named by its index in the array.
\<close>

section \<open>Definitions\<close>

type_synonym eth_addr = "u8 list"

definition ETH_ADDR_LEN :: nat where
  "ETH_ADDR_LEN = 6"

definition eth_addr_is_broadcast :: "eth_addr \<Rightarrow> bool" where
  "eth_addr_is_broadcast ea \<longleftrightarrow> (ea ! 0 AND ea ! 1 AND ea ! 2 AND ea ! 3 AND ea ! 4 AND ea ! 5) = 0xff"

definition eth_addr_is_multicast :: "eth_addr \<Rightarrow> bool" where
  "eth_addr_is_multicast ea \<longleftrightarrow> (ea ! 0 AND 1) \<noteq> 0"

definition eth_addr_equals :: "eth_addr \<Rightarrow> eth_addr \<Rightarrow> bool" where
  "eth_addr_equals a b \<longleftrightarrow> take ETH_ADDR_LEN a = take ETH_ADDR_LEN b"

definition eth_addr_to_uint64 :: "eth_addr \<Rightarrow> u64" where
  "eth_addr_to_uint64 ea =
    (push_bit 40 (ucast (ea ! 0)) OR push_bit 32 (ucast (ea ! 1)) OR push_bit 24 (ucast (ea ! 2)) OR
     push_bit 16 (ucast (ea ! 3)) OR push_bit 8 (ucast (ea ! 4)) OR ucast (ea ! 5))"

definition eth_addr_vlan_to_uint64 :: "eth_addr \<Rightarrow> u16 \<Rightarrow> u64" where
  "eth_addr_vlan_to_uint64 ea vlan = push_bit 48 (ucast vlan) OR eth_addr_to_uint64 ea"

definition eth_addr_from_uint64 :: "u64 \<Rightarrow> eth_addr" where
  "eth_addr_from_uint64 x =
    [ucast (drop_bit 40 x), ucast (drop_bit 32 x), ucast (drop_bit 24 x), ucast (drop_bit 16 x), ucast (drop_bit 8 x), ucast x]"

definition hash_mac :: "eth_addr \<Rightarrow> u16 \<Rightarrow> u32 \<Rightarrow> u32" where
  "hash_mac ea vlan basis = hash_uint64_basis (eth_addr_vlan_to_uint64 ea vlan) basis"

definition reserved_nodes :: "u64 list" where
  "reserved_nodes =
    [0x0180c2000000, 0x0180c2000001, 0x0180c2000002, 0x0180c2000003, 0x0180c2000004, 0x0180c2000005,
     0x0180c2000006, 0x0180c2000007, 0x0180c2000008, 0x0180c2000009, 0x0180c200000a, 0x0180c200000b,
     0x0180c200000c, 0x0180c200000d, 0x0180c200000e, 0x0180c200000f,
     0x00e02b000000, 0x00e02b000004, 0x00e02b000006,
     0x01000c000000, 0x01000ccccccc, 0x01000ccccccd, 0x01000ccdcdcd,
     0x01000cccccc0, 0x01000cccccc1, 0x01000cccccc2, 0x01000cccccc3,
     0x01000cccccc4, 0x01000cccccc5, 0x01000cccccc6, 0x01000cccccc7]"

definition reserved_addrs :: hmap where
  "reserved_addrs =
    fold (\<lambda>node. hmap_insert node (ucast (hash_uint64 (reserved_nodes ! node)))) [0..<length reserved_nodes] hmap_init"

fun reserved_in_bucket :: "u64 \<Rightarrow> hmap_node list \<Rightarrow> bool" where
  "reserved_in_bucket ea64 [] \<longleftrightarrow> False"
| "reserved_in_bucket ea64 ((hash, node) # chain) \<longleftrightarrow>
    (if reserved_nodes ! node = ea64 then True else reserved_in_bucket ea64 (hmap_next_in_bucket ((hash, node) # chain)))"

definition eth_addr_is_reserved :: "eth_addr \<Rightarrow> bool" where
  "eth_addr_is_reserved ea =
    (let ea64 = eth_addr_to_uint64 ea
     in reserved_in_bucket ea64 (hmap_first_in_bucket reserved_addrs (ucast (hash_uint64 ea64))))"

section \<open>Properties\<close>

lemma eth_addr_equals_eq: "length a = 6 \<Longrightarrow> length b = 6 \<Longrightarrow> eth_addr_equals a b \<longleftrightarrow> a = b"
  by (simp add: eth_addr_equals_def ETH_ADDR_LEN_def)

lemma reserved_in_bucket_iff: "reserved_in_bucket ea64 chain \<longleftrightarrow> (\<exists>(h, p) \<in> set chain. reserved_nodes ! p = ea64)"
  by (induction chain rule: reserved_in_bucket.induct) auto

lemma eth_addr_list: "length ea = 6 \<Longrightarrow> \<exists>a b c d e f. ea = [a, b, c, d, e, f]"
  by (auto simp: eval_nat_numeral length_Suc_conv)

lemma eth_addr_uint64_roundtrip:
  assumes "length ea = 6"
  shows "eth_addr_from_uint64 (eth_addr_to_uint64 ea) = ea"
proof -
  obtain a b c d e f where ea: "ea = [a, b, c, d, e, f]" using eth_addr_list [OF assms] by blast
  have hi: "\<not> bit w n" if "8 \<le> n" for w :: u8 and n using bit_imp_le_length [of w n] that by auto
  have 1: "x = y" if "\<And>n. n < 8 \<Longrightarrow> bit x n = bit y n" for x y :: u8
    by (rule bit_word_eqI) (use that in simp)
  show ?thesis
    unfolding ea eth_addr_to_uint64_def eth_addr_from_uint64_def
    by (auto intro!: 1 simp: bit_simps hi)
qed

lemma eth_addr_uint64_take: "eth_addr_to_uint64 (eth_addr_from_uint64 x) = take_bit 48 x"
proof -
  have "eth_addr_from_uint64 x = to_be 6 x"
    by (simp add: eth_addr_from_uint64_def to_be_def eval_nat_numeral)
  moreover have "eth_addr_to_uint64 [a, b, c, d, e, f] = of_be [a, b, c, d, e, f]" for a b c d e f
    by (simp add: eth_addr_to_uint64_def of_be_def push_bit_or or.assoc)
  then have "eth_addr_to_uint64 (to_be 6 x) = of_be (to_be 6 x)"
    using eth_addr_list [of "to_be 6 x"] by auto
  ultimately show ?thesis by (simp add: of_be_to_be)
qed

lemma reserved_nodes_48: "x \<in> set reserved_nodes \<Longrightarrow> take_bit 48 x = x"
  by (auto simp: reserved_nodes_def)

lemma reserved_addrs_fold:
  "reserved_addrs = fold (\<lambda>p. hmap_insert p ((\<lambda>ea64. ucast (hash_uint64 ea64)) (reserved_nodes ! p)))
     [0..<length reserved_nodes] hmap_init"
  by (simp add: reserved_addrs_def)

text \<open>
  \<open>eth_addr_is_reserved\<close> recognises exactly the addresses of its table, whatever they hash to.
\<close>

theorem eth_addr_is_reserved_exact:
  assumes "length ea = 6"
  shows "eth_addr_is_reserved ea \<longleftrightarrow> ea \<in> eth_addr_from_uint64 ` set reserved_nodes"
proof -
  have "eth_addr_is_reserved ea \<longleftrightarrow> eth_addr_to_uint64 ea \<in> (!) reserved_nodes ` set [0..<length reserved_nodes]"
    using in_bucket.search_from_list [of "[0..<length reserved_nodes]" "\<lambda>ea64. ucast (hash_uint64 ea64)"
        "(!) reserved_nodes" "eth_addr_to_uint64 ea"]
    by (simp add: eth_addr_is_reserved_def reserved_in_bucket_iff reserved_addrs_fold Let_def)
  also have "\<dots> \<longleftrightarrow> eth_addr_to_uint64 ea \<in> set reserved_nodes"
    by (metis list.set_map map_nth)
  also have "\<dots> \<longleftrightarrow> ea \<in> eth_addr_from_uint64 ` set reserved_nodes"
    using eth_addr_uint64_roundtrip [OF assms] eth_addr_uint64_take reserved_nodes_48
    by (metis (no_types, lifting) image_iff)
  finally show ?thesis .
qed

theorem eth_addr_is_reserved_exact_witness:
  "eth_addr_is_reserved [0x01, 0x80, 0xc2, 0, 0, 0x0e] \<and> \<not> eth_addr_is_reserved [0x01, 0x80, 0xc2, 0, 0, 0x10]"
  using eth_addr_is_reserved_exact [of "[0x01, 0x80, 0xc2, 0, 0, 0x0e]"]
    eth_addr_is_reserved_exact [of "[0x01, 0x80, 0xc2, 0, 0, 0x10]"]
  by (simp add: reserved_nodes_def eth_addr_from_uint64_def)

end
