(* ===== verification/Flow.thy ===== *)
theory Flow
  imports Packets
begin

text \<open>
  The fields of \<open>struct flow\<close> that the bridge code looks at, the wildcard masks kept beside a flow, and the
  hash over them, from \<open>lib/flow.h\<close>, \<open>lib/flow.c\<close> and \<open>lib/jhash.c\<close>.  Fields in network byte order are given
  by their values; where their bytes in memory matter they are written out.  A mask over a field that is
  only ever set as a whole is a \<open>bool\<close>.
\<close>

section \<open>Definitions\<close>

definition ETH_TYPE_IP :: u16 where "ETH_TYPE_IP = 0x0800"

definition ETH_TYPE_ARP :: u16 where "ETH_TYPE_ARP = 0x0806"

definition ETH_TYPE_VLAN :: u16 where "ETH_TYPE_VLAN = 0x8100"

definition ETH_TYPE_IPV6 :: u16 where "ETH_TYPE_IPV6 = 0x86dd"

definition VLAN_VID_MASK :: u16 where "VLAN_VID_MASK = 0x0fff"

definition VLAN_PCP_MASK :: u16 where "VLAN_PCP_MASK = 0xe000"

definition VLAN_CFI :: u16 where "VLAN_CFI = 0x1000"

definition IPPROTO_ICMP :: u8 where "IPPROTO_ICMP = 1"

definition IPPROTO_TCP :: u8 where "IPPROTO_TCP = 6"

definition IPPROTO_SCTP :: u8 where "IPPROTO_SCTP = 132"

record flow =
  fl_in_port :: u16
  fl_dl_dst :: eth_addr
  fl_dl_src :: eth_addr
  fl_dl_type :: u16
  fl_vlan_tci :: u16
  fl_ipv6_src :: "u8 list"
  fl_ipv6_dst :: "u8 list"
  fl_nw_src :: u32
  fl_nw_dst :: u32
  fl_nw_proto :: u8
  fl_tp_src :: u16
  fl_tp_dst :: u16

record flow_wildcards =
  wc_in_port :: bool
  wc_dl_type :: bool
  wc_dl_dst :: bool
  wc_dl_src :: bool
  wc_vlan_tci :: u16
  wc_ipv6_src :: bool
  wc_ipv6_dst :: bool
  wc_nw_src :: bool
  wc_nw_dst :: bool
  wc_nw_proto :: bool
  wc_tp_src :: u16
  wc_tp_dst :: u16

definition flow_wildcards_init_catchall :: flow_wildcards where
  "flow_wildcards_init_catchall = \<lparr> wc_in_port = False, wc_dl_type = False, wc_dl_dst = False, wc_dl_src = False,
    wc_vlan_tci = 0, wc_ipv6_src = False, wc_ipv6_dst = False, wc_nw_src = False, wc_nw_dst = False, wc_nw_proto = False, wc_tp_src = 0, wc_tp_dst = 0 \<rparr>"

definition vlan_tci_to_vid :: "u16 \<Rightarrow> u16" where
  "vlan_tci_to_vid vlan_tci = vlan_tci AND VLAN_VID_MASK"

definition is_ip_any :: "flow \<Rightarrow> bool" where
  "is_ip_any flow \<longleftrightarrow> fl_dl_type flow = ETH_TYPE_IP \<or> fl_dl_type flow = ETH_TYPE_IPV6"

definition flow_unwildcard_tp_ports :: "flow \<Rightarrow> flow_wildcards \<Rightarrow> flow_wildcards" where
  "flow_unwildcard_tp_ports flow wc =
    (if fl_nw_proto flow \<noteq> IPPROTO_ICMP then wc\<lparr> wc_tp_src := 0xffff, wc_tp_dst := 0xffff \<rparr>
     else wc\<lparr> wc_tp_src := 0xff, wc_tp_dst := 0xff \<rparr>)"

datatype nx_hash_fields = NX_HASH_FIELDS_ETH_SRC | NX_HASH_FIELDS_SYMMETRIC_L4

fun flow_mask_hash_fields :: "flow \<Rightarrow> nx_hash_fields \<Rightarrow> flow_wildcards \<Rightarrow> flow_wildcards" where
  "flow_mask_hash_fields flow NX_HASH_FIELDS_ETH_SRC wc = wc\<lparr> wc_dl_src := True \<rparr>"
| "flow_mask_hash_fields flow NX_HASH_FIELDS_SYMMETRIC_L4 wc =
    (let wc = wc\<lparr> wc_dl_src := True, wc_dl_dst := True \<rparr>;
         wc = (if fl_dl_type flow = ETH_TYPE_IP then wc\<lparr> wc_nw_src := True, wc_nw_dst := True \<rparr>
               else if fl_dl_type flow = ETH_TYPE_IPV6 then wc\<lparr> wc_ipv6_src := True, wc_ipv6_dst := True \<rparr>
               else wc);
         wc = (if is_ip_any flow then flow_unwildcard_tp_ports flow (wc\<lparr> wc_nw_proto := True \<rparr>) else wc)
     in wc\<lparr> wc_vlan_tci := wc_vlan_tci wc OR (VLAN_VID_MASK OR VLAN_CFI) \<rparr>)"

text \<open>The Jenkins hash of \<open>lib/jhash.c\<close>.\<close>

definition jhash_rot :: "u32 \<Rightarrow> nat \<Rightarrow> u32" where
  "jhash_rot x k = push_bit k x OR drop_bit (32 - k) x"

definition jhash_mix :: "u32 \<times> u32 \<times> u32 \<Rightarrow> u32 \<times> u32 \<times> u32" where
  "jhash_mix = (\<lambda>(a, b, c).
    let a = a - c; a = a XOR jhash_rot c 4; c = c + b;
        b = b - a; b = b XOR jhash_rot a 6; a = a + c;
        c = c - b; c = c XOR jhash_rot b 8; b = b + a;
        a = a - c; a = a XOR jhash_rot c 16; c = c + b;
        b = b - a; b = b XOR jhash_rot a 19; a = a + c;
        c = c - b; c = c XOR jhash_rot b 4; b = b + a
    in (a, b, c))"

definition jhash_final :: "u32 \<times> u32 \<times> u32 \<Rightarrow> u32 \<times> u32 \<times> u32" where
  "jhash_final = (\<lambda>(a, b, c).
    let c = c XOR b; c = c - jhash_rot b 14;
        a = a XOR c; a = a - jhash_rot c 11;
        b = b XOR a; b = b - jhash_rot a 25;
        c = c XOR b; c = c - jhash_rot b 16;
        a = a XOR c; a = a - jhash_rot c 4;
        b = b XOR a; b = b - jhash_rot a 14;
        c = c XOR b; c = c - jhash_rot b 24
    in (a, b, c))"

text \<open>The words at a position, bytes beyond the end being 0: the loop reads whole words, the rest is copied to \<open>tmp\<close>.\<close>

definition jhash_word :: "u8 list \<Rightarrow> nat \<Rightarrow> u32" where
  "jhash_word p i = get_unaligned_u32 (take 4 (drop (4 * i) p))"

definition jhash_add :: "u8 list \<Rightarrow> u32 \<times> u32 \<times> u32 \<Rightarrow> u32 \<times> u32 \<times> u32" where
  "jhash_add p = (\<lambda>(a, b, c). (a + jhash_word p 0, b + jhash_word p 1, c + jhash_word p 2))"

function jhash_bytes_loop :: "u8 list \<Rightarrow> u32 \<times> u32 \<times> u32 \<Rightarrow> u32" where
  "jhash_bytes_loop p abc =
    (if length p \<ge> 12 then jhash_bytes_loop (drop 12 p) (jhash_mix (jhash_add p abc))
     else if p \<noteq> [] then snd (snd (jhash_final (jhash_add p abc)))
     else snd (snd abc))"
  by pat_completeness auto
termination by (relation "measure (\<lambda>(p, abc). length p)") auto

declare jhash_bytes_loop.simps [simp del]

definition jhash_bytes :: "u8 list \<Rightarrow> u32 \<Rightarrow> u32" where
  "jhash_bytes p basis = (let a = 0xdeadbeef + of_nat (length p) + basis in jhash_bytes_loop p (a, a, a))"

fun jhash_words_loop :: "u32 list \<Rightarrow> u32 \<times> u32 \<times> u32 \<Rightarrow> u32" where
  "jhash_words_loop (x # y # z # w # p) (a, b, c) = jhash_words_loop (w # p) (jhash_mix (a + x, b + y, c + z))"
| "jhash_words_loop [x, y, z] (a, b, c) = snd (snd (jhash_final (a + x, b + y, c + z)))"
| "jhash_words_loop [x, y] (a, b, c) = snd (snd (jhash_final (a + x, b + y, c)))"
| "jhash_words_loop [x] (a, b, c) = snd (snd (jhash_final (a + x, b, c)))"
| "jhash_words_loop [] (a, b, c) = c"

definition jhash_words :: "u32 list \<Rightarrow> u32 \<Rightarrow> u32" where
  "jhash_words p basis = (let a = 0xdeadbeef + push_bit 2 (of_nat (length p)) + basis in jhash_words_loop p (a, a, a))"

text \<open>
  The bytes of the struct \<open>fields\<close>: a union of an IPv4 and an IPv6 address, three 16-bit fields, the Ethernet
  addresses, the protocol and the padding to a multiple of four bytes, cleared at first.
\<close>

definition symmetric_l4_fields :: "flow \<Rightarrow> u8 list" where
  "symmetric_l4_fields flow =
    (let ip = (if fl_dl_type flow = ETH_TYPE_IP then to_be 4 (fl_nw_src flow XOR fl_nw_dst flow) @ replicate 12 0
               else if fl_dl_type flow = ETH_TYPE_IPV6 then map2 (XOR) (fl_ipv6_src flow) (fl_ipv6_dst flow)
               else replicate 16 0);
         ip_proto = (if fl_dl_type flow = ETH_TYPE_IP \<or> fl_dl_type flow = ETH_TYPE_IPV6 then fl_nw_proto flow else 0);
         tp_port = (if (fl_dl_type flow = ETH_TYPE_IP \<or> fl_dl_type flow = ETH_TYPE_IPV6) \<and>
                       (ip_proto = IPPROTO_TCP \<or> ip_proto = IPPROTO_SCTP) then fl_tp_src flow XOR fl_tp_dst flow else 0)
     in ip @ to_be 2 (fl_dl_type flow) @ to_be 2 (fl_vlan_tci flow AND VLAN_VID_MASK) @ to_be 2 tp_port @
        map2 (XOR) (fl_dl_src flow) (fl_dl_dst flow) @ [ip_proto] @ replicate 3 0)"

definition flow_hash_symmetric_l4 :: "flow \<Rightarrow> u32 \<Rightarrow> u32" where
  "flow_hash_symmetric_l4 flow basis = jhash_bytes (symmetric_l4_fields flow) basis"

fun flow_hash_fields :: "flow \<Rightarrow> nx_hash_fields \<Rightarrow> u16 \<Rightarrow> u32" where
  "flow_hash_fields flow NX_HASH_FIELDS_ETH_SRC basis = jhash_bytes (fl_dl_src flow) (ucast basis)"
| "flow_hash_fields flow NX_HASH_FIELDS_SYMMETRIC_L4 basis = flow_hash_symmetric_l4 flow (ucast basis)"

section \<open>Wildcards\<close>

text \<open>
  Two flows that a datapath flow with the given masks cannot tell apart.
\<close>

definition wc_agree :: "flow_wildcards \<Rightarrow> flow \<Rightarrow> flow \<Rightarrow> bool" where
  "wc_agree wc f g \<longleftrightarrow>
    (wc_in_port wc \<longrightarrow> fl_in_port f = fl_in_port g) \<and> (wc_dl_type wc \<longrightarrow> fl_dl_type f = fl_dl_type g) \<and>
    (wc_dl_dst wc \<longrightarrow> fl_dl_dst f = fl_dl_dst g) \<and> (wc_dl_src wc \<longrightarrow> fl_dl_src f = fl_dl_src g) \<and>
    (fl_vlan_tci f AND wc_vlan_tci wc) = (fl_vlan_tci g AND wc_vlan_tci wc) \<and>
    (wc_ipv6_src wc \<longrightarrow> fl_ipv6_src f = fl_ipv6_src g) \<and> (wc_ipv6_dst wc \<longrightarrow> fl_ipv6_dst f = fl_ipv6_dst g) \<and>
    (wc_nw_src wc \<longrightarrow> fl_nw_src f = fl_nw_src g) \<and> (wc_nw_dst wc \<longrightarrow> fl_nw_dst f = fl_nw_dst g) \<and>
    (wc_nw_proto wc \<longrightarrow> fl_nw_proto f = fl_nw_proto g) \<and>
    (fl_tp_src f AND wc_tp_src wc) = (fl_tp_src g AND wc_tp_src wc) \<and>
    (fl_tp_dst f AND wc_tp_dst wc) = (fl_tp_dst g AND wc_tp_dst wc)"

text \<open>The flow of the packets in the other direction.\<close>

definition flow_reverse :: "flow \<Rightarrow> flow" where
  "flow_reverse f = f\<lparr> fl_dl_src := fl_dl_dst f, fl_dl_dst := fl_dl_src f, fl_nw_src := fl_nw_dst f, fl_nw_dst := fl_nw_src f,
    fl_ipv6_src := fl_ipv6_dst f, fl_ipv6_dst := fl_ipv6_src f, fl_tp_src := fl_tp_dst f, fl_tp_dst := fl_tp_src f \<rparr>"

lemma map2_xor_commute: "map2 (XOR) xs ys = map2 (XOR) ys (xs :: 'a::semiring_bit_operations list)"
  by (induction xs ys rule: list_induct2') (simp_all add: xor.commute)

lemma symmetric_l4_fields_reverse: "symmetric_l4_fields (flow_reverse f) = symmetric_l4_fields f"
  by (simp add: symmetric_l4_fields_def flow_reverse_def xor.commute map2_xor_commute Let_def)

lemma and_mask_mono: "m AND n = n \<Longrightarrow> x AND m = y AND m \<Longrightarrow> x AND n = y AND (n :: 'a::semiring_bit_operations)"
  by (metis and.assoc and.commute)

lemma and_all_ones16: "x AND 0xffff = (x :: u16)"
proof -
  have "(0xffff :: u16) = - 1" by simp
  then show ?thesis by (simp only: and.right_neutral)
qed

lemma symmetric_l4_fields_masked:
  assumes "wc_agree (flow_mask_hash_fields f NX_HASH_FIELDS_SYMMETRIC_L4 wc) f g" "wc_dl_type wc"
  shows "symmetric_l4_fields f = symmetric_l4_fields g"
    and "symmetric_l4_fields (f\<lparr> fl_vlan_tci := v \<rparr>) = symmetric_l4_fields (g\<lparr> fl_vlan_tci := v \<rparr>)"
    and "flow_mask_hash_fields g NX_HASH_FIELDS_SYMMETRIC_L4 wc' = flow_mask_hash_fields f NX_HASH_FIELDS_SYMMETRIC_L4 wc'"
proof -
  have eq: "fl_dl_type g = fl_dl_type f" "fl_dl_src g = fl_dl_src f" "fl_dl_dst g = fl_dl_dst f"
    using assms by (simp_all add: wc_agree_def flow_unwildcard_tp_ports_def Let_def split: if_splits)
  have ip: "fl_nw_src g = fl_nw_src f" "fl_nw_dst g = fl_nw_dst f" if "fl_dl_type f = ETH_TYPE_IP"
    using assms that by (simp_all add: wc_agree_def flow_unwildcard_tp_ports_def Let_def is_ip_any_def split: if_splits)
  have ip6: "fl_ipv6_src g = fl_ipv6_src f" "fl_ipv6_dst g = fl_ipv6_dst f" if "fl_dl_type f = ETH_TYPE_IPV6"
    using assms that
    by (simp_all add: wc_agree_def flow_unwildcard_tp_ports_def Let_def is_ip_any_def ETH_TYPE_IPV6_def ETH_TYPE_IP_def split: if_splits)
  have proto: "fl_nw_proto g = fl_nw_proto f" if "is_ip_any f"
    using assms that by (simp add: wc_agree_def flow_unwildcard_tp_ports_def Let_def split: if_splits)
  have tp: "fl_tp_src g = fl_tp_src f \<and> fl_tp_dst g = fl_tp_dst f" if "is_ip_any f" "fl_nw_proto f \<noteq> IPPROTO_ICMP"
    using assms that
    by (simp add: wc_agree_def flow_unwildcard_tp_ports_def Let_def and_all_ones16 split: if_splits)
  have vlan: "fl_vlan_tci g AND VLAN_VID_MASK = fl_vlan_tci f AND VLAN_VID_MASK"
  proof -
    have "fl_vlan_tci f AND (wc_vlan_tci wc OR (VLAN_VID_MASK OR VLAN_CFI)) = fl_vlan_tci g AND (wc_vlan_tci wc OR (VLAN_VID_MASK OR VLAN_CFI))"
      using assms by (simp add: wc_agree_def flow_unwildcard_tp_ports_def Let_def split: if_splits)
    moreover have "(wc_vlan_tci wc OR (VLAN_VID_MASK OR VLAN_CFI)) AND VLAN_VID_MASK = VLAN_VID_MASK"
      by (rule bit_eqI) (auto simp: bit_and_iff bit_or_iff)
    ultimately show ?thesis using and_mask_mono by metis
  qed
  have "fl_nw_proto f \<noteq> IPPROTO_ICMP" if "fl_nw_proto f = IPPROTO_TCP \<or> fl_nw_proto f = IPPROTO_SCTP"
    using that by (auto simp: IPPROTO_ICMP_def IPPROTO_TCP_def IPPROTO_SCTP_def)
  note facts = this eq ip ip6 proto tp vlan
  show "symmetric_l4_fields f = symmetric_l4_fields g"
    by (cases "fl_dl_type f = ETH_TYPE_IP"; cases "fl_dl_type f = ETH_TYPE_IPV6";
        cases "fl_nw_proto f = IPPROTO_TCP \<or> fl_nw_proto f = IPPROTO_SCTP")
      (use facts in \<open>simp_all add: symmetric_l4_fields_def is_ip_any_def Let_def\<close>)
  show "symmetric_l4_fields (f\<lparr> fl_vlan_tci := v \<rparr>) = symmetric_l4_fields (g\<lparr> fl_vlan_tci := v \<rparr>)"
    by (cases "fl_dl_type f = ETH_TYPE_IP"; cases "fl_dl_type f = ETH_TYPE_IPV6";
        cases "fl_nw_proto f = IPPROTO_TCP \<or> fl_nw_proto f = IPPROTO_SCTP")
      (use facts in \<open>simp_all add: symmetric_l4_fields_def is_ip_any_def Let_def\<close>)
  show "flow_mask_hash_fields g NX_HASH_FIELDS_SYMMETRIC_L4 wc' = flow_mask_hash_fields f NX_HASH_FIELDS_SYMMETRIC_L4 wc'"
    using eq(1) proto by (cases "is_ip_any f") (simp_all add: flow_unwildcard_tp_ports_def is_ip_any_def cong: if_cong)
qed

section \<open>Properties\<close>


text \<open>
  Without that condition the masks are not enough: two flows with different Ethernet types agree on all that
  \<open>flow_mask_hash_fields\<close> masks, and the bytes that are hashed differ.
\<close>

lemma flow_hash_type_not_masked:
  fixes f :: flow
  defines "f \<equiv> \<lparr> fl_in_port = 1, fl_dl_dst = [2, 0, 0, 0, 0, 1], fl_dl_src = [2, 0, 0, 0, 0, 2], fl_dl_type = 0x88cc,
    fl_vlan_tci = 0, fl_ipv6_src = replicate 16 0, fl_ipv6_dst = replicate 16 0, fl_nw_src = 0,
    fl_nw_dst = 0, fl_nw_proto = 0, fl_tp_src = 0, fl_tp_dst = 0 \<rparr>"
  shows "wc_agree (flow_mask_hash_fields f NX_HASH_FIELDS_SYMMETRIC_L4 flow_wildcards_init_catchall) f (f\<lparr> fl_dl_type := 0x88cd \<rparr>)"
    and "symmetric_l4_fields f \<noteq> symmetric_l4_fields (f\<lparr> fl_dl_type := 0x88cd \<rparr>)"
  unfolding f_def by code_simp+

definition sample_flow :: flow where
  "sample_flow = \<lparr> fl_in_port = 1, fl_dl_dst = [2, 0, 0, 0, 0, 1], fl_dl_src = [2, 0, 0, 0, 0, 2], fl_dl_type = 0x800,
    fl_vlan_tci = 0, fl_ipv6_src = replicate 16 0, fl_ipv6_dst = replicate 16 0, fl_nw_src = 0x0a000001,
    fl_nw_dst = 0x0a000002, fl_nw_proto = 6, fl_tp_src = 1234, fl_tp_dst = 80 \<rparr>"


end
