(* ===== verification/Bond.thy ===== *)
theory Bond
  imports Flow "HOL-Library.Monad_Syntax"
begin

text \<open>
  Bonds, from \<open>ofproto/bond.h\<close> and \<open>ofproto/bond.c\<close>: the slaves and their link status, the active slave, what
  is admitted on a slave and which slave a flow leaves on.  A slave is named by the client's handle \<open>aux\<close>,
  unique in a bond, and the map of slaves is the list of its elements in the order of iteration.  The
  carrier of a slave's network device and the time in milliseconds are arguments.  A null or dangling
  pointer that would be followed gives \<open>None\<close>.  Locks, logging, names, statistics, rebalancing and
  recirculation are left out, and so is what they keep in \<open>struct bond_entry\<close>.
\<close>

section \<open>Definitions\<close>

datatype bond_mode = BM_TCP | BM_SLB | BM_AB

datatype lacp_status = LACP_NEGOTIATED | LACP_CONFIGURED | LACP_DISABLED

datatype bond_verdict = BV_ACCEPT | BV_DROP | BV_DROP_IF_MOVED

definition BOND_MASK :: u32 where "BOND_MASK = 0xff"

definition BOND_BUCKETS :: nat where "BOND_BUCKETS = unat BOND_MASK + 1"

record bond_settings =
  bset_basis :: u32
  bset_balance :: bond_mode
  bset_rebalance_interval :: int
  bset_up_delay :: int
  bset_down_delay :: int
  bset_lacp_fallback_ab_cfg :: bool

record bond_slave =
  bs_aux :: addr
  bs_delay_expires :: int
  bs_enabled :: bool
  bs_may_enable :: bool

record bond =
  bd_slaves :: "bond_slave list"
  bd_enabled_slaves :: "addr list"
  bd_balance :: bond_mode
  bd_active_slave :: "addr option"
  bd_updelay :: int
  bd_downdelay :: int
  bd_lacp_status :: lacp_status
  bd_bond_revalidate :: bool
  bd_basis :: u32
  bd_hash :: "addr option list option"
  bd_rebalance_interval :: int
  bd_send_learning_packets :: bool
  bd_lacp_fallback_ab :: bool

definition bond_slave_lookup :: "addr \<Rightarrow> bond \<Rightarrow> bond_slave option" where
  "bond_slave_lookup aux bond = find (\<lambda>slave. bs_aux slave = aux) (bd_slaves bond)"

text \<open>A write to the slave with a handle.\<close>

definition update_slave :: "addr \<Rightarrow> (bond_slave \<Rightarrow> bond_slave) \<Rightarrow> bond \<Rightarrow> bond" where
  "update_slave a f bond = bond\<lparr> bd_slaves := map (\<lambda>s. if bs_aux s = a then f s else s) (bd_slaves bond) \<rparr>"

definition bond_enable_slave :: "bond_slave \<Rightarrow> bool \<Rightarrow> bond \<Rightarrow> bond" where
  "bond_enable_slave slave enable bond =
    (let a = bs_aux slave;
         bond = update_slave a (\<lambda>s. s\<lparr> bs_delay_expires := LLONG_MAX \<rparr>) bond
     in if enable \<noteq> bs_enabled slave
        then let bond = update_slave a (\<lambda>s. s\<lparr> bs_enabled := enable \<rparr>) (bond\<lparr> bd_bond_revalidate := True \<rparr>)
             in bond\<lparr> bd_enabled_slaves := (if enable then bd_enabled_slaves bond @ [a] else remove1 a (bd_enabled_slaves bond)) \<rparr>
        else bond)"

definition bond_link_status_update :: "int \<Rightarrow> (addr \<Rightarrow> bool) \<Rightarrow> bond_slave \<Rightarrow> bond \<Rightarrow> bond" where
  "bond_link_status_update now carrier slave bond =
    (let up = (carrier (bs_aux slave) \<and> bs_may_enable slave);
         delay_expires =
           (if (up = bs_enabled slave) \<noteq> (bs_delay_expires slave = LLONG_MAX)
            then if up = bs_enabled slave then LLONG_MAX
                 else let delay = (if bd_lacp_status bond \<noteq> LACP_DISABLED then 0 else if up then bd_updelay bond else bd_downdelay bond)
                      in now + delay
            else bs_delay_expires slave);
         bond = update_slave (bs_aux slave) (\<lambda>s. s\<lparr> bs_delay_expires := delay_expires \<rparr>) bond
     in if now \<ge> delay_expires then bond_enable_slave (slave\<lparr> bs_delay_expires := delay_expires \<rparr>) up bond else bond)"

text \<open>\<open>bond_choose_slave\<close>: an enabled slave, or else the one that will be enabled first.\<close>

fun bond_best_slave :: "bond_slave option \<Rightarrow> bond_slave list \<Rightarrow> bond_slave option" where
  "bond_best_slave best [] = best"
| "bond_best_slave best (slave # slaves) =
    (if bs_delay_expires slave \<noteq> LLONG_MAX \<and> bs_may_enable slave \<and>
        (case best of None \<Rightarrow> True | Some b \<Rightarrow> bs_delay_expires slave < bs_delay_expires b)
     then bond_best_slave (Some slave) slaves else bond_best_slave best slaves)"

definition bond_choose_slave :: "bond \<Rightarrow> bond_slave option" where
  "bond_choose_slave bond =
    (case find bs_enabled (bd_slaves bond) of
       Some slave \<Rightarrow> Some slave
     | None \<Rightarrow> bond_best_slave None (bd_slaves bond))"

definition bond_choose_active_slave :: "bond \<Rightarrow> bond" where
  "bond_choose_active_slave bond =
    (let active_slave = bond_choose_slave bond;
         bond = bond\<lparr> bd_active_slave := map_option bs_aux active_slave \<rparr>
     in case active_slave of
          None \<Rightarrow> bond
        | Some slave \<Rightarrow>
            (if bs_enabled slave then bond else bond_enable_slave slave True bond)\<lparr> bd_send_learning_packets := True \<rparr>)"

definition bond_entry_reset :: "bond \<Rightarrow> bond" where
  "bond_entry_reset bond =
    (if bd_balance bond \<noteq> BM_AB then bond\<lparr> bd_hash := Some (replicate BOND_BUCKETS None) \<rparr>
     else bond\<lparr> bd_hash := None \<rparr>)"

definition bond_reconfigure :: "bond_settings \<Rightarrow> bond \<Rightarrow> bool \<times> bond" where
  "bond_reconfigure s bond =
    (let revalidate =
           (bd_lacp_fallback_ab bond \<noteq> bset_lacp_fallback_ab_cfg s \<or>
            bd_rebalance_interval bond \<noteq> bset_rebalance_interval s \<or>
            bd_balance bond \<noteq> bset_balance s \<or> bd_basis bond \<noteq> bset_basis s \<or> bd_bond_revalidate bond);
         bond = bond\<lparr> bd_updelay := bset_up_delay s, bd_downdelay := bset_down_delay s,
                      bd_lacp_fallback_ab := bset_lacp_fallback_ab_cfg s,
                      bd_rebalance_interval := bset_rebalance_interval s,
                      bd_balance := bset_balance s, bd_basis := bset_basis s,
                      bd_bond_revalidate := False \<rparr>
     in (revalidate,
         if bd_balance bond = BM_AB \<or> bd_hash bond = None \<or> revalidate then bond_entry_reset bond else bond))"

definition bond_create :: "bond_settings \<Rightarrow> bond" where
  "bond_create s =
    snd (bond_reconfigure s
      \<lparr> bd_slaves = [], bd_enabled_slaves = [], bd_balance = BM_TCP, bd_active_slave = None, bd_updelay = 0,
        bd_downdelay = 0, bd_lacp_status = LACP_NEGOTIATED, bd_bond_revalidate = False, bd_basis = 0, bd_hash = None,
        bd_rebalance_interval = 0, bd_send_learning_packets = False, bd_lacp_fallback_ab = False \<rparr>)"

definition bond_slave_register :: "(addr \<Rightarrow> bool) \<Rightarrow> addr \<Rightarrow> bond \<Rightarrow> bond" where
  "bond_slave_register carrier aux bond =
    (case bond_slave_lookup aux bond of
       Some slave \<Rightarrow> bond
     | None \<Rightarrow>
         let slave = \<lparr> bs_aux = aux, bs_delay_expires = LLONG_MAX, bs_enabled = False, bs_may_enable = False \<rparr>
         in bond_enable_slave slave (carrier aux)
              (bond\<lparr> bd_slaves := bd_slaves bond @ [slave], bd_bond_revalidate := True \<rparr>))"

definition bond_slave_unregister :: "addr \<Rightarrow> bond \<Rightarrow> bond" where
  "bond_slave_unregister aux bond =
    (case bond_slave_lookup aux bond of
       None \<Rightarrow> bond
     | Some slave \<Rightarrow>
         let bond = bond_enable_slave slave False (bond\<lparr> bd_bond_revalidate := True \<rparr>);
             del_active = (bd_active_slave bond = Some aux);
             bond = bond\<lparr> bd_hash := map_option (map (\<lambda>e. if e = Some aux then None else e)) (bd_hash bond),
                          bd_slaves := filter (\<lambda>s. bs_aux s \<noteq> aux) (bd_slaves bond) \<rparr>
         in if del_active then (bond_choose_active_slave bond)\<lparr> bd_send_learning_packets := True \<rparr> else bond)"

definition bond_slave_set_may_enable :: "addr \<Rightarrow> bool \<Rightarrow> bond \<Rightarrow> bond option" where
  "bond_slave_set_may_enable aux may_enable bond =
    (case bond_slave_lookup aux bond of
       None \<Rightarrow> None
     | Some slave \<Rightarrow> Some (update_slave aux (\<lambda>s. s\<lparr> bs_may_enable := may_enable \<rparr>) bond))"

text \<open>The loop of \<open>bond_run\<close> over the slaves; each is read when its turn comes.\<close>

fun bond_update_links :: "int \<Rightarrow> (addr \<Rightarrow> bool) \<Rightarrow> addr list \<Rightarrow> bond \<Rightarrow> bond" where
  "bond_update_links now carrier [] bond = bond"
| "bond_update_links now carrier (a # as) bond =
    bond_update_links now carrier as
      (case bond_slave_lookup a bond of
         None \<Rightarrow> bond
       | Some slave \<Rightarrow> bond_link_status_update now carrier slave bond)"

definition bond_run :: "int \<Rightarrow> (addr \<Rightarrow> bool) \<Rightarrow> lacp_status \<Rightarrow> bond \<Rightarrow> bool \<times> bond" where
  "bond_run now carrier lacp_status bond =
    (let bond = (if bd_lacp_status bond \<noteq> lacp_status
                 then bond\<lparr> bd_lacp_status := lacp_status, bd_bond_revalidate := True \<rparr> else bond);
         bond = bond_update_links now carrier (map bs_aux (bd_slaves bond)) bond;
         bond = (case Option.bind (bd_active_slave bond) (\<lambda>a. bond_slave_lookup a bond) of
                   None \<Rightarrow> bond_choose_active_slave bond
                 | Some slave \<Rightarrow> if \<not> bs_enabled slave then bond_choose_active_slave bond else bond)
     in (bd_bond_revalidate bond, bond\<lparr> bd_bond_revalidate := False \<rparr>))"

definition bond_check_admissibility :: "bond \<Rightarrow> addr \<Rightarrow> eth_addr \<Rightarrow> bond_verdict" where
  "bond_check_admissibility bond aux eth_dst =
    (case bond_slave_lookup aux bond of
       None \<Rightarrow> BV_DROP
     | Some slave \<Rightarrow>
         if bd_lacp_status bond = LACP_NEGOTIATED then if bs_enabled slave then BV_ACCEPT else BV_DROP
         else if bd_lacp_status bond = LACP_CONFIGURED \<and> \<not> bd_lacp_fallback_ab bond then BV_DROP
         else if eth_addr_is_multicast eth_dst \<and> bd_active_slave bond \<noteq> Some aux then BV_DROP
         else case bd_balance bond of
                BM_TCP \<Rightarrow>
                  if \<not> bd_lacp_fallback_ab bond then BV_DROP
                  else if bd_active_slave bond \<noteq> Some aux then BV_DROP else BV_ACCEPT
              | BM_AB \<Rightarrow> if bd_active_slave bond \<noteq> Some aux then BV_DROP else BV_ACCEPT
              | BM_SLB \<Rightarrow> BV_DROP_IF_MOVED)"

definition bond_hash_src :: "eth_addr \<Rightarrow> u16 \<Rightarrow> u32 \<Rightarrow> u32" where
  "bond_hash_src mac vlan basis = hash_mac mac vlan basis"

definition bond_hash_tcp :: "flow \<Rightarrow> u16 \<Rightarrow> u32 \<Rightarrow> u32" where
  "bond_hash_tcp flow vlan basis = flow_hash_symmetric_l4 (flow\<lparr> fl_vlan_tci := vlan \<rparr>) basis"

definition bond_hash :: "bond \<Rightarrow> flow \<Rightarrow> u16 \<Rightarrow> u32" where
  "bond_hash bond flow vlan =
    (if bd_balance bond = BM_TCP then bond_hash_tcp flow vlan (bd_basis bond)
     else bond_hash_src (fl_dl_src flow) vlan (bd_basis bond))"

definition lookup_bond_entry :: "bond \<Rightarrow> flow \<Rightarrow> u16 \<Rightarrow> nat" where
  "lookup_bond_entry bond flow vlan = unat (bond_hash bond flow vlan AND BOND_MASK)"

definition get_enabled_slave :: "bond \<Rightarrow> addr option \<times> bond" where
  "get_enabled_slave bond =
    (case bd_enabled_slaves bond of
       [] \<Rightarrow> (None, bond)
     | node # slaves \<Rightarrow> (Some node, bond\<lparr> bd_enabled_slaves := slaves @ [node] \<rparr>))"

text \<open>The entry's slave, if it is assigned and enabled; \<open>None\<close> when the pointer dangles.\<close>

definition entry_slave :: "bond \<Rightarrow> addr option \<Rightarrow> addr option option" where
  "entry_slave bond e =
    (case e of None \<Rightarrow> Some None
     | Some a \<Rightarrow> (case bond_slave_lookup a bond of None \<Rightarrow> None
                  | Some slave \<Rightarrow> Some (if bs_enabled slave then Some a else None)))"

definition choose_hashed_slave :: "bond \<Rightarrow> flow \<Rightarrow> u16 \<Rightarrow> (addr option \<times> bond) option" where
  "choose_hashed_slave bond flow vlan =
    (case bd_hash bond of
       None \<Rightarrow> None
     | Some hash \<Rightarrow>
         let i = lookup_bond_entry bond flow vlan
         in case entry_slave bond (hash ! i) of
              None \<Rightarrow> None
            | Some (Some a) \<Rightarrow> Some (Some a, bond)
            | Some None \<Rightarrow>
                let (a, bond) = get_enabled_slave bond in Some (a, bond\<lparr> bd_hash := Some (hash[i := a]) \<rparr>))"

definition choose_output_slave ::
  "bond \<Rightarrow> flow \<Rightarrow> flow_wildcards \<Rightarrow> u16 \<Rightarrow> (addr option \<times> flow_wildcards \<times> bond) option" where
  "choose_output_slave bond flow wc vlan =
    (if bd_lacp_status bond = LACP_CONFIGURED \<and> \<not> bd_lacp_fallback_ab bond then Some (None, wc, bond)
     else
       case (if bd_lacp_status bond = LACP_CONFIGURED then BM_AB else bd_balance bond) of
         BM_AB \<Rightarrow> Some (bd_active_slave bond, wc, bond)
       | BM_TCP \<Rightarrow>
           if bd_lacp_status bond \<noteq> LACP_NEGOTIATED then Some (None, wc, bond)
           else let wc = flow_mask_hash_fields flow NX_HASH_FIELDS_ETH_SRC
                           (flow_mask_hash_fields flow NX_HASH_FIELDS_SYMMETRIC_L4 wc)
                in map_option (\<lambda>(slave, bond). (slave, wc, bond)) (choose_hashed_slave bond flow vlan)
       | BM_SLB \<Rightarrow>
           let wc = flow_mask_hash_fields flow NX_HASH_FIELDS_ETH_SRC wc
           in map_option (\<lambda>(slave, bond). (slave, wc, bond)) (choose_hashed_slave bond flow vlan))"

definition bond_choose_output_slave ::
  "bond \<Rightarrow> flow \<Rightarrow> flow_wildcards \<Rightarrow> u16 \<Rightarrow> (addr option \<times> flow_wildcards \<times> bond) option" where
  "bond_choose_output_slave bond flow wc vlan = choose_output_slave bond flow wc vlan"

section \<open>The invariant\<close>

abbreviation slave_auxs :: "bond \<Rightarrow> addr set" where
  "slave_auxs bond \<equiv> bs_aux ` set (bd_slaves bond)"

abbreviation enabled_auxs :: "bond \<Rightarrow> addr set" where
  "enabled_auxs bond \<equiv> bs_aux ` {s \<in> set (bd_slaves bond). bs_enabled s}"

text \<open>
  The list of enabled slaves holds exactly those, each once; the active slave and the slaves of the hash
  entries are slaves of the bond; and there is a hash table unless the bond is active-backup.
\<close>

definition hash_ok :: "addr option list option \<Rightarrow> bond_mode \<Rightarrow> addr set \<Rightarrow> bool" where
  "hash_ok hash balance A \<longleftrightarrow>
    (case hash of
       None \<Rightarrow> balance = BM_AB
     | Some hash \<Rightarrow> length hash = BOND_BUCKETS \<and> (\<Union>e \<in> set hash. set_option e) \<subseteq> A)"

definition bond_ok :: "bond \<Rightarrow> bool" where
  "bond_ok bond \<longleftrightarrow>
    distinct (map bs_aux (bd_slaves bond)) \<and>
    distinct (bd_enabled_slaves bond) \<and> set (bd_enabled_slaves bond) = enabled_auxs bond \<and>
    set_option (bd_active_slave bond) \<subseteq> slave_auxs bond \<and>
    hash_ok (bd_hash bond) (bd_balance bond) (slave_auxs bond)"

lemma bond_slave_lookup_iff:
  assumes "distinct (map bs_aux (bd_slaves bond))"
  shows "bond_slave_lookup a bond = Some s \<longleftrightarrow> s \<in> set (bd_slaves bond) \<and> bs_aux s = a"
proof
  assume "bond_slave_lookup a bond = Some s"
  then show "s \<in> set (bd_slaves bond) \<and> bs_aux s = a"
    by (auto simp: bond_slave_lookup_def find_Some_iff in_set_conv_nth)
next
  assume s: "s \<in> set (bd_slaves bond) \<and> bs_aux s = a"
  then obtain s' where "bond_slave_lookup a bond = Some s'"
    unfolding bond_slave_lookup_def by (metis (mono_tags, lifting) find_None_iff not_Some_eq)
  moreover from this have "s' \<in> set (bd_slaves bond)" "bs_aux s' = a"
    by (auto simp: bond_slave_lookup_def find_Some_iff in_set_conv_nth)
  ultimately show "bond_slave_lookup a bond = Some s"
    using s assms by (auto simp: distinct_map dest: inj_onD)
qed

lemma bond_slave_lookup_none: "bond_slave_lookup a bond = None \<longleftrightarrow> a \<notin> slave_auxs bond"
  by (auto simp: bond_slave_lookup_def find_None_iff)

lemma lookup_aux: "bond_slave_lookup a bond = Some s \<Longrightarrow> a \<in> slave_auxs bond"
  using bond_slave_lookup_none [of a bond] by simp

lemma lookup_enabled:
  assumes "distinct (map bs_aux (bd_slaves bond))" "bond_slave_lookup a bond = Some s"
  shows "bs_enabled s \<longleftrightarrow> a \<in> enabled_auxs bond"
proof -
  have s: "s \<in> set (bd_slaves bond)" "bs_aux s = a" using bond_slave_lookup_iff [OF assms(1)] assms(2) by blast+
  have "inj_on bs_aux (set (bd_slaves bond))" using assms(1) by (simp add: distinct_map)
  then have "s' = s" if "s' \<in> set (bd_slaves bond)" "bs_aux s' = a" for s'
    using that s inj_on_eq_iff by metis
  then show ?thesis using s by blast
qed

lemma update_slave_auxs:
  assumes "\<And>s. bs_aux (f s) = bs_aux s"
  shows "map bs_aux (bd_slaves (update_slave a f bond)) = map bs_aux (bd_slaves bond)"
    and "slave_auxs (update_slave a f bond) = slave_auxs bond"
proof -
  show m: "map bs_aux (bd_slaves (update_slave a f bond)) = map bs_aux (bd_slaves bond)"
    by (simp add: update_slave_def assms)
  show "slave_auxs (update_slave a f bond) = slave_auxs bond"
    using arg_cong [OF m, of set] by simp
qed

lemma update_slave_sel [simp]:
  "bd_enabled_slaves (update_slave a f bond) = bd_enabled_slaves bond" "bd_balance (update_slave a f bond) = bd_balance bond"
  "bd_active_slave (update_slave a f bond) = bd_active_slave bond" "bd_hash (update_slave a f bond) = bd_hash bond"
  "bd_lacp_status (update_slave a f bond) = bd_lacp_status bond"
  by (simp_all add: update_slave_def)

lemma in_enabled_update:
  assumes "\<And>s. bs_aux (f s) = bs_aux s"
  shows "p \<in> enabled_auxs (update_slave a f bond) \<longleftrightarrow>
    (\<exists>s \<in> set (bd_slaves bond). bs_aux s = p \<and> (if p = a then bs_enabled (f s) else bs_enabled s))"
  using assms by (auto simp: update_slave_def image_iff Bex_def)

lemma update_slave_enabled:
  assumes "\<And>s. bs_aux (f s) = bs_aux s" "\<And>s. bs_enabled (f s) = bs_enabled s"
  shows "enabled_auxs (update_slave a f bond) = enabled_auxs bond"
  by (rule set_eqI) (auto simp: in_enabled_update [of f, OF assms(1)] assms(2))

lemma update_slave_ok:
  assumes "bond_ok bond" "\<And>s. bs_aux (f s) = bs_aux s" "\<And>s. bs_enabled (f s) = bs_enabled s"
  shows "bond_ok (update_slave a f bond)"
  using assms(1)
  unfolding bond_ok_def update_slave_auxs [of f, OF assms(2)] update_slave_enabled [of f, OF assms(2,3)] update_slave_sel .

lemma update_slave_set_enabled:
  assumes "a \<in> slave_auxs bond"
  shows "enabled_auxs (update_slave a (\<lambda>s. s\<lparr> bs_enabled := e \<rparr>) bond) =
    (if e then insert a (enabled_auxs bond) else enabled_auxs bond - {a})"
  using assms by (intro set_eqI) (auto simp: in_enabled_update)

lemma enable_slave_fields:
  assumes ok: "bond_ok bond" and slave: "bond_slave_lookup (bs_aux slave) bond = Some s" "bs_enabled slave = bs_enabled s"
  shows "slave_auxs (bond_enable_slave slave enable bond) = slave_auxs bond"
    and "map bs_aux (bd_slaves (bond_enable_slave slave enable bond)) = map bs_aux (bd_slaves bond)"
    and "enabled_auxs (bond_enable_slave slave enable bond) =
      (if enable then insert (bs_aux slave) (enabled_auxs bond) else enabled_auxs bond - {bs_aux slave})"
    and "bd_active_slave (bond_enable_slave slave enable bond) = bd_active_slave bond"
    and "bd_hash (bond_enable_slave slave enable bond) = bd_hash bond"
    and "bd_balance (bond_enable_slave slave enable bond) = bd_balance bond"
    and "bd_lacp_status (bond_enable_slave slave enable bond) = bd_lacp_status bond"
    and "bd_enabled_slaves (bond_enable_slave slave enable bond) =
      (if enable = bs_enabled s then bd_enabled_slaves bond
       else if enable then bd_enabled_slaves bond @ [bs_aux slave] else remove1 (bs_aux slave) (bd_enabled_slaves bond))"
proof -
  let ?a = "bs_aux slave"
  let ?b1 = "update_slave ?a (\<lambda>s. s\<lparr> bs_delay_expires := LLONG_MAX \<rparr>) bond"
  let ?b2 = "update_slave ?a (\<lambda>s. s\<lparr> bs_enabled := enable \<rparr>) (?b1\<lparr> bd_bond_revalidate := True \<rparr>)"
  have d: "distinct (map bs_aux (bd_slaves bond))" using ok by (simp add: bond_ok_def)
  have b1: "enabled_auxs ?b1 = enabled_auxs bond" "slave_auxs ?b1 = slave_auxs bond"
    "map bs_aux (bd_slaves ?b1) = map bs_aux (bd_slaves bond)"
    by (simp_all add: update_slave_enabled update_slave_auxs)
  have a: "?a \<in> slave_auxs bond" by (rule lookup_aux [OF slave(1)])
  have u: "bs_enabled s \<longleftrightarrow> ?a \<in> enabled_auxs bond" by (rule lookup_enabled [OF d slave(1)])
  let ?b3 = "?b2\<lparr> bd_enabled_slaves := (if enable then bd_enabled_slaves bond @ [?a] else remove1 ?a (bd_enabled_slaves bond)) \<rparr>"
  have b2: "enabled_auxs ?b2 = (if enable then insert ?a (enabled_auxs bond) else enabled_auxs bond - {?a})"
    using update_slave_set_enabled [of ?a "?b1\<lparr> bd_bond_revalidate := True \<rparr>" enable] b1(1,2) a by simp
  have m2: "map bs_aux (bd_slaves ?b2) = map bs_aux (bd_slaves bond)"
    by (subst update_slave_auxs) (simp_all add: b1(3))
  have eq: "bond_enable_slave slave enable bond = (if enable = bs_enabled s then ?b1 else ?b3)"
    using slave(2) by (simp add: bond_enable_slave_def Let_def)
  show "enabled_auxs (bond_enable_slave slave enable bond) =
      (if enable then insert ?a (enabled_auxs bond) else enabled_auxs bond - {?a})"
  proof (cases "enable = bs_enabled s")
    case True
    then have "enabled_auxs bond = (if enable then insert ?a (enabled_auxs bond) else enabled_auxs bond - {?a})"
      using u by (cases enable) (simp_all add: insert_absorb)
    then show ?thesis unfolding eq using True b1(1) by simp
  next
    case False
    then show ?thesis unfolding eq using b2 by simp
  qed
  show m: "map bs_aux (bd_slaves (bond_enable_slave slave enable bond)) = map bs_aux (bd_slaves bond)"
  proof -
    have "map bs_aux (bd_slaves ?b3) = map bs_aux (bd_slaves bond)" using m2 by simp
    with b1(3) show ?thesis unfolding eq by (split if_split) (intro conjI impI; assumption)
  qed
  show "slave_auxs (bond_enable_slave slave enable bond) = slave_auxs bond"
    using arg_cong [OF m, of set] unfolding list.set_map .
  show "bd_active_slave (bond_enable_slave slave enable bond) = bd_active_slave bond"
    "bd_hash (bond_enable_slave slave enable bond) = bd_hash bond"
    "bd_balance (bond_enable_slave slave enable bond) = bd_balance bond"
    "bd_lacp_status (bond_enable_slave slave enable bond) = bd_lacp_status bond"
    "bd_enabled_slaves (bond_enable_slave slave enable bond) =
      (if enable = bs_enabled s then bd_enabled_slaves bond
       else if enable then bd_enabled_slaves bond @ [?a] else remove1 ?a (bd_enabled_slaves bond))"
    unfolding eq by simp_all
qed

lemma enable_slave_ok:
  assumes ok: "bond_ok bond" and slave: "bond_slave_lookup (bs_aux slave) bond = Some s" "bs_enabled slave = bs_enabled s"
  shows "bond_ok (bond_enable_slave slave enable bond)"
proof -
  note f = enable_slave_fields [OF assms]
  have d: "distinct (map bs_aux (bd_slaves bond))" "distinct (bd_enabled_slaves bond)"
    and e: "set (bd_enabled_slaves bond) = enabled_auxs bond" using ok by (simp_all add: bond_ok_def)
  have u: "bs_enabled s \<longleftrightarrow> bs_aux slave \<in> enabled_auxs bond" by (rule lookup_enabled [OF d(1) slave(1)])
  have "distinct (bd_enabled_slaves (bond_enable_slave slave enable bond)) \<and>
      set (bd_enabled_slaves (bond_enable_slave slave enable bond)) = enabled_auxs (bond_enable_slave slave enable bond)"
    using d(2) e u by (auto simp: f(3,8))
  then show ?thesis
    using ok unfolding bond_ok_def f(1,2,4-6) by blast
qed

lemma lookup_update_slave:
  assumes "\<And>s. bs_aux (f s) = bs_aux s"
  shows "bond_slave_lookup p (update_slave a f bond) =
    map_option (\<lambda>s. if p = a then f s else s) (bond_slave_lookup p bond)"
proof -
  have "find (\<lambda>s. bs_aux s = p) (map (\<lambda>s. if bs_aux s = a then f s else s) ss) =
      map_option (\<lambda>s. if p = a then f s else s) (find (\<lambda>s. bs_aux s = p) ss)" for ss
    by (induction ss) (auto simp: assms)
  then show ?thesis by (simp add: bond_slave_lookup_def update_slave_def)
qed

lemma link_status_ok:
  assumes ok: "bond_ok bond" and slave: "bond_slave_lookup a bond = Some slave"
  shows "bond_ok (bond_link_status_update now carrier slave bond)"
    and "slave_auxs (bond_link_status_update now carrier slave bond) = slave_auxs bond"
    and "bd_active_slave (bond_link_status_update now carrier slave bond) = bd_active_slave bond"
    and "bd_balance (bond_link_status_update now carrier slave bond) = bd_balance bond"
    and "bd_lacp_status (bond_link_status_update now carrier slave bond) = bd_lacp_status bond"
proof -
  have a: "bs_aux slave = a" using slave by (auto simp: bond_slave_lookup_def find_Some_iff)
  obtain d where d: "bond_link_status_update now carrier slave bond =
      (let b1 = update_slave a (\<lambda>s. s\<lparr> bs_delay_expires := d \<rparr>) bond
       in if now \<ge> d then bond_enable_slave (slave\<lparr> bs_delay_expires := d \<rparr>) (carrier a \<and> bs_may_enable slave) b1 else b1)"
    unfolding bond_link_status_update_def a Let_def by blast
  define b1 where "b1 = update_slave a (\<lambda>s. s\<lparr> bs_delay_expires := d \<rparr>) bond"
  have b1: "bond_ok b1" unfolding b1_def by (rule update_slave_ok [OF ok]) simp_all
  have l: "bond_slave_lookup (bs_aux (slave\<lparr> bs_delay_expires := d \<rparr>)) b1 = Some (slave\<lparr> bs_delay_expires := d \<rparr>)"
    using slave a by (simp add: b1_def lookup_update_slave)
  have s1: "slave_auxs b1 = slave_auxs bond" "bd_active_slave b1 = bd_active_slave bond" "bd_balance b1 = bd_balance bond"
    "bd_lacp_status b1 = bd_lacp_status bond"
    by (simp_all add: b1_def update_slave_auxs)
  note f = enable_slave_fields [OF b1 l refl] and k = enable_slave_ok [OF b1 l refl]
  show "bond_ok (bond_link_status_update now carrier slave bond)"
    "slave_auxs (bond_link_status_update now carrier slave bond) = slave_auxs bond"
    "bd_active_slave (bond_link_status_update now carrier slave bond) = bd_active_slave bond"
    "bd_balance (bond_link_status_update now carrier slave bond) = bd_balance bond"
    "bd_lacp_status (bond_link_status_update now carrier slave bond) = bd_lacp_status bond"
    unfolding d b1_def [symmetric] Let_def using b1 k s1 f(1,4,6,7) by auto
qed

lemma bond_update_links_ok:
  "bond_ok bond \<Longrightarrow> bond_ok (bond_update_links now carrier as bond) \<and>
    slave_auxs (bond_update_links now carrier as bond) = slave_auxs bond \<and>
    bd_active_slave (bond_update_links now carrier as bond) = bd_active_slave bond \<and>
    bd_balance (bond_update_links now carrier as bond) = bd_balance bond \<and>
    bd_lacp_status (bond_update_links now carrier as bond) = bd_lacp_status bond"
proof (induction as arbitrary: bond)
  case (Cons a as)
  show ?case
  proof (cases "bond_slave_lookup a bond")
    case None
    then show ?thesis using Cons by simp
  next
    case (Some slave)
    note l = link_status_ok [OF Cons.prems Some, of now carrier]
    show ?thesis using Cons.IH [OF l(1)] l Some by simp
  qed
qed simp

lemma bond_best_slave_mem:
  "bond_best_slave best ss = Some s \<Longrightarrow> best = Some s \<or> s \<in> set ss \<and> bs_may_enable s \<and> bs_delay_expires s \<noteq> LLONG_MAX"
  by (induction best ss rule: bond_best_slave.induct) (auto split: if_splits)

lemma bond_best_slave_none:
  "bond_best_slave best ss = None \<longleftrightarrow> best = None \<and> (\<forall>s \<in> set ss. \<not> (bs_delay_expires s \<noteq> LLONG_MAX \<and> bs_may_enable s))"
proof (induction ss arbitrary: best)
  case (Cons s ss)
  then show ?case by (cases best) auto
qed simp

lemma bond_choose_slave_mem: "bond_choose_slave bond = Some s \<Longrightarrow> s \<in> set (bd_slaves bond)"
  by (auto simp: bond_choose_slave_def find_Some_iff in_set_conv_nth split: option.splits dest: bond_best_slave_mem)

text \<open>What the invariant does not look at.\<close>

lemma bond_ok_frame [simp]:
  "bond_ok (bd_send_learning_packets_update f bond) = bond_ok bond"
  "bond_ok (bd_bond_revalidate_update g bond) = bond_ok bond"
  "bond_ok (bd_lacp_status_update h bond) = bond_ok bond"
  by (simp_all add: bond_ok_def)

lemma bond_ok_active: "bond_ok bond \<Longrightarrow> set_option a \<subseteq> slave_auxs bond \<Longrightarrow> bond_ok (bond\<lparr> bd_active_slave := a \<rparr>)"
  by (simp add: bond_ok_def)

text \<open>The choice of the active slave: the new one is enabled, and there is none only if no slave is enabled.\<close>

lemma choose_active_slave_ok:
  assumes ok: "bond_ok bond"
  shows "bond_ok (bond_choose_active_slave bond) \<and> slave_auxs (bond_choose_active_slave bond) = slave_auxs bond \<and>
    set_option (bd_active_slave (bond_choose_active_slave bond)) \<subseteq> enabled_auxs (bond_choose_active_slave bond) \<and>
    (bd_active_slave (bond_choose_active_slave bond) = None \<longrightarrow> enabled_auxs (bond_choose_active_slave bond) = {})"
proof (cases "bond_choose_slave bond")
  case None
  then have "find bs_enabled (bd_slaves bond) = None" by (auto simp: bond_choose_slave_def split: option.splits)
  then have "enabled_auxs bond = {}" by (auto simp: find_None_iff)
  then show ?thesis using None bond_ok_active [OF ok, of None] by (simp add: bond_choose_active_slave_def)
next
  case (Some s)
  define b1 where "b1 = bond\<lparr> bd_active_slave := Some (bs_aux s) \<rparr>"
  have s: "s \<in> set (bd_slaves bond)" by (rule bond_choose_slave_mem [OF Some])
  have b1: "bond_ok b1" unfolding b1_def by (rule bond_ok_active [OF ok]) (use s in simp)
  have same: "slave_auxs b1 = slave_auxs bond" "enabled_auxs b1 = enabled_auxs bond" by (simp_all add: b1_def)
  have "distinct (map bs_aux (bd_slaves b1))" using b1 by (simp add: bond_ok_def)
  then have l: "bond_slave_lookup (bs_aux s) b1 = Some s" using s by (subst bond_slave_lookup_iff) (simp_all add: b1_def)
  note f = enable_slave_fields [OF b1 l refl, of True] and k = enable_slave_ok [OF b1 l refl, of True]
  show ?thesis
  proof (cases "bs_enabled s")
    case True
    then have "bond_choose_active_slave bond = b1\<lparr> bd_send_learning_packets := True \<rparr>"
      using Some by (simp add: bond_choose_active_slave_def b1_def)
    moreover have "bs_aux s \<in> enabled_auxs bond" using True s by blast
    ultimately show ?thesis using b1 by (simp add: b1_def)
  next
    case False
    then have "bond_choose_active_slave bond = (bond_enable_slave s True b1)\<lparr> bd_send_learning_packets := True \<rparr>"
      using Some by (simp add: bond_choose_active_slave_def b1_def)
    then show ?thesis using k f(1,3,4) same by (simp add: b1_def)
  qed
qed

section \<open>Reachable bonds\<close>

inductive bond_reachable :: "bond \<Rightarrow> bool" where
  create: "bond_reachable (bond_create s)"
| reconfigure: "bond_reachable bond \<Longrightarrow> bond_reconfigure s bond = (b, bond') \<Longrightarrow> bond_reachable bond'"
| register: "bond_reachable bond \<Longrightarrow> bond_reachable (bond_slave_register carrier aux bond)"
| unregister: "bond_reachable bond \<Longrightarrow> bond_reachable (bond_slave_unregister aux bond)"
| may_enable: "bond_reachable bond \<Longrightarrow> bond_slave_set_may_enable aux e bond = Some bond' \<Longrightarrow> bond_reachable bond'"
| run: "bond_reachable bond \<Longrightarrow> bond_run now carrier lacp bond = (b, bond') \<Longrightarrow> bond_reachable bond'"
| choose_output: "bond_reachable bond \<Longrightarrow> choose_output_slave bond flow wc vlan = Some (a, wc', bond') \<Longrightarrow> bond_reachable bond'"

lemma hash_ok_mono: "hash_ok h m A \<Longrightarrow> A \<subseteq> B \<Longrightarrow> hash_ok h m B"
  by (auto simp: hash_ok_def split: option.splits)

lemma bond_reconfigure_ok:
  assumes "distinct (map bs_aux (bd_slaves bond))" "distinct (bd_enabled_slaves bond)"
    "set (bd_enabled_slaves bond) = enabled_auxs bond" "set_option (bd_active_slave bond) \<subseteq> slave_auxs bond"
    and hash: "bd_hash bond = None \<or> hash_ok (bd_hash bond) m (slave_auxs bond)"
    and r: "bond_reconfigure s bond = (b, bond')"
  shows "bond_ok bond'"
proof -
  define B where "B = bond\<lparr> bd_updelay := bset_up_delay s, bd_downdelay := bset_down_delay s,
    bd_lacp_fallback_ab := bset_lacp_fallback_ab_cfg s, bd_rebalance_interval := bset_rebalance_interval s,
    bd_balance := bset_balance s, bd_basis := bset_basis s, bd_bond_revalidate := False \<rparr>"
  have bond': "bond' = (if bd_balance B = BM_AB \<or> bd_hash B = None \<or> b then bond_entry_reset B else B)"
    using r unfolding bond_reconfigure_def Let_def B_def by (elim Pair_inject) (simp only:)
  have B: "bd_slaves B = bd_slaves bond" "bd_enabled_slaves B = bd_enabled_slaves bond" "bd_active_slave B = bd_active_slave bond"
    "bd_hash B = bd_hash bond" by (simp_all add: B_def)
  have "hash_ok (bd_hash bond') (bd_balance bond') (slave_auxs bond)"
    using hash by (auto simp: bond' bond_entry_reset_def hash_ok_def B split: option.splits)
  moreover have "bd_slaves bond' = bd_slaves bond" "bd_enabled_slaves bond' = bd_enabled_slaves bond"
    "bd_active_slave bond' = bd_active_slave bond"
    by (simp_all add: bond' bond_entry_reset_def B)
  ultimately show ?thesis using assms(1-4) by (simp add: bond_ok_def)
qed

lemma bond_register_ok:
  assumes ok: "bond_ok bond"
  shows "bond_ok (bond_slave_register carrier aux bond)"
proof (cases "bond_slave_lookup aux bond")
  case None
  let ?s = "\<lparr> bs_aux = aux, bs_delay_expires = LLONG_MAX, bs_enabled = False, bs_may_enable = False \<rparr>"
  let ?b = "bond\<lparr> bd_slaves := bd_slaves bond @ [?s], bd_bond_revalidate := True \<rparr>"
  have new: "aux \<notin> slave_auxs bond" using None bond_slave_lookup_none by blast
  have e: "enabled_auxs ?b = enabled_auxs bond" and a: "slave_auxs ?b = insert aux (slave_auxs bond)" by auto
  have "bond_ok ?b"
    using ok new hash_ok_mono [of "bd_hash bond" "bd_balance bond" "slave_auxs bond" "insert aux (slave_auxs bond)"]
    unfolding bond_ok_def e a by auto
  moreover have "distinct (map bs_aux (bd_slaves ?b))" using ok new by (auto simp: bond_ok_def)
  then have "bond_slave_lookup (bs_aux ?s) ?b = Some ?s" by (subst bond_slave_lookup_iff) simp_all
  ultimately show ?thesis
    using None enable_slave_ok [of ?b ?s ?s] by (simp add: bond_slave_register_def Let_def)
qed (simp add: bond_slave_register_def ok)

lemma bond_create_ok: "bond_ok (bond_create s)"
  unfolding bond_create_def
  by (rule bond_reconfigure_ok [where m = BM_AB, OF _ _ _ _ _ prod.collapse [symmetric]]) simp_all

lemma bond_run_ok:
  assumes ok: "bond_ok bond" and run: "bond_run now carrier lacp bond = (b, bond')"
  shows "bond_ok bond' \<and> slave_auxs bond' = slave_auxs bond \<and>
    set_option (bd_active_slave bond') \<subseteq> enabled_auxs bond' \<and>
    (bd_active_slave bond' = None \<longrightarrow> enabled_auxs bond' = {})"
proof -
  define b1 where "b1 = (if bd_lacp_status bond \<noteq> lacp
    then bond\<lparr> bd_lacp_status := lacp, bd_bond_revalidate := True \<rparr> else bond)"
  define b2 where "b2 = bond_update_links now carrier (map bs_aux (bd_slaves b1)) b1"
  define b3 where "b3 = (case Option.bind (bd_active_slave b2) (\<lambda>a. bond_slave_lookup a b2) of
    None \<Rightarrow> bond_choose_active_slave b2 | Some slave \<Rightarrow> if \<not> bs_enabled slave then bond_choose_active_slave b2 else b2)"
  have bond': "bond' = b3\<lparr> bd_bond_revalidate := False \<rparr>"
    using run unfolding bond_run_def Let_def b1_def [symmetric] b2_def [symmetric] b3_def [symmetric] by simp
  have b1: "bond_ok b1" "slave_auxs b1 = slave_auxs bond" using ok by (simp_all add: b1_def)
  have b2: "bond_ok b2" "slave_auxs b2 = slave_auxs bond"
    using bond_update_links_ok [OF b1(1), of now carrier "map bs_aux (bd_slaves b1)"] b1(2) by (simp_all add: b2_def)
  have "bond_ok b3 \<and> slave_auxs b3 = slave_auxs bond \<and> set_option (bd_active_slave b3) \<subseteq> enabled_auxs b3 \<and>
      (bd_active_slave b3 = None \<longrightarrow> enabled_auxs b3 = {})"
  proof (cases "b3 = b2 \<and> b3 \<noteq> bond_choose_active_slave b2")
    case True
    then obtain a slave where a: "bd_active_slave b2 = Some a" "bond_slave_lookup a b2 = Some slave" "bs_enabled slave"
      unfolding b3_def by (auto split: option.splits if_splits bind_splits)
    have "distinct (map bs_aux (bd_slaves b2))" using b2(1) by (simp add: bond_ok_def)
    then have "a \<in> enabled_auxs b2" using lookup_enabled a by blast
    then show ?thesis using True b2 a(1) by auto
  next
    case False
    then have "b3 = bond_choose_active_slave b2" unfolding b3_def by (auto split: option.splits if_splits)
    then show ?thesis using choose_active_slave_ok [OF b2(1)] b2(2) by simp
  qed
  then show ?thesis by (simp add: bond')
qed

lemma bond_run_frame:
  assumes ok: "bond_ok bond" and run: "bond_run now carrier lacp bond = (b, bond')"
  shows "bd_balance bond' = bd_balance bond" "bd_lacp_status bond' = lacp"
proof -
  have enable: "bd_balance (bond_enable_slave s e x) = bd_balance x" "bd_lacp_status (bond_enable_slave s e x) = bd_lacp_status x"
    for s e x by (simp_all add: bond_enable_slave_def Let_def)
  have choose: "bd_balance (bond_choose_active_slave x) = bd_balance x" "bd_lacp_status (bond_choose_active_slave x) = bd_lacp_status x"
    for x by (simp_all add: bond_choose_active_slave_def Let_def enable split: option.split)
  define b1 where "b1 = (if bd_lacp_status bond \<noteq> lacp
    then bond\<lparr> bd_lacp_status := lacp, bd_bond_revalidate := True \<rparr> else bond)"
  have "bond_ok b1" "bd_balance b1 = bd_balance bond" "bd_lacp_status b1 = lacp" using ok by (simp_all add: b1_def)
  then have "bd_balance (bond_update_links now carrier (map bs_aux (bd_slaves b1)) b1) = bd_balance bond"
    "bd_lacp_status (bond_update_links now carrier (map bs_aux (bd_slaves b1)) b1) = lacp"
    using bond_update_links_ok [of b1 now carrier "map bs_aux (bd_slaves b1)"] by simp_all
  then show "bd_balance bond' = bd_balance bond" "bd_lacp_status bond' = lacp"
    using run unfolding bond_run_def Let_def b1_def [symmetric] by (auto simp: choose split: option.splits)
qed

lemma choose_active_forgets: "bond_choose_active_slave (bond\<lparr> bd_active_slave := a \<rparr>) = bond_choose_active_slave bond"
proof -
  have "bond_choose_slave (bond\<lparr> bd_active_slave := a \<rparr>) = bond_choose_slave bond"
    by (simp add: bond_choose_slave_def split: option.split)
  then show ?thesis by (simp add: bond_choose_active_slave_def)
qed

lemma bond_unregister_ok:
  assumes ok: "bond_ok bond"
  shows "bond_ok (bond_slave_unregister aux bond)"
proof (cases "bond_slave_lookup aux bond")
  case (Some slave)
  define b0 where "b0 = bond\<lparr> bd_bond_revalidate := True \<rparr>"
  define b1 where "b1 = bond_enable_slave slave False b0"
  define b2 where "b2 = b1\<lparr> bd_hash := map_option (map (\<lambda>e. if e = Some aux then None else e)) (bd_hash b1),
    bd_slaves := filter (\<lambda>s. bs_aux s \<noteq> aux) (bd_slaves b1) \<rparr>"
  have a: "bs_aux slave = aux" using Some by (auto simp: bond_slave_lookup_def find_Some_iff)
  have b0: "bond_ok b0" "bond_slave_lookup (bs_aux slave) b0 = Some slave"
    using ok Some a by (simp_all add: b0_def bond_slave_lookup_def)
  have b1: "bond_ok b1" unfolding b1_def by (rule enable_slave_ok [OF b0 refl])
  have e1: "enabled_auxs b1 = enabled_auxs b0 - {aux}" using enable_slave_fields(3) [OF b0 refl, of False] a by (simp add: b1_def)
  have eq: "bond_slave_unregister aux bond =
      (if bd_active_slave b1 = Some aux then (bond_choose_active_slave b2)\<lparr> bd_send_learning_packets := True \<rparr> else b2)"
    using Some by (simp add: bond_slave_unregister_def Let_def b2_def b1_def b0_def)
  have s2: "slave_auxs b2 = slave_auxs b1 - {aux}" "enabled_auxs b2 = enabled_auxs b1" using e1 by (auto simp: b2_def)
  have "hash_ok (bd_hash b2) (bd_balance b2) (slave_auxs b2)"
    using b1 unfolding bond_ok_def s2(1) by (auto simp: b2_def hash_ok_def split: option.splits if_splits)
  moreover have "distinct (map bs_aux (bd_slaves b2))" using b1 by (simp add: b2_def bond_ok_def distinct_map_filter)
  moreover have "bd_enabled_slaves b2 = bd_enabled_slaves b1" "bd_active_slave b2 = bd_active_slave b1" by (simp_all add: b2_def)
  ultimately have ok2: "bond_ok (b2\<lparr> bd_active_slave := x \<rparr>)" if "set_option x \<subseteq> slave_auxs b2" for x
    using b1 that s2(2) by (simp add: bond_ok_def)
  show ?thesis
  proof (cases "bd_active_slave b1 = Some aux")
    case True
    have "bond_ok (bond_choose_active_slave (b2\<lparr> bd_active_slave := None \<rparr>))"
      using choose_active_slave_ok [OF ok2] by simp
    then show ?thesis using True by (simp add: eq choose_active_forgets)
  next
    case False
    have "set_option (bd_active_slave b1) \<subseteq> slave_auxs b2" using b1 False unfolding s2(1) bond_ok_def by auto
    then have "bond_ok (b2\<lparr> bd_active_slave := bd_active_slave b1 \<rparr>)" by (rule ok2)
    moreover have "b2\<lparr> bd_active_slave := bd_active_slave b1 \<rparr> = b2" by (simp add: b2_def)
    ultimately show ?thesis using False eq by simp
  qed
qed (simp add: bond_slave_unregister_def ok)

lemma bond_entry_bound: "lookup_bond_entry bond flow vlan < BOND_BUCKETS"
  by (simp add: lookup_bond_entry_def BOND_BUCKETS_def less_Suc_eq_le word_and_le1 word_le_nat_alt [symmetric])

lemma choose_hashed_ok:
  assumes ok: "bond_ok bond" and "bd_balance bond \<noteq> BM_AB"
  obtains a bond' where "choose_hashed_slave bond flow vlan = Some (a, bond')" "bond_ok bond'"
    "set_option a \<subseteq> enabled_auxs bond" "a = None \<longleftrightarrow> enabled_auxs bond = {}"
    "choose_hashed_slave bond' flow vlan = Some (a, bond')"
    "bd_slaves bond' = bd_slaves bond" "bd_balance bond' = bd_balance bond" "bd_lacp_status bond' = bd_lacp_status bond"
    "bd_lacp_fallback_ab bond' = bd_lacp_fallback_ab bond"
proof -
  define i where "i = lookup_bond_entry bond flow vlan"
  obtain hash where hash: "bd_hash bond = Some hash" "length hash = BOND_BUCKETS" "(\<Union>e \<in> set hash. set_option e) \<subseteq> slave_auxs bond"
    using assms by (auto simp: bond_ok_def hash_ok_def split: option.splits)
  have i: "i < length hash" using bond_entry_bound hash(2) by (simp add: i_def)
  have d: "distinct (map bs_aux (bd_slaves bond))" using ok by (simp add: bond_ok_def)
  have e: "set_option (hash ! i) \<subseteq> slave_auxs bond" using hash(3) nth_mem [OF i] by blast
  then have "entry_slave bond (hash ! i) \<noteq> None"
    using bond_slave_lookup_none [of _ bond] by (auto simp: entry_slave_def split: option.split)
  then obtain r where r: "entry_slave bond (hash ! i) = Some r" by blast
  show ?thesis
  proof (cases r)
    case (Some a)
    then obtain slave where "bond_slave_lookup a bond = Some slave" "bs_enabled slave"
      using r by (auto simp: entry_slave_def split: option.splits if_splits)
    then have a: "a \<in> enabled_auxs bond" using lookup_enabled [OF d] by blast
    have eq: "choose_hashed_slave bond flow vlan = Some (Some a, bond)"
      using Some r hash(1) by (simp add: choose_hashed_slave_def Let_def i_def)
    have sub: "set_option (Some a) \<subseteq> enabled_auxs bond" using a by (simp only: option.set) blast
    have "enabled_auxs bond \<noteq> {}"
    proof
      assume "enabled_auxs bond = {}"
      with a show False by (simp only: empty_iff)
    qed
    then have "Some a = None \<longleftrightarrow> enabled_auxs bond = {}" by (simp only: option.distinct)
    then show ?thesis by (rule that [OF eq ok sub _ eq refl refl refl refl])
  next
    case None
    obtain a b1 where g: "get_enabled_slave bond = (a, b1)" by (metis surj_pair)
    define b2 where "b2 = b1\<lparr> bd_hash := Some (hash[i := a]) \<rparr>"
    have eq: "choose_hashed_slave bond flow vlan = Some (a, b2)"
      using None r hash(1) g by (simp add: choose_hashed_slave_def Let_def i_def b2_def)
    obtain enabled where b1: "b1 = bond\<lparr> bd_enabled_slaves := enabled \<rparr>" "set enabled = set (bd_enabled_slaves bond)" "distinct enabled"
      "set_option a \<subseteq> set (bd_enabled_slaves bond)" "a = None \<longleftrightarrow> bd_enabled_slaves bond = []"
    proof (cases "bd_enabled_slaves bond")
      case Nil
      then show ?thesis using g by (intro that [of "[]"]) (auto simp: get_enabled_slave_def)
    next
      case (Cons n ns)
      then show ?thesis
        using g ok by (intro that [of "ns @ [n]"]) (auto simp: get_enabled_slave_def bond_ok_def)
    qed
    have en: "set (bd_enabled_slaves bond) = enabled_auxs bond" using ok by (simp add: bond_ok_def)
    have "set_option a \<subseteq> slave_auxs bond" using b1(4) unfolding en by blast
    then have "(\<Union>e \<in> insert a (set hash). set_option e) \<subseteq> slave_auxs bond" using hash(3) by (simp only: UN_insert Un_subset_iff)
    then have "(\<Union>e \<in> set (hash[i := a]). set_option e) \<subseteq> slave_auxs bond"
      by (rule subset_trans [OF UN_mono [OF set_update_subset_insert subset_refl]])
    then have ok2: "bond_ok b2" using ok b1 hash(2) by (simp add: b2_def bond_ok_def hash_ok_def)
    have "lookup_bond_entry b2 flow vlan = i" by (simp add: b2_def b1(1) i_def lookup_bond_entry_def bond_hash_def)
    moreover have "choose_hashed_slave b2 flow vlan = Some (a, b2)"
    proof (cases a)
      case None
      then have "bd_enabled_slaves b2 = []" using b1 by (simp add: b2_def)
      then show ?thesis
        using None i \<open>lookup_bond_entry b2 flow vlan = i\<close>
        by (simp add: choose_hashed_slave_def entry_slave_def get_enabled_slave_def Let_def b2_def)
    next
      case (Some p)
      then have "p \<in> enabled_auxs bond" using b1(4) en by simp
      then have "p \<in> enabled_auxs b2" "p \<in> slave_auxs b2" by (auto simp: b2_def b1(1))
      then obtain slave where l: "bond_slave_lookup p b2 = Some slave" using bond_slave_lookup_none [of p b2] by fastforce
      have "distinct (map bs_aux (bd_slaves b2))" using ok2 by (simp add: bond_ok_def)
      then have "bs_enabled slave" using lookup_enabled l \<open>p \<in> enabled_auxs b2\<close> by blast
      moreover have "bd_hash b2 = Some (hash[i := Some p])" by (simp add: b2_def Some)
      ultimately show ?thesis
        using Some i l \<open>lookup_bond_entry b2 flow vlan = i\<close>
        by (simp add: choose_hashed_slave_def entry_slave_def Let_def)
    qed
    moreover have "set_option a \<subseteq> enabled_auxs bond" using b1(4) en by simp
    moreover have "a = None \<longleftrightarrow> enabled_auxs bond = {}" using b1(5) en by (metis set_empty)
    moreover have "bd_slaves b2 = bd_slaves bond" "bd_balance b2 = bd_balance bond" "bd_lacp_status b2 = bd_lacp_status bond"
      "bd_lacp_fallback_ab b2 = bd_lacp_fallback_ab bond" by (simp_all add: b2_def b1(1))
    ultimately show ?thesis by (intro that [OF eq ok2])
  qed
qed

text \<open>The balancing mode in effect: \<open>None\<close> when the state of LACP makes the bond drop everything.\<close>

definition bond_mode_in_effect :: "bond \<Rightarrow> bond_mode option" where
  "bond_mode_in_effect bond =
    (if bd_lacp_status bond = LACP_CONFIGURED then if bd_lacp_fallback_ab bond then Some BM_AB else None
     else if bd_balance bond = BM_TCP \<and> bd_lacp_status bond \<noteq> LACP_NEGOTIATED then None
     else Some (bd_balance bond))"

lemma choose_output_cases:
  "choose_output_slave bond flow wc vlan =
    (case bond_mode_in_effect bond of
       None \<Rightarrow> Some (None, wc, bond)
     | Some BM_AB \<Rightarrow> Some (bd_active_slave bond, wc, bond)
     | Some mode \<Rightarrow>
         map_option (\<lambda>(slave, bond). (slave, flow_mask_hash_fields flow NX_HASH_FIELDS_ETH_SRC
             (if mode = BM_TCP then flow_mask_hash_fields flow NX_HASH_FIELDS_SYMMETRIC_L4 wc else wc), bond))
           (choose_hashed_slave bond flow vlan))"
  by (cases "bd_balance bond"; cases "bd_lacp_status bond"; cases "bd_lacp_fallback_ab bond")
    (simp_all add: choose_output_slave_def bond_mode_in_effect_def Let_def)

lemma choose_output_ok:
  assumes ok: "bond_ok bond"
  obtains a wc' bond' where "choose_output_slave bond flow wc vlan = Some (a, wc', bond')" "bond_ok bond'"
    "set_option a \<subseteq> (if bond_mode_in_effect bond = Some BM_AB then set_option (bd_active_slave bond) else enabled_auxs bond)"
    "bond_mode_in_effect bond \<noteq> None \<and> bond_mode_in_effect bond \<noteq> Some BM_AB \<longrightarrow> (a = None \<longleftrightarrow> enabled_auxs bond = {})"
    "bond_mode_in_effect bond = Some BM_AB \<longrightarrow> a = bd_active_slave bond"
    "\<exists>wc''. choose_output_slave bond' flow wc' vlan = Some (a, wc'', bond')"
    "bd_slaves bond' = bd_slaves bond"
proof -
  consider "bond_mode_in_effect bond = None" | "bond_mode_in_effect bond = Some BM_AB"
    | mode where "bond_mode_in_effect bond = Some mode" "mode \<noteq> BM_AB" by (cases "bond_mode_in_effect bond") auto
  then show ?thesis
  proof cases
    case 1
    then show ?thesis using ok by (intro that [of None wc bond]) (simp_all add: choose_output_cases)
  next
    case 2
    then show ?thesis using ok by (intro that [of "bd_active_slave bond" wc bond]) (simp_all add: choose_output_cases)
  next
    case 3
    then have bal: "bd_balance bond \<noteq> BM_AB" by (auto simp: bond_mode_in_effect_def split: if_splits)
    obtain a bond' where
      c: "choose_hashed_slave bond flow vlan = Some (a, bond')" "bond_ok bond'" "set_option a \<subseteq> enabled_auxs bond"
        "a = None \<longleftrightarrow> enabled_auxs bond = {}" "choose_hashed_slave bond' flow vlan = Some (a, bond')"
        "bd_slaves bond' = bd_slaves bond" "bd_balance bond' = bd_balance bond" "bd_lacp_status bond' = bd_lacp_status bond"
        "bd_lacp_fallback_ab bond' = bd_lacp_fallback_ab bond" by (rule choose_hashed_ok [OF ok bal])
    have m: "bond_mode_in_effect bond' = Some mode"
      using 3(1) unfolding bond_mode_in_effect_def c(7-9) .
    let ?wc = "\<lambda>wc. flow_mask_hash_fields flow NX_HASH_FIELDS_ETH_SRC
      (if mode = BM_TCP then flow_mask_hash_fields flow NX_HASH_FIELDS_SYMMETRIC_L4 wc else wc)"
    have out: "choose_output_slave bond flow wc vlan = Some (a, ?wc wc, bond')"
      "choose_output_slave bond' flow (?wc wc) vlan = Some (a, ?wc (?wc wc), bond')"
      using c(1,5) 3 m by (cases mode; simp add: choose_output_cases)+
    have set: "set_option a \<subseteq> (if bond_mode_in_effect bond = Some BM_AB then set_option (bd_active_slave bond) else enabled_auxs bond)"
      using c(3) 3 by simp
    have "\<exists>wc''. choose_output_slave bond' flow (?wc wc) vlan = Some (a, wc'', bond')" by (rule exI, rule out(2))
    moreover have "bond_mode_in_effect bond = Some BM_AB \<longrightarrow> a = bd_active_slave bond" using 3 by simp
    moreover have "bond_mode_in_effect bond \<noteq> None \<and> bond_mode_in_effect bond \<noteq> Some BM_AB \<longrightarrow>
        (a = None \<longleftrightarrow> enabled_auxs bond = {})" by (rule impI, rule c(4))
    ultimately show ?thesis by (intro that [OF out(1) c(2) set _ _ _ c(6)])
  qed
qed

lemma bond_reachable_ok: "bond_reachable bond \<Longrightarrow> bond_ok bond"
proof (induction rule: bond_reachable.induct)
  case (reconfigure bond s b bond')
  then show ?case
    by (intro bond_reconfigure_ok [OF _ _ _ _ _ reconfigure.hyps(2), where m = "bd_balance bond"]) (simp_all add: bond_ok_def)
next
  case (may_enable bond aux e bond')
  then show ?case
    by (auto simp: bond_slave_set_may_enable_def split: option.splits intro!: update_slave_ok)
next
  case (run bond now carrier lacp b bond')
  then show ?case using bond_run_ok by blast
next
  case (choose_output bond flow wc vlan a wc' bond')
  show ?case
  proof (rule choose_output_ok [OF choose_output.IH, of flow wc vlan])
    fix a2 wc2 bond2
    assume "choose_output_slave bond flow wc vlan = Some (a2, wc2, bond2)" "bond_ok bond2"
    then show ?case using choose_output.hyps(2) by simp
  qed
qed (simp_all add: bond_create_ok bond_register_ok bond_unregister_ok)

lemma choose_hashed_cong:
  assumes "bond_hash bond f vlan = bond_hash bond g vlan"
  shows "choose_hashed_slave bond f vlan = choose_hashed_slave bond g vlan"
  unfolding choose_hashed_slave_def lookup_bond_entry_def assms ..

lemma symmetric_mask_src:
  "(flow_mask_hash_fields f NX_HASH_FIELDS_SYMMETRIC_L4 wc)\<lparr> wc_dl_src := True \<rparr> = flow_mask_hash_fields f NX_HASH_FIELDS_SYMMETRIC_L4 wc"
  by (simp add: Let_def flow_unwildcard_tp_ports_def)

lemma choose_output_masked:
  assumes "bond_choose_output_slave bond f wc vlan = Some (a, wc', bond')" "wc_agree wc' f g" "bd_balance bond = BM_TCP \<longrightarrow> wc_dl_type wc"
  shows "bond_choose_output_slave bond g wc vlan = Some (a, wc', bond')"
proof (cases "bond_mode_in_effect bond")
  case (Some mode)
  note choose = assms(1) [unfolded bond_choose_output_slave_def choose_output_cases Some option.case]
  have balance: "bd_balance bond = mode" if "mode \<noteq> BM_AB"
    using Some that by (auto simp: bond_mode_in_effect_def split: if_splits)
  show ?thesis
  proof (cases mode)
    case BM_AB
    then show ?thesis using choose unfolding bond_choose_output_slave_def choose_output_cases Some option.case by auto
  next
    case BM_SLB
    then have wc': "wc' = wc\<lparr> wc_dl_src := True \<rparr>" using choose by auto
    have "bond_hash bond g vlan = bond_hash bond f vlan"
      using balance assms(2) by (simp add: BM_SLB bond_hash_def wc' wc_agree_def)
    from choose_hashed_cong [OF this] show ?thesis
      using choose unfolding bond_choose_output_slave_def choose_output_cases Some option.case by (simp add: BM_SLB)
  next
    case BM_TCP
    then have wc': "wc' = flow_mask_hash_fields f NX_HASH_FIELDS_SYMMETRIC_L4 wc"
      using choose symmetric_mask_src [of f wc] by (auto simp del: flow_mask_hash_fields.simps(2))
    have "wc_dl_type wc" using assms(3) balance BM_TCP by simp
    note masked = symmetric_l4_fields_masked [OF assms(2) [unfolded wc'] this]
    have "bond_hash bond g vlan = bond_hash bond f vlan"
      using balance by (simp add: BM_TCP bond_hash_def bond_hash_tcp_def flow_hash_symmetric_l4_def masked(2))
    from choose_hashed_cong [OF this] show ?thesis
      using choose masked(3) [of wc] unfolding bond_choose_output_slave_def choose_output_cases Some option.case
      by (simp add: BM_TCP del: flow_mask_hash_fields.simps(2))
  qed
qed (use assms(1) in \<open>simp add: bond_choose_output_slave_def choose_output_cases\<close>)

section \<open>Properties\<close>

text \<open>
  C34.  Sending over a bond is safe and sticky.  In every bond that a client can reach, choosing the output
  slave follows no null or dangling pointer, whatever slaves were unregistered before.  A bond that balances
  by hash sends only over enabled slaves and drops a packet only when none is enabled; one that works as
  active-backup, by configuration or as the fallback for LACP, uses the active slave.  A flow keeps its
  slave: choosing again for the same flow gives the same slave and changes nothing.
\<close>

theorem bond_output_safe:
  assumes "bond_reachable bond"
  shows "\<exists>a wc' bond'. bond_choose_output_slave bond flow wc vlan = Some (a, wc', bond') \<and>
    (case bond_mode_in_effect bond of
       None \<Rightarrow> a = None
     | Some BM_AB \<Rightarrow> a = bd_active_slave bond
     | Some mode \<Rightarrow> set_option a \<subseteq> enabled_auxs bond \<and> (a = None \<longleftrightarrow> enabled_auxs bond = {})) \<and>
    set_option a \<subseteq> slave_auxs bond \<and>
    (\<exists>wc''. bond_choose_output_slave bond' flow wc' vlan = Some (a, wc'', bond'))"
proof -
  have ok: "bond_ok bond" by (rule bond_reachable_ok [OF assms])
  then have active: "set_option (bd_active_slave bond) \<subseteq> slave_auxs bond" by (simp add: bond_ok_def)
  obtain a wc' bond' where
    c: "choose_output_slave bond flow wc vlan = Some (a, wc', bond')" and "bond_ok bond'" and
    d: "set_option a \<subseteq> (if bond_mode_in_effect bond = Some BM_AB then set_option (bd_active_slave bond) else enabled_auxs bond)"
    "bond_mode_in_effect bond \<noteq> None \<and> bond_mode_in_effect bond \<noteq> Some BM_AB \<longrightarrow> (a = None \<longleftrightarrow> enabled_auxs bond = {})"
    "bond_mode_in_effect bond = Some BM_AB \<longrightarrow> a = bd_active_slave bond"
    "\<exists>wc''. choose_output_slave bond' flow wc' vlan = Some (a, wc'', bond')"
    and "bd_slaves bond' = bd_slaves bond" by (rule choose_output_ok [OF ok, where flow = flow and wc = wc and vlan = vlan])
  have slaves: "set_option a \<subseteq> slave_auxs bond" using d(1) active by (cases "bond_mode_in_effect bond = Some BM_AB") auto
  have "a = None" if "bond_mode_in_effect bond = None" using c that by (simp add: choose_output_cases)
  then have mode: "case bond_mode_in_effect bond of
       None \<Rightarrow> a = None
     | Some BM_AB \<Rightarrow> a = bd_active_slave bond
     | Some mode \<Rightarrow> set_option a \<subseteq> enabled_auxs bond \<and> (a = None \<longleftrightarrow> enabled_auxs bond = {})"
    using d(1-3) by (cases "bond_mode_in_effect bond"; cases "the (bond_mode_in_effect bond)") simp_all
  show ?thesis unfolding bond_choose_output_slave_def by (intro exI [of _ a] exI [of _ wc'] exI [of _ bond'] conjI c mode slaves d(4))
qed

definition sample_settings :: bond_settings where
  "sample_settings = \<lparr> bset_basis = 0, bset_balance = BM_SLB, bset_rebalance_interval = 10000, bset_up_delay = 0,
    bset_down_delay = 0, bset_lacp_fallback_ab_cfg = False \<rparr>"

definition sample_slb :: bond where
  "sample_slb = bond_slave_register (\<lambda>a. True) 7 (bond_create sample_settings)"

lemma sample_bond_reachable: "bond_reachable sample_slb"
  unfolding sample_slb_def by (intro bond_reachable.register bond_reachable.create)

lemma sample_bond_slaves:
  "bd_slaves sample_slb =
    [\<lparr> bs_aux = 7, bs_delay_expires = LLONG_MAX, bs_enabled = True, bs_may_enable = False \<rparr>]"
  "bond_mode_in_effect sample_slb = Some BM_SLB"
  by (simp_all add: sample_slb_def bond_slave_register_def bond_create_def bond_reconfigure_def bond_entry_reset_def bond_slave_lookup_def
      bond_enable_slave_def update_slave_def bond_mode_in_effect_def sample_settings_def Let_def)

lemma sample_bond_enabled: "enabled_auxs sample_slb = {7}"
  unfolding sample_bond_slaves(1) set_filter [symmetric] by simp

theorem bond_output_safe_witness:
  "\<exists>wc' bond'. bond_choose_output_slave sample_slb
    sample_flow flow_wildcards_init_catchall 0 = Some (Some 7, wc', bond')"
proof -
  obtain a wc' bond' where "bond_choose_output_slave sample_slb
      sample_flow flow_wildcards_init_catchall 0 = Some (a, wc', bond')" "set_option a \<subseteq> {7}" "a \<noteq> None"
    using bond_output_safe [OF sample_bond_reachable, of sample_flow flow_wildcards_init_catchall 0]
    unfolding sample_bond_enabled sample_bond_slaves(2) by auto
  moreover from this have "a = Some 7" by auto
  ultimately show ?thesis by blast
qed


definition sample_backup :: bond where
  "sample_backup = the (bond_slave_set_may_enable 7 True
    (bond_slave_register (\<lambda>a. True) 7 (bond_slave_register (\<lambda>a. False) 5
      (bond_create (sample_settings\<lparr> bset_balance := BM_AB \<rparr>)))))"

lemmas sample_backup_simps = sample_backup_def bond_slave_set_may_enable_def bond_slave_register_def bond_create_def
  bond_reconfigure_def bond_entry_reset_def bond_slave_lookup_def bond_enable_slave_def update_slave_def sample_settings_def Let_def

lemma sample_backup_reachable: "bond_reachable sample_backup"
proof -
  have "bond_slave_set_may_enable 7 True (bond_slave_register (\<lambda>a. True) 7 (bond_slave_register (\<lambda>a. False) 5
      (bond_create (sample_settings\<lparr> bset_balance := BM_AB \<rparr>)))) = Some sample_backup"
    by (simp add: sample_backup_simps)
  then show ?thesis by (intro bond_reachable.may_enable [OF bond_reachable.register [OF bond_reachable.register [OF bond_reachable.create]]])
qed



lemma sample_slb_output:
  "\<exists>wc' bond'. bond_choose_output_slave sample_slb sample_flow flow_wildcards_init_catchall 0 = Some (Some 7, wc', bond')"
proof (rule choose_output_ok [OF bond_reachable_ok [OF sample_bond_reachable], where flow = sample_flow and wc = flow_wildcards_init_catchall and vlan = 0])
  fix a wc' bond'
  assume c: "choose_output_slave sample_slb sample_flow flow_wildcards_init_catchall 0 = Some (a, wc', bond')"
    and a: "set_option a \<subseteq> (if bond_mode_in_effect sample_slb = Some BM_AB then set_option (bd_active_slave sample_slb) else enabled_auxs sample_slb)"
      "bond_mode_in_effect sample_slb \<noteq> None \<and> bond_mode_in_effect sample_slb \<noteq> Some BM_AB \<longrightarrow> (a = None \<longleftrightarrow> enabled_auxs sample_slb = {})"
  have "a = Some 7" using a unfolding sample_bond_enabled sample_bond_slaves(2) by auto
  then show ?thesis using c unfolding bond_choose_output_slave_def by blast
qed


end
