(* ===== verification/Mac_Learning.thy ===== *)
theory Mac_Learning
  imports Packets
begin

text \<open>
  The MAC learning table of \<open>lib/mac-learning.h\<close> and \<open>lib/mac-learning.c\<close>.  The entries are objects in a heap,
  reached both through the hash map \<open>table\<close> and through the list \<open>lrus\<close>, so that they are named by their
  addresses; the node of the map and that of the list are named by the address of the entry that contains
  them.  The address that \<open>xmalloc\<close> returns for a new entry and the time in seconds are arguments.  A
  null or dangling pointer that would be followed, and a failing \<open>ovs_assert\<close>, give \<open>None\<close>.  The lock, the
  reference count and the coverage counters are left out.
\<close>

section \<open>Definitions\<close>

definition MAC_DEFAULT_MAX :: u64 where "MAC_DEFAULT_MAX = 2048"

definition MAC_ENTRY_DEFAULT_IDLE_TIME :: u32 where "MAC_ENTRY_DEFAULT_IDLE_TIME = 300"

definition MAC_GRAT_ARP_LOCK_TIME :: int where "MAC_GRAT_ARP_LOCK_TIME = 5"

definition TIME_MIN :: int where "TIME_MIN = - (2 ^ 63)"

record mac_entry =
  me_hash :: u64
  me_expires :: int
  me_grat_arp_lock :: int
  me_mac :: eth_addr
  me_vlan :: u16
  me_port :: "addr option"

record mac_learning =
  ml_table :: hmap
  ml_lrus :: "addr list"
  ml_secret :: u32
  ml_flood_vlans :: "bool list option"
  ml_idle_time :: u32
  ml_max_entries :: u64
  ml_need_revalidate :: bool
  ml_heap :: "addr \<Rightarrow> mac_entry option"

definition mac_entry_set_grat_arp_lock :: "int \<Rightarrow> mac_entry \<Rightarrow> mac_entry" where
  "mac_entry_set_grat_arp_lock now mac = mac\<lparr> me_grat_arp_lock := now + MAC_GRAT_ARP_LOCK_TIME \<rparr>"

definition mac_entry_is_grat_arp_locked :: "int \<Rightarrow> mac_entry \<Rightarrow> bool" where
  "mac_entry_is_grat_arp_locked now mac \<longleftrightarrow> now < me_grat_arp_lock mac"

definition mac_entry_age :: "int \<Rightarrow> mac_learning \<Rightarrow> mac_entry \<Rightarrow> int" where
  "mac_entry_age now ml e = (let remaining = me_expires e - now in int32 (uint (ml_idle_time ml) - remaining))"

definition mac_table_hash :: "mac_learning \<Rightarrow> eth_addr \<Rightarrow> u16 \<Rightarrow> u32" where
  "mac_table_hash ml mac vlan = hash_mac mac vlan (ml_secret ml)"

text \<open>The entry an address points to.\<close>

definition mac_entry_at :: "mac_learning \<Rightarrow> addr \<Rightarrow> mac_entry" where
  "mac_entry_at ml e = the (ml_heap ml e)"

definition mac_entry_lookup :: "mac_learning \<Rightarrow> eth_addr \<Rightarrow> u16 \<Rightarrow> addr option" where
  "mac_entry_lookup ml mac vlan =
    map_option snd
      (find (\<lambda>(h, e). me_vlan (mac_entry_at ml e) = vlan \<and> eth_addr_equals (me_mac (mac_entry_at ml e)) mac)
        (hmap_for_each_with_hash (hmap_first_with_hash (ml_table ml) (ucast (mac_table_hash ml mac vlan)))))"

fun get_lru :: "mac_learning \<Rightarrow> addr option" where
  "get_lru ml = (case ml_lrus ml of e # lrus \<Rightarrow> Some e | [] \<Rightarrow> None)"

definition normalize_idle_time :: "u32 \<Rightarrow> u32" where
  "normalize_idle_time idle_time = (if idle_time < 15 then 15 else if idle_time > 3600 then 3600 else idle_time)"

definition mac_learning_create :: "u32 \<Rightarrow> u32 \<Rightarrow> mac_learning" where
  "mac_learning_create random idle_time =
    \<lparr> ml_table = hmap_init, ml_lrus = [], ml_secret = random, ml_flood_vlans = None,
      ml_idle_time = normalize_idle_time idle_time, ml_max_entries = MAC_DEFAULT_MAX,
      ml_need_revalidate = False, ml_heap = Map.empty \<rparr>"

definition vlan_bitmap_equal :: "bool list option \<Rightarrow> bool list option \<Rightarrow> bool" where
  "vlan_bitmap_equal a b =
    (case (a, b) of (None, None) \<Rightarrow> True | (Some x, Some y) \<Rightarrow> take 4096 x = take 4096 y | _ \<Rightarrow> False)"

definition vlan_bitmap_clone :: "bool list option \<Rightarrow> bool list option" where
  "vlan_bitmap_clone vlans = map_option (take 4096) vlans"

definition mac_learning_set_flood_vlans :: "bool list option \<Rightarrow> mac_learning \<Rightarrow> bool \<times> mac_learning" where
  "mac_learning_set_flood_vlans bitmap ml =
    (if vlan_bitmap_equal (ml_flood_vlans ml) bitmap then (False, ml)
     else (True, ml\<lparr> ml_flood_vlans := vlan_bitmap_clone bitmap \<rparr>))"

definition mac_learning_set_idle_time :: "u32 \<Rightarrow> mac_learning \<Rightarrow> mac_learning" where
  "mac_learning_set_idle_time idle_time ml =
    (let idle_time = normalize_idle_time idle_time
     in if idle_time \<noteq> ml_idle_time ml
        then let delta = int32 (sint idle_time - sint (ml_idle_time ml));
                 heap = fold (\<lambda>e heap. heap(e := map_option (\<lambda>x. x\<lparr> me_expires := me_expires x + delta \<rparr>) (heap e)))
                          (ml_lrus ml) (ml_heap ml)
             in ml\<lparr> ml_heap := heap, ml_idle_time := idle_time \<rparr>
        else ml)"

definition mac_learning_set_max_entries :: "u64 \<Rightarrow> mac_learning \<Rightarrow> mac_learning" where
  "mac_learning_set_max_entries max_entries ml =
    ml\<lparr> ml_max_entries := (if max_entries < 10 then 10 else if max_entries > 1000 * 1000 then 1000 * 1000 else max_entries) \<rparr>"

definition bitmap_is_set :: "bool list \<Rightarrow> nat \<Rightarrow> bool" where
  "bitmap_is_set bitmap offset = bitmap ! offset"

definition is_learning_vlan :: "mac_learning \<Rightarrow> u16 \<Rightarrow> bool" where
  "is_learning_vlan ml vlan = (case ml_flood_vlans ml of None \<Rightarrow> True | Some b \<Rightarrow> \<not> bitmap_is_set b (unat vlan))"

definition mac_learning_may_learn :: "mac_learning option \<Rightarrow> eth_addr \<Rightarrow> u16 \<Rightarrow> bool" where
  "mac_learning_may_learn ml src_mac vlan =
    (case ml of None \<Rightarrow> False | Some ml \<Rightarrow> is_learning_vlan ml vlan \<and> \<not> eth_addr_is_multicast src_mac)"

definition mac_learning_expire :: "addr \<Rightarrow> mac_learning \<Rightarrow> mac_learning option" where
  "mac_learning_expire e ml =
    (case ml_heap ml e of
       None \<Rightarrow> None
     | Some x \<Rightarrow>
         map_option (\<lambda>table. ml\<lparr> ml_table := table, ml_lrus := remove1 e (ml_lrus ml), ml_heap := (ml_heap ml)(e := None) \<rparr>)
           (hmap_remove e (me_hash x) (ml_table ml)))"

text \<open>\<open>mac_learning_insert\<close>: the room made in a full table, the new entry, and the move to the end of \<open>lrus\<close>.\<close>

definition mac_learning_make_room :: "mac_learning \<Rightarrow> mac_learning option" where
  "mac_learning_make_room ml =
    (if hmap_count (ml_table ml) \<ge> unat (ml_max_entries ml)
     then case get_lru ml of None \<Rightarrow> None | Some e \<Rightarrow> mac_learning_expire e ml
     else Some ml)"

definition mac_learning_new_entry :: "addr \<Rightarrow> eth_addr \<Rightarrow> u16 \<Rightarrow> mac_learning \<Rightarrow> mac_learning" where
  "mac_learning_new_entry e src_mac vlan ml =
    (let hash = ucast (mac_table_hash ml src_mac vlan)
     in ml\<lparr> ml_table := hmap_insert e hash (ml_table ml),
            ml_heap := (ml_heap ml)(e \<mapsto>
              \<lparr> me_hash = hash, me_expires = 0, me_grat_arp_lock = TIME_MIN, me_mac = src_mac, me_vlan = vlan, me_port = None \<rparr>) \<rparr>)"

definition mac_learning_touch :: "int \<Rightarrow> addr \<Rightarrow> mac_learning \<Rightarrow> mac_learning" where
  "mac_learning_touch now e ml =
    ml\<lparr> ml_lrus := ml_lrus ml @ [e],
        ml_heap := (ml_heap ml)(e := map_option (\<lambda>x. x\<lparr> me_expires := now + uint (ml_idle_time ml) \<rparr>) (ml_heap ml e)) \<rparr>"

definition mac_learning_insert :: "int \<Rightarrow> addr \<Rightarrow> eth_addr \<Rightarrow> u16 \<Rightarrow> mac_learning \<Rightarrow> (addr \<times> mac_learning) option" where
  "mac_learning_insert now new src_mac vlan ml =
    (case mac_entry_lookup ml src_mac vlan of
       None \<Rightarrow>
         map_option (\<lambda>ml. (new, mac_learning_touch now new (mac_learning_new_entry new src_mac vlan ml)))
           (mac_learning_make_room ml)
     | Some e \<Rightarrow> Some (e, mac_learning_touch now e (ml\<lparr> ml_lrus := remove1 e (ml_lrus ml) \<rparr>)))"

definition mac_learning_changed :: "mac_learning \<Rightarrow> mac_learning" where
  "mac_learning_changed ml = ml\<lparr> ml_need_revalidate := True \<rparr>"

definition mac_learning_lookup :: "eth_addr \<Rightarrow> u16 \<Rightarrow> mac_learning \<Rightarrow> addr option option" where
  "mac_learning_lookup dst vlan ml =
    (if eth_addr_is_multicast dst then Some None
     else if \<not> is_learning_vlan ml vlan then Some None
     else (case mac_entry_lookup ml dst vlan of
             None \<Rightarrow> Some None
           | Some e \<Rightarrow> if me_port (mac_entry_at ml e) \<noteq> None then Some (Some e) else None))"

lemma length_expire: "mac_learning_expire e ml = Some ml' \<Longrightarrow> length (ml_lrus ml') = length (remove1 e (ml_lrus ml))"
  by (auto simp: mac_learning_expire_def split: option.splits)

lemma length_expire_lru:
  "get_lru ml = Some e \<Longrightarrow> mac_learning_expire e (ml\<lparr> ml_need_revalidate := b \<rparr>) = Some ml' \<Longrightarrow> length (ml_lrus ml') < length (ml_lrus ml)"
  by (drule length_expire) (auto split: list.splits)

function mac_learning_flush_loop :: "mac_learning \<Rightarrow> mac_learning option" where
  "mac_learning_flush_loop ml =
    (case get_lru ml of
       None \<Rightarrow> Some ml
     | Some e \<Rightarrow>
         (case mac_learning_expire e (ml\<lparr> ml_need_revalidate := True \<rparr>) of
            None \<Rightarrow> None
          | Some ml \<Rightarrow> mac_learning_flush_loop ml))"
  by pat_completeness auto
termination by (relation "measure (\<lambda>ml. length (ml_lrus ml))") (auto dest: length_expire_lru simp del: get_lru.simps)

definition mac_learning_flush :: "mac_learning \<Rightarrow> mac_learning option" where
  "mac_learning_flush ml =
    map_option (\<lambda>ml. ml\<lparr> ml_table := hmap_shrink (ml_table ml) \<rparr>) (mac_learning_flush_loop ml)"

function mac_learning_run_loop :: "int \<Rightarrow> mac_learning \<Rightarrow> mac_learning option" where
  "mac_learning_run_loop now ml =
    (case get_lru ml of
       None \<Rightarrow> Some ml
     | Some e \<Rightarrow>
         (if hmap_count (ml_table ml) > unat (ml_max_entries ml) \<or> now \<ge> me_expires (mac_entry_at ml e)
          then (case mac_learning_expire e (ml\<lparr> ml_need_revalidate := True \<rparr>) of
                  None \<Rightarrow> None
                | Some ml \<Rightarrow> mac_learning_run_loop now ml)
          else Some ml))"
  by pat_completeness auto
termination by (relation "measure (\<lambda>(now, ml). length (ml_lrus ml))") (auto dest: length_expire_lru simp del: get_lru.simps)

definition mac_learning_run :: "int \<Rightarrow> mac_learning \<Rightarrow> (bool \<times> mac_learning) option" where
  "mac_learning_run now ml =
    map_option (\<lambda>ml. (ml_need_revalidate ml, ml\<lparr> ml_need_revalidate := False \<rparr>)) (mac_learning_run_loop now ml)"

datatype wakeup = Wake_Never | Wake_Immediately | Wake_At int

definition mac_learning_wait :: "mac_learning \<Rightarrow> wakeup" where
  "mac_learning_wait ml =
    (if hmap_count (ml_table ml) > unat (ml_max_entries ml) \<or> ml_need_revalidate ml then Wake_Immediately
     else case ml_lrus ml of e # lrus \<Rightarrow> Wake_At (me_expires (mac_entry_at ml e) * 1000) | [] \<Rightarrow> Wake_Never)"

declare get_lru.simps [simp del] mac_learning_flush_loop.simps [simp del] mac_learning_run_loop.simps [simp del]

section \<open>The invariant\<close>

definition mac_key :: "mac_learning \<Rightarrow> addr \<Rightarrow> eth_addr \<times> u16" where
  "mac_key ml e = (me_mac (mac_entry_at ml e), me_vlan (mac_entry_at ml e))"

definition key_hash :: "mac_learning \<Rightarrow> eth_addr \<times> u16 \<Rightarrow> u64" where
  "key_hash ml k = ucast (mac_table_hash ml (fst k) (snd k))"

text \<open>
  The nodes of the hash map, the list and the live objects of the heap are the same entries, each under the
  hash of its key, and no two have the same key.
\<close>

definition ml_entries_ok :: "mac_learning \<Rightarrow> bool" where
  "ml_entries_ok ml \<longleftrightarrow>
    distinct (ml_lrus ml) \<and> dom (ml_heap ml) = set (ml_lrus ml) \<and>
    hmap_nodes (ml_table ml) = (\<lambda>e. (me_hash (mac_entry_at ml e), e)) ` set (ml_lrus ml) \<and>
    (\<forall>e \<in> set (ml_lrus ml). me_hash (mac_entry_at ml e) = key_hash ml (mac_key ml e) \<and>
                            length (me_mac (mac_entry_at ml e)) = 6) \<and>
    inj_on (mac_key ml) (set (ml_lrus ml))"

definition ml_ok :: "mac_learning \<Rightarrow> bool" where
  "ml_ok ml \<longleftrightarrow> hmap_ok (ml_table ml) \<and> ml_entries_ok ml \<and>
    15 \<le> ml_idle_time ml \<and> ml_idle_time ml \<le> 3600 \<and> 10 \<le> ml_max_entries ml \<and> ml_max_entries ml \<le> 1000000"

lemma ml_ok_create: "ml_ok (mac_learning_create random idle_time)"
  by (simp add: ml_ok_def ml_entries_ok_def mac_learning_create_def hmap_init_ok normalize_idle_time_def
      MAC_DEFAULT_MAX_def not_less)

text \<open>What the invariant does not look at.\<close>

lemma ml_frame [simp]:
  "mac_entry_at (ml_need_revalidate_update f ml) = mac_entry_at ml"
  "mac_key (ml_need_revalidate_update f ml) = mac_key ml"
  "key_hash (ml_need_revalidate_update f ml) = key_hash ml"
  "mac_entry_at (ml_flood_vlans_update g ml) = mac_entry_at ml"
  "mac_key (ml_flood_vlans_update g ml) = mac_key ml"
  "key_hash (ml_flood_vlans_update g ml) = key_hash ml"
  "mac_entry_at (ml_table_update h ml) = mac_entry_at ml"
  "mac_key (ml_table_update h ml) = mac_key ml"
  "key_hash (ml_table_update h ml) = key_hash ml"
  "mac_entry_at (ml_lrus_update l ml) = mac_entry_at ml"
  "mac_key (ml_lrus_update l ml) = mac_key ml"
  "key_hash (ml_lrus_update l ml) = key_hash ml"
  "mac_entry_at (ml_max_entries_update m ml) = mac_entry_at ml"
  "mac_key (ml_max_entries_update m ml) = mac_key ml"
  "key_hash (ml_max_entries_update m ml) = key_hash ml"
  "key_hash (ml_heap_update p ml) = key_hash ml"
  by (simp_all add: fun_eq_iff mac_entry_at_def mac_key_def key_hash_def mac_table_hash_def)

lemma ml_ok_frame [simp]:
  "ml_ok (ml_need_revalidate_update f ml) = ml_ok ml"
  "ml_ok (ml_flood_vlans_update g ml) = ml_ok ml"
  by (simp_all add: ml_ok_def ml_entries_ok_def)

lemma hmap_count_ml: "ml_ok ml \<Longrightarrow> hmap_count (ml_table ml) = length (ml_lrus ml)"
  by (auto simp: ml_ok_def ml_entries_ok_def hmap_count_nodes distinct_card card_image inj_on_def)

lemma get_lru_hd: "get_lru ml = (if ml_lrus ml = [] then None else Some (hd (ml_lrus ml)))"
  by (simp add: get_lru.simps split: list.split)

section \<open>Searching\<close>

lemma mac_entry_lookup_iff:
  assumes ok: "ml_ok ml" and mac: "length mac = 6"
  shows "mac_entry_lookup ml mac vlan = Some e \<longleftrightarrow> e \<in> set (ml_lrus ml) \<and> mac_key ml e = (mac, vlan)"
proof -
  let ?search = "\<lambda>k. hmap_for_each_with_hash (hmap_first_with_hash (ml_table ml) (key_hash ml k))"
  have t: "hmap_ok (ml_table ml)" using ok by (simp add: ml_ok_def)
  have nodes: "snd ` hmap_nodes (ml_table ml) = set (ml_lrus ml)"
    using ok by (simp add: ml_ok_def ml_entries_ok_def image_image)
  have h: "\<forall>(h, p) \<in> hmap_nodes (ml_table ml). h = key_hash ml (mac_key ml p)"
    using ok by (auto simp: ml_ok_def ml_entries_ok_def)
  have inj: "inj_on (mac_key ml) (snd ` hmap_nodes (ml_table ml))"
    using ok nodes by (simp add: ml_ok_def ml_entries_ok_def)
  have "set (?search (mac, vlan)) \<subseteq> hmap_nodes (ml_table ml)" by (rule with_hash.search_sound [OF t])
  then have "length (me_mac (mac_entry_at ml p)) = 6" if "(hash, p) \<in> set (?search (mac, vlan))" for hash p
    using that ok by (auto simp: ml_ok_def ml_entries_ok_def)
  then have eq: "mac_entry_lookup ml mac vlan =
      map_option snd (find (\<lambda>(h, p). mac_key ml p = (mac, vlan)) (?search (mac, vlan)))"
    unfolding mac_entry_lookup_def key_hash_def fst_conv snd_conv
    by (intro arg_cong [where f = "map_option snd"] find_cong refl)
      (auto simp: mac_key_def eth_addr_equals_eq mac)
  show ?thesis
  proof (cases "(mac, vlan) \<in> mac_key ml ` set (ml_lrus ml)")
    case True
    then obtain p where p: "p \<in> set (ml_lrus ml)" "(mac, vlan) = mac_key ml p" by blast
    have "mac_entry_lookup ml mac vlan = Some p"
      unfolding eq p(2) using with_hash.search_key_some [OF t, of "key_hash ml" "mac_key ml" p] h inj p nodes by simp
    then show ?thesis using p inj nodes by (auto dest: inj_onD)
  next
    case False
    then have "mac_entry_lookup ml mac vlan = None"
      unfolding eq using with_hash.search_key_none [OF t, of "key_hash ml" "mac_key ml"] h nodes by simp
    moreover have "\<not> (e \<in> set (ml_lrus ml) \<and> mac_key ml e = (mac, vlan))" using False by force
    ultimately show ?thesis by simp
  qed
qed

lemma mac_entry_lookup_none:
  assumes "ml_ok ml" "length mac = 6"
  shows "mac_entry_lookup ml mac vlan = None \<longleftrightarrow> (mac, vlan) \<notin> mac_key ml ` set (ml_lrus ml)"
  using mac_entry_lookup_iff [OF assms, of vlan] by (metis (no_types, lifting) image_iff option.exhaust option.distinct(1))

section \<open>Removing entries\<close>

lemma expire_ok:
  assumes ok: "ml_ok ml" and e: "e \<in> set (ml_lrus ml)"
  shows "\<exists>t. let ml' = ml\<lparr> ml_table := t, ml_lrus := remove1 e (ml_lrus ml), ml_heap := (ml_heap ml)(e := None) \<rparr>
             in mac_learning_expire e ml = Some ml' \<and> ml_ok ml'"
proof -
  have "e \<in> dom (ml_heap ml)" using ok e by (simp add: ml_ok_def ml_entries_ok_def)
  then obtain x where x: "ml_heap ml e = Some x" by blast
  have "(me_hash x, e) \<in> hmap_nodes (ml_table ml)"
    using ok e x by (auto simp: ml_ok_def ml_entries_ok_def mac_entry_at_def)
  then obtain t where t: "hmap_remove e (me_hash x) (ml_table ml) = Some t" "hmap_ok t"
    "hmap_nodes t = hmap_nodes (ml_table ml) - {(me_hash x, e)}"
    using hmap_remove_ok ok unfolding ml_ok_def by blast
  define ml' where "ml' = ml\<lparr> ml_table := t, ml_lrus := remove1 e (ml_lrus ml), ml_heap := (ml_heap ml)(e := None) \<rparr>"
  have d: "distinct (ml_lrus ml)" using ok by (simp add: ml_ok_def ml_entries_ok_def)
  have at: "mac_entry_at ml' p = mac_entry_at ml p" if "p \<noteq> e" for p
    using that by (simp add: ml'_def mac_entry_at_def)
  then have key: "mac_key ml' p = mac_key ml p" if "p \<noteq> e" for p using that by (simp add: mac_key_def)
  have lrus: "set (ml_lrus ml') = set (ml_lrus ml) - {e}" using d by (simp add: ml'_def)
  have "ml_entries_ok ml'"
    unfolding ml_entries_ok_def lrus
  proof (intro conjI)
    show "distinct (ml_lrus ml')" "dom (ml_heap ml') = set (ml_lrus ml) - {e}"
      using ok d by (auto simp: ml'_def ml_ok_def ml_entries_ok_def)
    show "hmap_nodes (ml_table ml') = (\<lambda>e. (me_hash (mac_entry_at ml' e), e)) ` (set (ml_lrus ml) - {e})"
    proof -
      let ?f = "\<lambda>p. (me_hash (mac_entry_at ml p), p)"
      have "hmap_nodes (ml_table ml) = ?f ` set (ml_lrus ml)" using ok unfolding ml_ok_def ml_entries_ok_def by blast
      then have "hmap_nodes (ml_table ml') = ?f ` set (ml_lrus ml) - ?f ` {e}"
        using t(3) x by (simp add: ml'_def mac_entry_at_def)
      also have "\<dots> = ?f ` (set (ml_lrus ml) - {e})" by (auto simp: inj_on_def)
      also have "\<dots> = (\<lambda>p. (me_hash (mac_entry_at ml' p), p)) ` (set (ml_lrus ml) - {e})"
        by (rule image_cong) (simp_all add: at)
      finally show ?thesis .
    qed
    show "\<forall>p \<in> set (ml_lrus ml) - {e}. me_hash (mac_entry_at ml' p) = key_hash ml' (mac_key ml' p) \<and>
        length (me_mac (mac_entry_at ml' p)) = 6"
      using ok at key by (auto simp: ml_ok_def ml_entries_ok_def) (simp_all add: ml'_def)
    show "inj_on (mac_key ml') (set (ml_lrus ml) - {e})"
      using ok key by (auto simp: ml_ok_def ml_entries_ok_def inj_on_def)
  qed
  then have "ml_ok ml'" using ok t(2) by (simp add: ml_ok_def ml'_def)
  then show ?thesis using x t(1) by (intro exI [of _ t]) (simp add: ml'_def mac_learning_expire_def)
qed

lemma ml_entry_eqI: "ml_heap ml e = ml_heap ml' e \<Longrightarrow> mac_entry_at ml e = mac_entry_at ml' e"
  by (simp add: mac_entry_at_def)

text \<open>The entries in the order of \<open>lrus\<close>, without the hashes: what a client can observe.\<close>

definition ml_view :: "mac_learning \<Rightarrow> mac_entry list" where
  "ml_view ml = map (\<lambda>e. (mac_entry_at ml e)\<lparr> me_hash := 0 \<rparr>) (ml_lrus ml)"

lemma length_ml_view [simp]: "length (ml_view ml) = length (ml_lrus ml)"
  by (simp add: ml_view_def)

lemma ml_view_frame [simp]:
  "ml_view (ml_need_revalidate_update f ml) = ml_view ml"
  "ml_view (ml_flood_vlans_update g ml) = ml_view ml"
  "ml_view (ml_table_update h ml) = ml_view ml"
  by (simp_all add: ml_view_def)

text \<open>Removing the least recently used entry, as the three loops do.\<close>

lemma expire_lru:
  assumes "ml_ok ml" "ml_lrus ml = e # lrus"
  shows "\<exists>t. let ml' = ml\<lparr> ml_table := t, ml_lrus := lrus, ml_heap := (ml_heap ml)(e := None) \<rparr>
             in mac_learning_expire e ml = Some ml' \<and> ml_ok ml' \<and> ml_view ml' = tl (ml_view ml)"
proof -
  have "e \<notin> set lrus" using assms by (simp add: ml_ok_def ml_entries_ok_def)
  then show ?thesis
    using expire_ok [OF assms(1), of e] assms(2) by (fastforce simp: Let_def ml_view_def mac_entry_at_def)
qed

lemma flush_loop_ok:
  assumes "ml_ok ml"
  shows "\<exists>t. let ml' = ml\<lparr> ml_table := t, ml_lrus := [], ml_heap := Map.empty,
                            ml_need_revalidate := (ml_need_revalidate ml \<or> ml_lrus ml \<noteq> []) \<rparr>
             in mac_learning_flush_loop ml = Some ml' \<and> ml_ok ml'"
  using assms
proof (induction "ml_lrus ml" arbitrary: ml)
  case Nil
  then have "dom (ml_heap ml) = {}" by (simp add: ml_ok_def ml_entries_ok_def)
  then have "ml\<lparr> ml_lrus := [], ml_heap := Map.empty \<rparr> = ml" using Nil.hyps by simp
  then show ?case
    using Nil by (intro exI [of _ "ml_table ml"]) (simp add: mac_learning_flush_loop.simps [of ml] get_lru_hd)
next
  case (Cons e lrus)
  have "ml_ok (ml\<lparr> ml_need_revalidate := True \<rparr>)" using Cons.prems by simp
  then obtain t where e: "mac_learning_expire e (ml\<lparr> ml_need_revalidate := True \<rparr>) =
      Some (ml\<lparr> ml_need_revalidate := True, ml_table := t, ml_lrus := lrus, ml_heap := (ml_heap ml)(e := None) \<rparr>)"
    and ok: "ml_ok (ml\<lparr> ml_need_revalidate := True, ml_table := t, ml_lrus := lrus, ml_heap := (ml_heap ml)(e := None) \<rparr>)"
    using expire_lru [of "ml\<lparr> ml_need_revalidate := True \<rparr>" e lrus] Cons.hyps(2) by (auto simp: Let_def)
  then show ?case
    using Cons.hyps(1) [OF _ ok] Cons.hyps(2) [symmetric]
    by (simp add: mac_learning_flush_loop.simps [of ml] get_lru_hd Let_def)
qed

lemma flush_ok:
  assumes "ml_ok ml"
  shows "\<exists>ml'. mac_learning_flush ml = Some ml' \<and> ml_ok ml' \<and> ml_view ml' = [] \<and>
    ml_need_revalidate ml' = (ml_need_revalidate ml \<or> ml_view ml \<noteq> []) \<and>
    ml_secret ml' = ml_secret ml \<and> ml_flood_vlans ml' = ml_flood_vlans ml \<and> ml_idle_time ml' = ml_idle_time ml \<and>
    ml_max_entries ml' = ml_max_entries ml"
proof -
  obtain ml' where "mac_learning_flush_loop ml = Some ml'" "ml_ok ml'" "ml_lrus ml' = []"
    "ml_need_revalidate ml' = (ml_need_revalidate ml \<or> ml_lrus ml \<noteq> [])" "ml_secret ml' = ml_secret ml"
    "ml_flood_vlans ml' = ml_flood_vlans ml" "ml_idle_time ml' = ml_idle_time ml" "ml_max_entries ml' = ml_max_entries ml"
    using flush_loop_ok [OF assms] by (auto simp: Let_def)
  then show ?thesis
    using hmap_shrink_ok [of "ml_table ml'"]
    by (auto simp: mac_learning_flush_def ml_view_def ml_ok_def ml_entries_ok_def)
qed

section \<open>Periodic work\<close>

text \<open>The entries that \<open>mac_learning_run\<close> keeps: it drops from the front while the table is too big or the entry expired.\<close>

fun lru_prune :: "int \<Rightarrow> nat \<Rightarrow> mac_entry list \<Rightarrow> mac_entry list" where
  "lru_prune now cap [] = []"
| "lru_prune now cap (e # es) =
    (if length (e # es) > cap \<or> now \<ge> me_expires e then lru_prune now cap es else e # es)"

lemma lru_prune_Cons:
  "es = e # es' \<Longrightarrow> lru_prune now cap es = (if length es > cap \<or> now \<ge> me_expires e then lru_prune now cap es' else es)"
  by simp

lemma lru_prune_suffix: "\<exists>k. lru_prune now cap es = drop k es"
proof (induction es)
  case (Cons e es)
  then obtain k where "lru_prune now cap es = drop k es" by blast
  then show ?case by (cases "length (e # es) > cap \<or> now \<ge> me_expires e") (auto intro: exI [of _ "Suc k"] exI [of _ 0])
qed simp

lemma lru_prune_sorted:
  "sorted (map me_expires es) \<Longrightarrow> lru_prune now cap es = filter (\<lambda>e. now < me_expires e) (drop (length es - cap) es)"
proof (induction es)
  case (Cons e es)
  consider "length (e # es) > cap" | "length (e # es) \<le> cap" "now \<ge> me_expires e" | "length (e # es) \<le> cap" "now < me_expires e"
    by linarith
  then show ?case
  proof cases
    case 1
    then have "length (e # es) - cap = Suc (length es - cap)" by simp
    then show ?thesis using Cons 1 by simp
  next
    case 2
    then show ?thesis using Cons by simp
  next
    case 3
    then have "\<forall>x \<in> set es. now < me_expires x" using Cons.prems by fastforce
    then show ?thesis using 3 by (simp add: filter_id_conv)
  qed
qed simp

lemma run_loop_ok:
  assumes "ml_ok ml"
  shows "\<exists>ml'. mac_learning_run_loop now ml = Some ml' \<and> ml_ok ml' \<and>
    ml_view ml' = lru_prune now (unat (ml_max_entries ml)) (ml_view ml) \<and>
    ml_need_revalidate ml' = (ml_need_revalidate ml \<or> length (ml_view ml') < length (ml_view ml)) \<and>
    ml_secret ml' = ml_secret ml \<and> ml_flood_vlans ml' = ml_flood_vlans ml \<and> ml_idle_time ml' = ml_idle_time ml \<and>
    ml_max_entries ml' = ml_max_entries ml"
  using assms
proof (induction "ml_lrus ml" arbitrary: ml)
  case Nil
  then show ?case
    by (intro exI [of _ ml]) (simp add: mac_learning_run_loop.simps [of now ml] get_lru_hd ml_view_def)
next
  case (Cons e lrus)
  let ?ml = "ml\<lparr> ml_need_revalidate := True \<rparr>"
  have lrus: "ml_lrus ml = e # lrus" using Cons.hyps(2) by simp
  have view: "ml_view ml = (mac_entry_at ml e)\<lparr> me_hash := 0 \<rparr> # tl (ml_view ml)" by (simp add: ml_view_def lrus)
  have count: "hmap_count (ml_table ml) = length (ml_view ml)" using hmap_count_ml [OF Cons.prems] by simp
  show ?case
  proof (cases "length (ml_view ml) > unat (ml_max_entries ml) \<or> now \<ge> me_expires (mac_entry_at ml e)")
    case True
    have "ml_ok ?ml" using Cons.prems by simp
    then obtain ml1 where e: "mac_learning_expire e ?ml = Some ml1" "ml_ok ml1" "ml_lrus ml1 = lrus"
      "ml_view ml1 = tl (ml_view ml)" "ml_need_revalidate ml1" "ml_secret ml1 = ml_secret ml"
      "ml_flood_vlans ml1 = ml_flood_vlans ml" "ml_idle_time ml1 = ml_idle_time ml" "ml_max_entries ml1 = ml_max_entries ml"
      using expire_lru [of ?ml e lrus] lrus by (auto simp: Let_def)
    have "mac_learning_run_loop now ml = mac_learning_run_loop now ml1"
      using True e(1) lrus count by (simp add: mac_learning_run_loop.simps [of now ml] get_lru_hd)
    moreover have "lru_prune now (unat (ml_max_entries ml)) (ml_view ml) = lru_prune now (unat (ml_max_entries ml)) (ml_view ml1)"
      unfolding e(4) using True lru_prune_Cons [OF view, of now] by simp
    moreover obtain ml' where "mac_learning_run_loop now ml1 = Some ml'" "ml_ok ml'"
      "ml_view ml' = lru_prune now (unat (ml_max_entries ml1)) (ml_view ml1)" "ml_need_revalidate ml'"
      "ml_secret ml' = ml_secret ml1" "ml_flood_vlans ml' = ml_flood_vlans ml1" "ml_idle_time ml' = ml_idle_time ml1"
      "ml_max_entries ml' = ml_max_entries ml1"
      using Cons.hyps(1) [of ml1] e by auto
    moreover have "length (lru_prune now (unat (ml_max_entries ml)) (ml_view ml1)) < length (ml_view ml)"
      using lru_prune_suffix [of now _ "ml_view ml1"] e(3) lrus by (metis length_Cons length_drop length_ml_view less_Suc_eq_le diff_le_self)
    ultimately show ?thesis using e by (simp del: length_ml_view)
  next
    case False
    moreover have "lru_prune now (unat (ml_max_entries ml)) (ml_view ml) = ml_view ml"
      using False lru_prune_Cons [OF view, of now] by simp
    ultimately show ?thesis
      using lrus count Cons.prems by (simp add: mac_learning_run_loop.simps [of now ml] get_lru_hd)
  qed
qed

section \<open>Learning\<close>

text \<open>Changes to an entry that keep its key, and changes of the order, keep the invariant.\<close>

definition ml_update_entry :: "addr \<Rightarrow> (mac_entry \<Rightarrow> mac_entry) \<Rightarrow> mac_learning \<Rightarrow> mac_learning" where
  "ml_update_entry e f ml = ml\<lparr> ml_heap := (ml_heap ml)(e := map_option f (ml_heap ml e)) \<rparr>"

definition keeps_key :: "(mac_entry \<Rightarrow> mac_entry) \<Rightarrow> bool" where
  "keeps_key f \<longleftrightarrow> (\<forall>x. me_hash (f x) = me_hash x \<and> me_mac (f x) = me_mac x \<and> me_vlan (f x) = me_vlan x)"

lemma mac_entry_at_update:
  "ml_heap ml e \<noteq> None \<Longrightarrow> mac_entry_at (ml_update_entry e f ml) p = (if p = e then f (mac_entry_at ml e) else mac_entry_at ml p)"
  by (auto simp: ml_update_entry_def mac_entry_at_def)

lemma ml_heap_lrus: "ml_ok ml \<Longrightarrow> e \<in> set (ml_lrus ml) \<Longrightarrow> ml_heap ml e \<noteq> None"
  unfolding ml_ok_def ml_entries_ok_def by blast

lemma ml_update_entry_sel [simp]:
  "ml_lrus (ml_update_entry e f ml) = ml_lrus ml" "ml_table (ml_update_entry e f ml) = ml_table ml"
  "ml_secret (ml_update_entry e f ml) = ml_secret ml" "ml_idle_time (ml_update_entry e f ml) = ml_idle_time ml"
  "ml_max_entries (ml_update_entry e f ml) = ml_max_entries ml"
  "ml_flood_vlans (ml_update_entry e f ml) = ml_flood_vlans ml"
  "ml_need_revalidate (ml_update_entry e f ml) = ml_need_revalidate ml"
  "key_hash (ml_update_entry e f ml) = key_hash ml" "dom (ml_heap (ml_update_entry e f ml)) = dom (ml_heap ml)"
  by (auto simp: ml_update_entry_def split: if_splits)

lemma update_entry_ok:
  assumes "ml_ok ml" "e \<in> set (ml_lrus ml)" "keeps_key f"
  shows "ml_ok (ml_update_entry e f ml)"
proof -
  have at: "mac_entry_at (ml_update_entry e f ml) p = (if p = e then f (mac_entry_at ml e) else mac_entry_at ml p)" for p
    using mac_entry_at_update ml_heap_lrus assms(1,2) by blast
  have "mac_key (ml_update_entry e f ml) = mac_key ml"
    using assms(3) by (auto simp: fun_eq_iff mac_key_def at keeps_key_def)
  moreover have "(\<lambda>p. (me_hash (mac_entry_at (ml_update_entry e f ml) p), p)) = (\<lambda>p. (me_hash (mac_entry_at ml p), p))"
    "me_hash (mac_entry_at (ml_update_entry e f ml) p) = me_hash (mac_entry_at ml p)"
    "me_mac (mac_entry_at (ml_update_entry e f ml) p) = me_mac (mac_entry_at ml p)" for p
    using assms(3) by (auto simp: fun_eq_iff at keeps_key_def)
  ultimately show ?thesis using assms(1) by (simp add: ml_ok_def ml_entries_ok_def)
qed

lemma reorder_ok:
  assumes "ml_ok ml" "mset lrus = mset (ml_lrus ml)"
  shows "ml_ok (ml\<lparr> ml_lrus := lrus \<rparr>)"
  using assms mset_eq_setD [OF assms(2)] mset_eq_imp_distinct_iff [OF assms(2)]
  by (simp add: ml_ok_def ml_entries_ok_def)

lemma ml_ok_keys:
  assumes "ml_ok ml"
  shows "distinct (map (\<lambda>e. (me_mac e, me_vlan e)) (ml_view ml))"
  using assms by (simp add: ml_view_def comp_def mac_key_def [symmetric] ml_ok_def ml_entries_ok_def distinct_map)

text \<open>The specification: a list of entries with distinct keys, least recently used first.\<close>

definition lru_find :: "eth_addr \<Rightarrow> u16 \<Rightarrow> mac_entry list \<Rightarrow> mac_entry option" where
  "lru_find mac vlan es = find (\<lambda>e. me_mac e = mac \<and> me_vlan e = vlan) es"

definition lru_insert :: "int \<Rightarrow> nat \<Rightarrow> eth_addr \<Rightarrow> u16 \<Rightarrow> mac_entry list \<Rightarrow> mac_entry list" where
  "lru_insert expires cap mac vlan es =
    (case lru_find mac vlan es of
       Some e \<Rightarrow> filter (\<lambda>e. \<not> (me_mac e = mac \<and> me_vlan e = vlan)) es @ [e\<lparr> me_expires := expires \<rparr>]
     | None \<Rightarrow> (if length es \<ge> cap then tl es else es) @
         [\<lparr> me_hash = 0, me_expires = expires, me_grat_arp_lock = TIME_MIN, me_mac = mac, me_vlan = vlan, me_port = None \<rparr>])"

lemma lru_find_view:
  assumes "ml_ok ml" "length mac = 6"
  shows "lru_find mac vlan (ml_view ml) =
    map_option (\<lambda>e. (mac_entry_at ml e)\<lparr> me_hash := 0 \<rparr>) (mac_entry_lookup ml mac vlan)"
proof (cases "mac_entry_lookup ml mac vlan")
  case None
  then have "(mac, vlan) \<notin> mac_key ml ` set (ml_lrus ml)" using mac_entry_lookup_none [OF assms] by blast
  then show ?thesis using None by (force simp: lru_find_def find_None_iff ml_view_def mac_key_def)
next
  case (Some e)
  then have e: "e \<in> set (ml_lrus ml)" "mac_key ml e = (mac, vlan)" using mac_entry_lookup_iff [OF assms] by blast+
  have u: "p = e" if "p \<in> set (ml_lrus ml)" "mac_key ml p = (mac, vlan)" for p
    using that e assms(1) unfolding ml_ok_def ml_entries_ok_def by (metis inj_onD)
  have "find (\<lambda>x. me_mac x = mac \<and> me_vlan x = vlan) (ml_view ml) \<noteq> None"
    using e by (auto simp: find_None_iff ml_view_def mac_key_def)
  then obtain x where x: "find (\<lambda>x. me_mac x = mac \<and> me_vlan x = vlan) (ml_view ml) = Some x" by blast
  then have "x \<in> set (ml_view ml)" "me_mac x = mac" "me_vlan x = vlan" by (auto simp: find_Some_iff in_set_conv_nth)
  then have "x = (mac_entry_at ml e)\<lparr> me_hash := 0 \<rparr>" using u by (auto simp: ml_view_def mac_key_def)
  then show ?thesis using x Some by (simp add: lru_find_def)
qed

lemma touch_update:
  "mac_learning_touch now e ml =
    ml_update_entry e (\<lambda>x. x\<lparr> me_expires := now + uint (ml_idle_time ml) \<rparr>) (ml\<lparr> ml_lrus := ml_lrus ml @ [e] \<rparr>)"
  by (simp add: mac_learning_touch_def ml_update_entry_def)

lemma view_update_last:
  assumes "ml_heap ml e \<noteq> None" "e \<notin> set lrus" "ml_lrus ml = lrus @ [e]" "\<And>x. (f x)\<lparr> me_hash := 0 \<rparr> = f (x\<lparr> me_hash := 0 \<rparr>)"
  shows "ml_view (ml_update_entry e f ml) = map (\<lambda>p. (mac_entry_at ml p)\<lparr> me_hash := 0 \<rparr>) lrus @ [f ((mac_entry_at ml e)\<lparr> me_hash := 0 \<rparr>)]"
  using assms(2) by (auto simp: ml_view_def assms(3,4) mac_entry_at_update [OF assms(1)])

lemma insert_known:
  assumes ok: "ml_ok ml" and e: "e \<in> set (ml_lrus ml)" "mac_key ml e = (mac, vlan)"
  shows "let ml' = mac_learning_touch now e (ml\<lparr> ml_lrus := remove1 e (ml_lrus ml) \<rparr>)
         in ml_ok ml' \<and> ml_lrus ml' = remove1 e (ml_lrus ml) @ [e] \<and>
            ml_view ml' = filter (\<lambda>x. \<not> (me_mac x = mac \<and> me_vlan x = vlan)) (ml_view ml) @
              [(mac_entry_at ml e)\<lparr> me_hash := 0, me_expires := now + uint (ml_idle_time ml) \<rparr>]"
proof -
  let ?f = "\<lambda>x. x\<lparr> me_expires := now + uint (ml_idle_time ml) \<rparr>"
  define ml1 where "ml1 = ml\<lparr> ml_lrus := remove1 e (ml_lrus ml) @ [e] \<rparr>"
  have d: "distinct (ml_lrus ml)" "inj_on (mac_key ml) (set (ml_lrus ml))"
    using ok by (simp_all add: ml_ok_def ml_entries_ok_def)
  have ml1: "ml_ok ml1" unfolding ml1_def by (rule reorder_ok [OF ok]) (use e in simp)
  then have ok': "ml_ok (ml_update_entry e ?f ml1)"
    by (rule update_entry_ok) (simp_all add: ml1_def keeps_key_def)
  have heap: "ml_heap ml1 e \<noteq> None" by (rule ml_heap_lrus [OF ml1]) (simp add: ml1_def)
  have "remove1 e (ml_lrus ml) = filter ((\<noteq>) e) (ml_lrus ml)" using d(1) by (simp add: distinct_remove1_removeAll removeAll_filter_not_eq)
  also have "\<dots> = filter (\<lambda>p. \<not> (me_mac (mac_entry_at ml p) = mac \<and> me_vlan (mac_entry_at ml p) = vlan)) (ml_lrus ml)"
  proof (rule filter_cong [OF refl])
    fix p
    assume "p \<in> set (ml_lrus ml)"
    then have "mac_key ml p = (mac, vlan) \<longleftrightarrow> p = e" using inj_on_eq_iff [OF d(2) _ e(1)] e(2) by metis
    then show "e \<noteq> p \<longleftrightarrow> \<not> (me_mac (mac_entry_at ml p) = mac \<and> me_vlan (mac_entry_at ml p) = vlan)"
      by (auto simp: mac_key_def)
  qed
  finally have f: "map (\<lambda>p. (mac_entry_at ml p)\<lparr> me_hash := 0 \<rparr>) (remove1 e (ml_lrus ml)) =
      filter (\<lambda>x. \<not> (me_mac x = mac \<and> me_vlan x = vlan)) (ml_view ml)"
    by (simp add: ml_view_def filter_map comp_def)
  have "ml_view (ml_update_entry e ?f ml1) =
      map (\<lambda>p. (mac_entry_at ml1 p)\<lparr> me_hash := 0 \<rparr>) (remove1 e (ml_lrus ml)) @ [?f ((mac_entry_at ml1 e)\<lparr> me_hash := 0 \<rparr>)]"
    by (rule view_update_last [OF heap]) (use d(1) in \<open>simp_all add: ml1_def\<close>)
  then show ?thesis using ok' by (simp add: Let_def touch_update ml1_def f)
qed

lemma new_entry_ok:
  assumes ok: "ml_ok ml" and new: "new \<notin> set (ml_lrus ml)" and key: "(mac, vlan) \<notin> mac_key ml ` set (ml_lrus ml)"
    and mac: "length mac = 6"
  shows "ml_ok ((mac_learning_new_entry new mac vlan ml)\<lparr> ml_lrus := ml_lrus ml @ [new] \<rparr>)"
proof -
  define ml' where "ml' = (mac_learning_new_entry new mac vlan ml)\<lparr> ml_lrus := ml_lrus ml @ [new] \<rparr>"
  have at: "mac_entry_at ml' p = (if p = new
      then \<lparr> me_hash = key_hash ml (mac, vlan), me_expires = 0, me_grat_arp_lock = TIME_MIN, me_mac = mac, me_vlan = vlan, me_port = None \<rparr>
      else mac_entry_at ml p)" for p
    by (simp add: ml'_def mac_learning_new_entry_def mac_entry_at_def key_hash_def Let_def)
  have k: "mac_key ml' p = (if p = new then (mac, vlan) else mac_key ml p)" for p
    by (simp add: mac_key_def at)
  have kh: "key_hash ml' = key_hash ml"
    by (simp add: ml'_def mac_learning_new_entry_def key_hash_def mac_table_hash_def fun_eq_iff Let_def)
  have nodes: "hmap_nodes (ml_table ml) = (\<lambda>p. (me_hash (mac_entry_at ml p), p)) ` set (ml_lrus ml)" "hmap_ok (ml_table ml)"
    and d: "distinct (ml_lrus ml)" "dom (ml_heap ml) = set (ml_lrus ml)"
    and e: "\<forall>p \<in> set (ml_lrus ml). me_hash (mac_entry_at ml p) = key_hash ml (mac_key ml p) \<and> length (me_mac (mac_entry_at ml p)) = 6"
    and i: "inj_on (mac_key ml) (set (ml_lrus ml))"
    using ok unfolding ml_ok_def ml_entries_ok_def by blast+
  then have "new \<notin> snd ` hmap_nodes (ml_table ml)" using new by auto
  note ins = hmap_insert_ok [OF nodes(2) this, of "key_hash ml (mac, vlan)"]
  have table: "ml_table ml' = hmap_insert new (key_hash ml (mac, vlan)) (ml_table ml)"
    and lrus: "set (ml_lrus ml') = insert new (set (ml_lrus ml))"
    by (simp_all add: ml'_def mac_learning_new_entry_def key_hash_def Let_def)
  have "ml_entries_ok ml'"
    unfolding ml_entries_ok_def lrus
  proof (intro conjI)
    show "distinct (ml_lrus ml')" "dom (ml_heap ml') = insert new (set (ml_lrus ml))"
      using d new by (simp_all add: ml'_def mac_learning_new_entry_def Let_def)
    show "hmap_nodes (ml_table ml') = (\<lambda>p. (me_hash (mac_entry_at ml' p), p)) ` insert new (set (ml_lrus ml))"
      unfolding table ins(2) nodes(1) using new by (auto simp: at)
    show "\<forall>p \<in> insert new (set (ml_lrus ml)). me_hash (mac_entry_at ml' p) = key_hash ml' (mac_key ml' p) \<and>
        length (me_mac (mac_entry_at ml' p)) = 6"
      using e mac by (simp add: at k kh)
    show "inj_on (mac_key ml') (insert new (set (ml_lrus ml)))"
    proof -
      have "mac_key ml' ` set (ml_lrus ml) = mac_key ml ` set (ml_lrus ml)" using new by (auto simp: k intro!: image_cong)
      moreover have "inj_on (mac_key ml') (set (ml_lrus ml))"
        using i new by (subst inj_on_cong [where g = "mac_key ml"]) (auto simp: k)
      ultimately show ?thesis using key new by (simp add: k)
    qed
  qed
  moreover have "ml_idle_time ml' = ml_idle_time ml" "ml_max_entries ml' = ml_max_entries ml"
    by (simp_all add: ml'_def mac_learning_new_entry_def Let_def)
  ultimately show ?thesis using ok ins(1) table unfolding ml'_def [symmetric] by (simp add: ml_ok_def)
qed

lemma insert_new:
  assumes "ml_ok ml" "new \<notin> set (ml_lrus ml)" "(mac, vlan) \<notin> mac_key ml ` set (ml_lrus ml)" "length mac = 6"
  shows "let ml' = mac_learning_touch now new (mac_learning_new_entry new mac vlan ml)
         in ml_ok ml' \<and> ml_lrus ml' = ml_lrus ml @ [new] \<and>
            ml_view ml' = ml_view ml @ [\<lparr> me_hash = 0, me_expires = now + uint (ml_idle_time ml),
              me_grat_arp_lock = TIME_MIN, me_mac = mac, me_vlan = vlan, me_port = None \<rparr>]"
proof -
  let ?f = "\<lambda>x. x\<lparr> me_expires := now + uint (ml_idle_time ml) \<rparr>"
  define ml1 where "ml1 = (mac_learning_new_entry new mac vlan ml)\<lparr> ml_lrus := ml_lrus ml @ [new] \<rparr>"
  have ml1: "ml_ok ml1" unfolding ml1_def by (rule new_entry_ok [OF assms])
  then have ok': "ml_ok (ml_update_entry new ?f ml1)"
    by (rule update_entry_ok) (simp_all add: ml1_def keeps_key_def)
  have heap: "ml_heap ml1 new \<noteq> None" by (rule ml_heap_lrus [OF ml1]) (simp add: ml1_def)
  have at: "mac_entry_at ml1 p = mac_entry_at ml p" if "p \<noteq> new" for p
    using that by (simp add: ml1_def mac_learning_new_entry_def mac_entry_at_def Let_def)
  have new: "mac_entry_at ml1 new = \<lparr> me_hash = key_hash ml (mac, vlan), me_expires = 0, me_grat_arp_lock = TIME_MIN,
      me_mac = mac, me_vlan = vlan, me_port = None \<rparr>"
    by (simp add: ml1_def mac_learning_new_entry_def mac_entry_at_def key_hash_def Let_def)
  have "ml_view (ml_update_entry new ?f ml1) =
      map (\<lambda>p. (mac_entry_at ml1 p)\<lparr> me_hash := 0 \<rparr>) (ml_lrus ml) @ [?f ((mac_entry_at ml1 new)\<lparr> me_hash := 0 \<rparr>)]"
    by (rule view_update_last [OF heap]) (use assms(2) in \<open>simp_all add: ml1_def\<close>)
  moreover have "map (\<lambda>p. (mac_entry_at ml1 p)\<lparr> me_hash := 0 \<rparr>) (ml_lrus ml) = ml_view ml"
    unfolding ml_view_def by (rule map_cong [OF refl]) (use assms(2) at in metis)
  moreover have "mac_learning_touch now new (mac_learning_new_entry new mac vlan ml) = ml_update_entry new ?f ml1"
    by (simp add: touch_update ml1_def mac_learning_new_entry_def Let_def)
  ultimately show ?thesis using ok' new by (simp add: Let_def) (simp add: ml1_def)
qed

lemma make_room_ok:
  assumes "ml_ok ml"
  shows "\<exists>ml'. mac_learning_make_room ml = Some ml' \<and> ml_ok ml' \<and> set (ml_lrus ml') \<subseteq> set (ml_lrus ml) \<and>
    ml_view ml' = (if length (ml_view ml) \<ge> unat (ml_max_entries ml) then tl (ml_view ml) else ml_view ml) \<and>
    mac_key ml' ` set (ml_lrus ml') \<subseteq> mac_key ml ` set (ml_lrus ml) \<and>
    ml_idle_time ml' = ml_idle_time ml \<and> ml_max_entries ml' = ml_max_entries ml \<and> ml_secret ml' = ml_secret ml \<and>
    ml_flood_vlans ml' = ml_flood_vlans ml \<and> ml_need_revalidate ml' = ml_need_revalidate ml"
proof (cases "length (ml_view ml) \<ge> unat (ml_max_entries ml)")
  case True
  have "unat (ml_max_entries ml) \<ge> 10" using assms unfolding ml_ok_def word_le_nat_alt by simp
  then obtain e lrus where lrus: "ml_lrus ml = e # lrus" using True by (cases "ml_lrus ml") auto
  have "e \<notin> set lrus" using assms lrus by (simp add: ml_ok_def ml_entries_ok_def)
  then have "mac_key (ml\<lparr> ml_table := t, ml_lrus := lrus, ml_heap := (ml_heap ml)(e := None) \<rparr>) p = mac_key ml p"
    if "p \<in> set lrus" for p t using that by (auto simp: mac_key_def mac_entry_at_def)
  then show ?thesis
    using expire_lru [OF assms lrus] True lrus hmap_count_ml [OF assms]
    by (fastforce simp: Let_def mac_learning_make_room_def get_lru_hd)
next
  case False
  then show ?thesis using assms hmap_count_ml [OF assms] by (simp add: mac_learning_make_room_def)
qed

end
