(* ===== verification/Mac_Table.thy ===== *)
theory Mac_Table
  imports Mac_Learning
begin

text \<open>
  The operations of the MAC learning table refine those of a list of entries with distinct keys, least
  recently used first, in every state that a client can reach.  A client that learns a port writes it into
  the entry that \<open>mac_learning_insert\<close> returns, under the same lock, so that a call of the interface is an
  insertion followed by such a write.  Time does not go back.
\<close>

section \<open>Single operations\<close>

lemma insert_ok:
  assumes ok: "ml_ok ml" and new: "new \<notin> set (ml_lrus ml)" and mac: "length mac = 6"
  shows "\<exists>e ml'. mac_learning_insert now new mac vlan ml = Some (e, ml') \<and> ml_ok ml' \<and>
    ml_lrus ml' \<noteq> [] \<and> e = last (ml_lrus ml') \<and> mac_key ml' e = (mac, vlan) \<and>
    ml_view ml' = lru_insert (now + uint (ml_idle_time ml)) (unat (ml_max_entries ml)) mac vlan (ml_view ml) \<and>
    ml_idle_time ml' = ml_idle_time ml \<and> ml_max_entries ml' = ml_max_entries ml \<and>
    ml_flood_vlans ml' = ml_flood_vlans ml \<and> ml_need_revalidate ml' = ml_need_revalidate ml"
proof (cases "mac_entry_lookup ml mac vlan")
  case None
  then have key: "(mac, vlan) \<notin> mac_key ml ` set (ml_lrus ml)" using mac_entry_lookup_none [OF ok mac] by blast
  obtain ml1 where ml1: "mac_learning_make_room ml = Some ml1" "ml_ok ml1" "set (ml_lrus ml1) \<subseteq> set (ml_lrus ml)"
    "ml_view ml1 = (if length (ml_view ml) \<ge> unat (ml_max_entries ml) then tl (ml_view ml) else ml_view ml)"
    "mac_key ml1 ` set (ml_lrus ml1) \<subseteq> mac_key ml ` set (ml_lrus ml)"
    "ml_idle_time ml1 = ml_idle_time ml" "ml_max_entries ml1 = ml_max_entries ml"
    "ml_flood_vlans ml1 = ml_flood_vlans ml" "ml_need_revalidate ml1 = ml_need_revalidate ml"
    using make_room_ok [OF ok] by blast
  define ml2 where "ml2 = mac_learning_touch now new (mac_learning_new_entry new mac vlan ml1)"
  have "new \<notin> set (ml_lrus ml1)" "(mac, vlan) \<notin> mac_key ml1 ` set (ml_lrus ml1)" using ml1 new key by blast+
  then have ml2: "ml_ok ml2" "ml_lrus ml2 = ml_lrus ml1 @ [new]"
    "ml_view ml2 = ml_view ml1 @ [\<lparr> me_hash = 0, me_expires = now + uint (ml_idle_time ml1),
      me_grat_arp_lock = TIME_MIN, me_mac = mac, me_vlan = vlan, me_port = None \<rparr>]"
    using insert_new [OF ml1(2) _ _ mac, of new vlan now] by (simp_all add: ml2_def Let_def)
  have "(mac_entry_at ml2 new)\<lparr> me_hash := 0 \<rparr> = last (ml_view ml2)" by (simp add: ml_view_def ml2(2))
  from arg_cong [OF this, of me_mac] arg_cong [OF this, of me_vlan]
  have "mac_key ml2 new = (mac, vlan)" by (simp add: ml2(3) mac_key_def)
  moreover have "lru_find mac vlan (ml_view ml) = None" using lru_find_view [OF ok mac] None by simp
  moreover have "mac_learning_insert now new mac vlan ml = Some (new, ml2)"
    using None ml1(1) by (simp add: mac_learning_insert_def ml2_def)
  moreover have "ml_idle_time ml2 = ml_idle_time ml" "ml_max_entries ml2 = ml_max_entries ml"
    "ml_flood_vlans ml2 = ml_flood_vlans ml" "ml_need_revalidate ml2 = ml_need_revalidate ml"
    using ml1(6-) by (simp_all add: ml2_def mac_learning_touch_def mac_learning_new_entry_def Let_def)
  ultimately show ?thesis using ml2 ml1(4,6) by (simp add: lru_insert_def)
next
  case (Some e)
  then have e: "e \<in> set (ml_lrus ml)" "mac_key ml e = (mac, vlan)" using mac_entry_lookup_iff [OF ok mac] by blast+
  define ml2 where "ml2 = mac_learning_touch now e (ml\<lparr> ml_lrus := remove1 e (ml_lrus ml) \<rparr>)"
  have ml2: "ml_ok ml2" "ml_lrus ml2 = remove1 e (ml_lrus ml) @ [e]"
    "ml_view ml2 = filter (\<lambda>x. \<not> (me_mac x = mac \<and> me_vlan x = vlan)) (ml_view ml) @
       [(mac_entry_at ml e)\<lparr> me_hash := 0, me_expires := now + uint (ml_idle_time ml) \<rparr>]"
    using insert_known [OF ok e, of now] by (simp_all add: ml2_def Let_def)
  have "ml_heap ml e \<noteq> None" by (rule ml_heap_lrus [OF ok e(1)])
  then have "mac_key ml2 e = (mac, vlan)" using e(2) by (auto simp: ml2_def mac_learning_touch_def mac_key_def mac_entry_at_def)
  moreover have "lru_find mac vlan (ml_view ml) = Some ((mac_entry_at ml e)\<lparr> me_hash := 0 \<rparr>)"
    using lru_find_view [OF ok mac] Some by simp
  moreover have "mac_learning_insert now new mac vlan ml = Some (e, ml2)"
    using Some by (simp add: mac_learning_insert_def ml2_def)
  moreover have "ml_idle_time ml2 = ml_idle_time ml" "ml_max_entries ml2 = ml_max_entries ml"
    "ml_flood_vlans ml2 = ml_flood_vlans ml" "ml_need_revalidate ml2 = ml_need_revalidate ml"
    by (simp_all add: ml2_def mac_learning_touch_def)
  ultimately show ?thesis using ml2 by (simp add: lru_insert_def)
qed

lemma normalize_idle_time_range: "15 \<le> normalize_idle_time t" "normalize_idle_time t \<le> 3600"
  by (simp_all add: normalize_idle_time_def not_less)

lemma fold_heap_update:
  "distinct es \<Longrightarrow> fold (\<lambda>e heap. heap(e := map_option f (heap e))) es heap p =
    (if p \<in> set es then map_option f (heap p) else heap p)"
  by (induction es arbitrary: heap) auto

lemma sint_small:
  assumes "(x :: u32) \<le> 3600"
  shows "sint x = uint x"
proof -
  have "uint x \<le> 3600" using assms by (simp add: word_le_def)
  then show ?thesis unfolding sint_uint by (intro signed_take_bit_int_eq_self) (auto intro: order_trans [OF _ uint_ge_0])
qed

lemma set_idle_time_fields:
  assumes "ml_ok ml"
  shows "ml_lrus (mac_learning_set_idle_time t ml) = ml_lrus ml" "ml_table (mac_learning_set_idle_time t ml) = ml_table ml"
    "key_hash (mac_learning_set_idle_time t ml) = key_hash ml" "ml_max_entries (mac_learning_set_idle_time t ml) = ml_max_entries ml"
    "ml_idle_time (mac_learning_set_idle_time t ml) = normalize_idle_time t"
    "dom (ml_heap (mac_learning_set_idle_time t ml)) = dom (ml_heap ml)"
    and "p \<in> set (ml_lrus ml) \<Longrightarrow> mac_entry_at (mac_learning_set_idle_time t ml) p = (mac_entry_at ml p)
      \<lparr> me_expires := me_expires (mac_entry_at ml p) + (uint (normalize_idle_time t) - uint (ml_idle_time ml)) \<rparr>"
proof -
  have d: "distinct (ml_lrus ml)" and idle: "ml_idle_time ml \<le> 3600" using assms by (simp_all add: ml_ok_def ml_entries_ok_def)
  have b: "uint (normalize_idle_time t) \<le> 3600" "uint (ml_idle_time ml) \<le> 3600"
    using normalize_idle_time_range [of t] idle by (simp_all add: word_le_def)
  have delta: "int32 (sint (normalize_idle_time t) - sint (ml_idle_time ml)) = uint (normalize_idle_time t) - uint (ml_idle_time ml)"
    unfolding sint_small [OF normalize_idle_time_range(2)] sint_small [OF idle]
    by (rule int32_id) (use b uint_ge_0 [of "normalize_idle_time t"] uint_ge_0 [of "ml_idle_time ml"] in linarith)+
  show "ml_lrus (mac_learning_set_idle_time t ml) = ml_lrus ml" "ml_table (mac_learning_set_idle_time t ml) = ml_table ml"
    "key_hash (mac_learning_set_idle_time t ml) = key_hash ml" "ml_max_entries (mac_learning_set_idle_time t ml) = ml_max_entries ml"
    "ml_idle_time (mac_learning_set_idle_time t ml) = normalize_idle_time t"
    by (simp_all add: mac_learning_set_idle_time_def Let_def key_hash_def mac_table_hash_def fun_eq_iff)
  show "dom (ml_heap (mac_learning_set_idle_time t ml)) = dom (ml_heap ml)"
    by (auto simp: mac_learning_set_idle_time_def Let_def fold_heap_update [OF d] split: if_splits)
  assume p: "p \<in> set (ml_lrus ml)"
  then have "ml_heap ml p \<noteq> None" by (rule ml_heap_lrus [OF assms])
  then show "mac_entry_at (mac_learning_set_idle_time t ml) p = (mac_entry_at ml p)
      \<lparr> me_expires := me_expires (mac_entry_at ml p) + (uint (normalize_idle_time t) - uint (ml_idle_time ml)) \<rparr>"
    using p by (auto simp: mac_learning_set_idle_time_def Let_def fold_heap_update [OF d] mac_entry_at_def delta)
qed

lemma set_idle_time_ok:
  assumes ok: "ml_ok ml"
  shows "ml_ok (mac_learning_set_idle_time t ml)"
proof -
  let ?ml = "mac_learning_set_idle_time t ml"
  note f = set_idle_time_fields [OF ok, where t = t]
  have k: "mac_key ?ml p = mac_key ml p" if "p \<in> set (ml_lrus ml)" for p using f(7) [OF that] by (simp add: mac_key_def)
  have h: "me_hash (mac_entry_at ?ml p) = me_hash (mac_entry_at ml p)" "me_mac (mac_entry_at ?ml p) = me_mac (mac_entry_at ml p)"
    if "p \<in> set (ml_lrus ml)" for p using f(7) [OF that] by simp_all
  have "(\<lambda>p. (me_hash (mac_entry_at ?ml p), p)) ` set (ml_lrus ml) = (\<lambda>p. (me_hash (mac_entry_at ml p), p)) ` set (ml_lrus ml)"
    by (rule image_cong) (simp_all add: h)
  moreover have "inj_on (mac_key ?ml) (set (ml_lrus ml)) = inj_on (mac_key ml) (set (ml_lrus ml))"
    by (rule inj_on_cong) (rule k)
  ultimately show ?thesis
    using ok normalize_idle_time_range [of t] by (simp add: ml_ok_def ml_entries_ok_def f(1-6) h k)
qed

lemma set_idle_time_view:
  assumes "ml_ok ml"
  shows "ml_view (mac_learning_set_idle_time t ml) =
    map (\<lambda>e. e\<lparr> me_expires := me_expires e + (uint (normalize_idle_time t) - uint (ml_idle_time ml)) \<rparr>) (ml_view ml)"
  by (simp add: ml_view_def set_idle_time_fields [OF assms])

lemma set_max_entries_ok:
  assumes "ml_ok ml"
  shows "ml_ok (mac_learning_set_max_entries m ml)" "ml_view (mac_learning_set_max_entries m ml) = ml_view ml"
  using assms by (simp_all add: ml_ok_def ml_entries_ok_def mac_learning_set_max_entries_def ml_view_def not_less)

section \<open>Reachable tables\<close>

text \<open>A write of the client to the entry it was given: the key and the expiration stay, and a port is set.\<close>

definition writes_port :: "(mac_entry \<Rightarrow> mac_entry) \<Rightarrow> bool" where
  "writes_port f \<longleftrightarrow> keeps_key f \<and> (\<forall>x. me_expires (f x) = me_expires x \<and> me_port (f x) \<noteq> None)"

inductive ml_reachable :: "int \<Rightarrow> mac_learning \<Rightarrow> bool" where
  create: "ml_reachable now (mac_learning_create random idle_time)"
| learn: "ml_reachable t ml \<Longrightarrow> t \<le> now \<Longrightarrow> ml_heap ml new = None \<Longrightarrow> length mac = 6 \<Longrightarrow>
    mac_learning_insert now new mac vlan ml = Some (e, ml') \<Longrightarrow> writes_port f \<Longrightarrow> ml_reachable now (ml_update_entry e f ml')"
| changed: "ml_reachable t ml \<Longrightarrow> ml_reachable t (mac_learning_changed ml)"
| set_flood_vlans: "ml_reachable t ml \<Longrightarrow> mac_learning_set_flood_vlans b ml = (c, ml') \<Longrightarrow> ml_reachable t ml'"
| set_idle_time: "ml_reachable t ml \<Longrightarrow> ml_reachable t (mac_learning_set_idle_time idle_time ml)"
| set_max_entries: "ml_reachable t ml \<Longrightarrow> ml_reachable t (mac_learning_set_max_entries max_entries ml)"
| expire: "ml_reachable t ml \<Longrightarrow> e \<in> set (ml_lrus ml) \<Longrightarrow> mac_learning_expire e ml = Some ml' \<Longrightarrow> ml_reachable t ml'"
| flush: "ml_reachable t ml \<Longrightarrow> mac_learning_flush ml = Some ml' \<Longrightarrow> ml_reachable t ml'"
| run: "ml_reachable t ml \<Longrightarrow> t \<le> now \<Longrightarrow> mac_learning_run now ml = Some (b, ml') \<Longrightarrow> ml_reachable now ml'"

text \<open>
  In a reachable table the entries expire in the order of \<open>lrus\<close>, none later than the idle time from now;
  every entry has a port; and there are at most a million of them.
\<close>

definition view_good :: "int \<Rightarrow> mac_entry list \<Rightarrow> bool" where
  "view_good bound es \<longleftrightarrow> sorted (map me_expires es) \<and> length es \<le> 1000000 \<and>
    (\<forall>x \<in> set es. me_expires x \<le> bound \<and> me_port x \<noteq> None)"

definition ml_good :: "int \<Rightarrow> mac_learning \<Rightarrow> bool" where
  "ml_good t ml \<longleftrightarrow> ml_ok ml \<and> view_good (t + uint (ml_idle_time ml)) (ml_view ml)"

lemma view_good_drop: "view_good b es \<Longrightarrow> view_good b (drop k es)"
  by (auto simp: view_good_def drop_map [symmetric] sorted_wrt_drop dest: in_set_dropD)

lemma view_good_tl: "view_good b es \<Longrightarrow> view_good b (tl es)"
  using view_good_drop [of b es 1] by (simp add: drop_Suc)

lemma view_good_filter: "view_good b es \<Longrightarrow> view_good b (filter P es)"
  by (auto simp: view_good_def sorted_filter intro: order_trans [OF length_filter_le])

lemma view_good_mono: "view_good b es \<Longrightarrow> b \<le> b' \<Longrightarrow> view_good b' es"
  by (force simp: view_good_def)

lemma view_good_snoc:
  "view_good b es \<Longrightarrow> length es < 1000000 \<Longrightarrow> me_expires x = b \<Longrightarrow> me_port x \<noteq> None \<Longrightarrow> view_good b (es @ [x])"
  by (auto simp: view_good_def sorted_append)

lemma lru_find_mem: "lru_find mac vlan es = Some e \<Longrightarrow> e \<in> set es \<and> me_mac e = mac \<and> me_vlan e = vlan"
  by (auto simp: lru_find_def find_Some_iff in_set_conv_nth)

lemma lru_insert_split:
  obtains es' x where "lru_insert expires cap mac vlan es = es' @ [x]" "me_expires x = expires" "me_mac x = mac" "me_vlan x = vlan"
    "\<And>b. view_good b es \<Longrightarrow> view_good b es'" "0 < cap \<Longrightarrow> cap \<le> 1000000 \<Longrightarrow> length es \<le> 1000000 \<Longrightarrow> length es' < 1000000"
proof (cases "lru_find mac vlan es")
  case None
  let ?x = "\<lparr> me_hash = 0, me_expires = expires, me_grat_arp_lock = TIME_MIN, me_mac = mac, me_vlan = vlan, me_port = None \<rparr>"
  show ?thesis
    by (rule that [of "if length es \<ge> cap then tl es else es" ?x])
      (use None view_good_tl in \<open>auto simp: lru_insert_def\<close>)
next
  case (Some e)
  then have "length (filter (\<lambda>e. \<not> (me_mac e = mac \<and> me_vlan e = vlan)) es) < length es"
    using lru_find_mem [OF Some] by (intro length_filter_less) auto
  then show ?thesis
    using Some that [of "filter (\<lambda>e. \<not> (me_mac e = mac \<and> me_vlan e = vlan)) es"] view_good_filter lru_find_mem [OF Some]
    by (auto simp: lru_insert_def)
qed

lemma view_update_entry:
  assumes "ml_ok ml" "ml_lrus ml \<noteq> []" "e = last (ml_lrus ml)"
  shows "ml_view (ml_update_entry e f ml) = butlast (ml_view ml) @ [(f (mac_entry_at ml e))\<lparr> me_hash := 0 \<rparr>]"
proof -
  obtain lrus where lrus: "ml_lrus ml = lrus @ [e]" using assms(2,3) by (metis append_butlast_last_id)
  then have "e \<notin> set lrus" using assms(1) by (simp add: ml_ok_def ml_entries_ok_def)
  moreover have "ml_heap ml e \<noteq> None" by (rule ml_heap_lrus [OF assms(1)]) (simp add: lrus)
  ultimately show ?thesis by (auto simp: ml_view_def lrus mac_entry_at_update)
qed

lemma ml_good_learn:
  assumes good: "ml_good t ml" and "t \<le> now" "ml_heap ml new = None" "length mac = 6"
    "mac_learning_insert now new mac vlan ml = Some (e, ml')" "writes_port f"
  shows "ml_good now (ml_update_entry e f ml')"
proof -
  have ok: "ml_ok ml" and v: "view_good (t + uint (ml_idle_time ml)) (ml_view ml)" using good by (auto simp: ml_good_def)
  have "new \<notin> set (ml_lrus ml)" using ml_heap_lrus [OF ok] assms(3) by blast
  from insert_ok [OF ok this assms(4), of now vlan] assms(5)
  have ml': "ml_ok ml'" "ml_lrus ml' \<noteq> []" "e = last (ml_lrus ml')" "ml_idle_time ml' = ml_idle_time ml"
    "ml_view ml' = lru_insert (now + uint (ml_idle_time ml)) (unat (ml_max_entries ml)) mac vlan (ml_view ml)" by auto
  obtain es x where es: "ml_view ml' = es @ [x]" "me_expires x = now + uint (ml_idle_time ml)"
    "\<And>b. view_good b (ml_view ml) \<Longrightarrow> view_good b es"
    "0 < unat (ml_max_entries ml) \<Longrightarrow> unat (ml_max_entries ml) \<le> 1000000 \<Longrightarrow> length (ml_view ml) \<le> 1000000 \<Longrightarrow> length es < 1000000"
    using lru_insert_split unfolding ml'(5) by metis
  have "length es < 1000000"
    by (rule es(4)) (use ok v in \<open>simp_all add: ml_ok_def word_le_nat_alt view_good_def\<close>)
  moreover have "view_good (now + uint (ml_idle_time ml)) es"
    using view_good_mono [OF es(3) [OF v]] assms(2) by simp
  moreover have "(mac_entry_at ml' e)\<lparr> me_hash := 0 \<rparr> = x"
    using arg_cong [OF es(1), of last] ml'(2,3) by (simp add: ml_view_def last_map)
  then have "me_expires (mac_entry_at ml' e) = now + uint (ml_idle_time ml)" using es(2) by auto
  ultimately have "view_good (now + uint (ml_idle_time ml)) (ml_view (ml_update_entry e f ml'))"
    unfolding view_update_entry [OF ml'(1-3)] using assms(6) es(1) by (simp add: view_good_snoc writes_port_def)
  moreover have "ml_ok (ml_update_entry e f ml')"
    by (rule update_entry_ok) (use ml' assms(6) in \<open>simp_all add: writes_port_def\<close>)
  ultimately show ?thesis using ml'(4) by (simp add: ml_good_def)
qed

lemma mac_learning_run_ok:
  assumes "ml_ok ml"
  obtains ml' where "mac_learning_run now ml = Some (ml_need_revalidate ml \<or> length (ml_view ml') < length (ml_view ml), ml')"
    "ml_ok ml'" "ml_view ml' = lru_prune now (unat (ml_max_entries ml)) (ml_view ml)" "\<not> ml_need_revalidate ml'"
    "ml_idle_time ml' = ml_idle_time ml" "ml_max_entries ml' = ml_max_entries ml"
proof -
  obtain ml1 where "mac_learning_run_loop now ml = Some ml1" "ml_ok ml1"
    "ml_view ml1 = lru_prune now (unat (ml_max_entries ml)) (ml_view ml)"
    "ml_need_revalidate ml1 = (ml_need_revalidate ml \<or> length (ml_view ml1) < length (ml_view ml))"
    "ml_idle_time ml1 = ml_idle_time ml" "ml_max_entries ml1 = ml_max_entries ml"
    using run_loop_ok [OF assms, of now] by blast
  then show ?thesis
    by (intro that [of "ml1\<lparr> ml_need_revalidate := False \<rparr>"]) (simp_all add: mac_learning_run_def)
qed

lemma ml_good_expire:
  assumes "ml_good t ml" "e \<in> set (ml_lrus ml)" "mac_learning_expire e ml = Some ml'"
  shows "ml_good t ml'"
proof -
  have ok: "ml_ok ml" using assms(1) by (simp add: ml_good_def)
  obtain t' where ml': "ml' = ml\<lparr> ml_table := t', ml_lrus := remove1 e (ml_lrus ml), ml_heap := (ml_heap ml)(e := None) \<rparr>"
    "ml_ok ml'" using expire_ok [OF ok assms(2)] assms(3) by (auto simp: Let_def)
  have d: "distinct (ml_lrus ml)" using ok by (simp add: ml_ok_def ml_entries_ok_def)
  obtain a b where ab: "ml_lrus ml = a @ e # b" using assms(2) by (meson split_list)
  then have "e \<notin> set a" "e \<notin> set b" using d by auto
  then have "ml_view ml' = map (\<lambda>p. (mac_entry_at ml p)\<lparr> me_hash := 0 \<rparr>) (a @ b)"
    by (auto simp: ml'(1) ml_view_def mac_entry_at_def ab remove1_append)
  moreover have "ml_view ml = map (\<lambda>p. (mac_entry_at ml p)\<lparr> me_hash := 0 \<rparr>) (a @ e # b)" by (simp add: ml_view_def ab)
  ultimately have "view_good (t + uint (ml_idle_time ml)) (ml_view ml')"
    using assms(1) by (auto simp: ml_good_def view_good_def sorted_append)
  then show ?thesis using ml' by (simp add: ml_good_def)
qed

lemma ml_reachable_good: "ml_reachable t ml \<Longrightarrow> ml_good t ml"
proof (induction rule: ml_reachable.induct)
  case (create now random idle_time)
  then show ?case by (simp add: ml_good_def ml_ok_create) (simp add: mac_learning_create_def ml_view_def view_good_def)
next
  case (learn t ml now new mac vlan e ml' f)
  then show ?case using ml_good_learn by blast
next
  case (set_flood_vlans t ml b c ml')
  then show ?case
    by (auto simp: mac_learning_set_flood_vlans_def ml_good_def split: if_splits)
next
  case (set_idle_time t ml idle_time)
  then have ok: "ml_ok ml" by (simp add: ml_good_def)
  have "sorted (map (\<lambda>x. x + d) xs) = sorted xs" for d :: int and xs by (simp add: sorted_wrt_map)
  from this [of _ "map me_expires (ml_view ml)"]
  have "view_good (t + uint (normalize_idle_time idle_time)) (ml_view (mac_learning_set_idle_time idle_time ml))"
    using set_idle_time.IH by (auto simp: ml_good_def view_good_def set_idle_time_view [OF ok] comp_def)
  then show ?case using set_idle_time_ok [OF ok] by (simp add: ml_good_def set_idle_time_fields [OF ok])
next
  case (set_max_entries t ml max_entries)
  then show ?case
    using set_max_entries_ok [of ml] by (simp add: ml_good_def) (simp add: mac_learning_set_max_entries_def)
next
  case (expire t ml e ml')
  then show ?case using ml_good_expire by blast
next
  case (flush t ml ml')
  then show ?case using flush_ok [of ml] by (auto simp: ml_good_def view_good_def)
next
  case (run t ml now b ml')
  obtain k where "lru_prune now (unat (ml_max_entries ml)) (ml_view ml) = drop k (ml_view ml)" using lru_prune_suffix by blast
  moreover obtain ml1 where "ml' = ml1" "ml_ok ml1" "ml_view ml1 = lru_prune now (unat (ml_max_entries ml)) (ml_view ml)"
    "ml_idle_time ml1 = ml_idle_time ml"
    using mac_learning_run_ok [of ml now] run by (metis ml_good_def option.inject prod.inject)
  ultimately show ?case
    using run view_good_drop view_good_mono [of "t + uint (ml_idle_time ml)" _ "now + uint (ml_idle_time ml)"]
    by (simp add: ml_good_def)
qed (simp add: mac_learning_changed_def ml_good_def)

section \<open>Properties\<close>

lemma hmap_count_view: "ml_ok ml \<Longrightarrow> hmap_count (ml_table ml) = length (ml_view ml)"
  by (simp add: hmap_count_ml)

lemma length_drop_less: "length (drop k xs) < length xs \<longleftrightarrow> drop k xs \<noteq> xs"
  by (cases xs; cases k) (auto dest: arg_cong [of _ _ length])

lemma sample_table:
  "\<exists>ml. ml_reachable 0 ml \<and> ml_max_entries ml = 2048 \<and> \<not> ml_need_revalidate ml \<and> ml_flood_vlans ml = None \<and> ml_idle_time ml = 300 \<and>
    ml_view ml = [\<lparr> me_hash = 0, me_expires = 300, me_grat_arp_lock = TIME_MIN,
      me_mac = [2, 0, 0, 0, 0, 1], me_vlan = 9, me_port = Some 1 \<rparr>]"
proof -
  let ?c = "mac_learning_create 7 300" and ?m = "[2, 0, 0, 0, 0, 1] :: eth_addr" and ?f = "\<lambda>x. x\<lparr> me_port := Some 1 \<rparr>"
  have c: "ml_lrus ?c = []" "ml_view ?c = []" "ml_idle_time ?c = 300" "ml_max_entries ?c = 2048" "\<not> ml_need_revalidate ?c"
    "ml_heap ?c 3 = None" "ml_flood_vlans ?c = None"
    by (simp_all add: mac_learning_create_def ml_view_def normalize_idle_time_def MAC_DEFAULT_MAX_def)
  obtain e ml where ml: "mac_learning_insert 0 3 ?m 9 ?c = Some (e, ml)" "ml_ok ml" "ml_lrus ml \<noteq> []" "e = last (ml_lrus ml)"
    "ml_view ml = lru_insert 300 2048 ?m 9 []" "ml_max_entries ml = 2048" "\<not> ml_need_revalidate ml" "ml_flood_vlans ml = None" "ml_idle_time ml = 300"
    using insert_ok [OF ml_ok_create, of 3 7 300 ?m 0 9] c by auto
  have "writes_port ?f" by (simp add: writes_port_def keeps_key_def)
  then have "ml_reachable 0 (ml_update_entry e ?f ml)"
    by (intro ml_reachable.learn [OF ml_reachable.create [of 0 7 300] _ _ _ ml(1)]) (use c in simp_all)
  moreover have view: "ml_view ml = [\<lparr> me_hash = 0, me_expires = 300, me_grat_arp_lock = TIME_MIN, me_mac = ?m, me_vlan = 9, me_port = None \<rparr>]"
    unfolding ml(5) by (simp add: lru_insert_def lru_find_def)
  moreover have "(mac_entry_at ml e)\<lparr> me_hash := 0 \<rparr> = last (ml_view ml)" using ml(3,4) by (simp add: ml_view_def last_map)
  then have "(mac_entry_at ml e)\<lparr> me_port := Some 1, me_hash := 0 \<rparr> =
      \<lparr> me_hash = 0, me_expires = 300, me_grat_arp_lock = TIME_MIN, me_mac = ?m, me_vlan = 9, me_port = Some 1 \<rparr>"
    unfolding view by (cases "mac_entry_at ml e") simp
  ultimately show ?thesis
    using ml(6-9) by (intro exI [of _ "ml_update_entry e ?f ml"]) (simp add: view_update_entry [OF ml(2-4)])
qed

text \<open>
  C30.  Learning refines a least-recently-used list: in every reachable table \<open>mac_learning_insert\<close> succeeds,
  whatever the hash function does, and its effect on the observable entries is that of \<open>lru_insert\<close>: a known
  address is moved to the end and its expiration renewed, with port and lock kept, and a new one is appended,
  in the place of the first entry when the table is full.  The entry returned is the one that a search for
  the address finds from then on, and the table never grows beyond the configured maximum by this.
\<close>

theorem mac_learning_refines_lru:
  assumes "ml_reachable t ml" "t \<le> now" "ml_heap ml new = None" "length mac = 6"
  shows "\<exists>e ml'. mac_learning_insert now new mac vlan ml = Some (e, ml') \<and>
    ml_view ml' = lru_insert (now + uint (ml_idle_time ml)) (unat (ml_max_entries ml)) mac vlan (ml_view ml) \<and>
    mac_entry_lookup ml' mac vlan = Some e \<and>
    hmap_count (ml_table ml') \<le> max (hmap_count (ml_table ml)) (unat (ml_max_entries ml))"
proof -
  have ok: "ml_ok ml" using ml_reachable_good [OF assms(1)] by (simp add: ml_good_def)
  then have new: "new \<notin> set (ml_lrus ml)" using ml_heap_lrus assms(3) by blast
  obtain e ml' where ml': "mac_learning_insert now new mac vlan ml = Some (e, ml')" "ml_ok ml'" "ml_lrus ml' \<noteq> []"
    "e = last (ml_lrus ml')" "mac_key ml' e = (mac, vlan)"
    "ml_view ml' = lru_insert (now + uint (ml_idle_time ml)) (unat (ml_max_entries ml)) mac vlan (ml_view ml)"
    using insert_ok [OF ok new assms(4)] by blast
  have pos: "0 < unat (ml_max_entries ml)" using ok by (simp add: ml_ok_def word_le_nat_alt)
  have "length (lru_insert expires cap mac vlan es) \<le> max (length es) cap" if "0 < cap" for expires cap es
  proof (cases "lru_find mac vlan es")
    case (Some x)
    then have "length (filter (\<lambda>e. \<not> (me_mac e = mac \<and> me_vlan e = vlan)) es) < length es"
      using lru_find_mem by (intro length_filter_less) auto
    then show ?thesis using Some by (simp add: lru_insert_def)
  qed (use that in \<open>auto simp: lru_insert_def\<close>)
  then have "length (ml_view ml') \<le> max (length (ml_view ml)) (unat (ml_max_entries ml))" unfolding ml'(6) using pos .
  moreover have "mac_entry_lookup ml' mac vlan = Some e"
    unfolding mac_entry_lookup_iff [OF ml'(2) assms(4)] using ml' by simp
  ultimately show ?thesis
    using ml'(1,6) hmap_count_view [OF ok] hmap_count_view [OF ml'(2)] by (intro exI [of _ e] exI [of _ ml']) simp
qed

theorem mac_learning_refines_lru_witness:
  "\<exists>e ml'. mac_learning_insert 100 3 [2, 0, 0, 0, 0, 1] 9 (mac_learning_create 7 300) = Some (e, ml') \<and>
    ml_view ml' = [\<lparr> me_hash = 0, me_expires = 400, me_grat_arp_lock = TIME_MIN,
      me_mac = [2, 0, 0, 0, 0, 1], me_vlan = 9, me_port = None \<rparr>] \<and>
    mac_entry_lookup ml' [2, 0, 0, 0, 0, 1] 9 = Some e"
proof -
  have c: "ml_view (mac_learning_create 7 300) = []" "ml_idle_time (mac_learning_create 7 300) = 300"
    "unat (ml_max_entries (mac_learning_create 7 300)) = 2048" "ml_heap (mac_learning_create 7 300) 3 = None"
    by (simp_all add: mac_learning_create_def ml_view_def normalize_idle_time_def MAC_DEFAULT_MAX_def)
  show ?thesis
    using mac_learning_refines_lru [OF ml_reachable.create [of 0 7 300], of 100 3 "[2, 0, 0, 0, 0, 1]" 9] c
    by (auto simp: lru_insert_def lru_find_def)
qed

text \<open>
  C31.  \<open>mac_learning_run\<close> ends, keeps of the newest entries up to the configured maximum exactly those that
  have not expired yet, in their order, and reports whether it removed anything or a change was pending.
  It looks at the front of the list only; that this is enough rests on the entries expiring in the order of
  the list, which every operation maintains, a change of the idle time included.
\<close>

theorem mac_learning_run_exact:
  assumes "ml_reachable t ml" "t \<le> now"
  shows "\<exists>ml'. mac_learning_run now ml = Some (ml_need_revalidate ml \<or> ml_view ml' \<noteq> ml_view ml, ml') \<and>
    ml_view ml' = filter (\<lambda>e. now < me_expires e) (drop (length (ml_view ml) - unat (ml_max_entries ml)) (ml_view ml)) \<and>
    \<not> ml_need_revalidate ml'"
proof -
  have ok: "ml_ok ml" and s: "sorted (map me_expires (ml_view ml))"
    using ml_reachable_good [OF assms(1)] by (simp_all add: ml_good_def view_good_def)
  obtain ml' where ml': "mac_learning_run now ml = Some (ml_need_revalidate ml \<or> length (ml_view ml') < length (ml_view ml), ml')"
    "ml_view ml' = lru_prune now (unat (ml_max_entries ml)) (ml_view ml)" "\<not> ml_need_revalidate ml'"
    using mac_learning_run_ok [OF ok, of now] by metis
  obtain k where "ml_view ml' = drop k (ml_view ml)" using lru_prune_suffix ml'(2) by metis
  then have "length (ml_view ml') < length (ml_view ml) \<longleftrightarrow> ml_view ml' \<noteq> ml_view ml"
    using length_drop_less by metis
  then show ?thesis using ml' lru_prune_sorted [OF s] by simp
qed

theorem mac_learning_run_exact_witness:
  "\<exists>ml ml'. length (ml_view ml) = 1 \<and> mac_learning_run 300 ml = Some (True, ml') \<and> ml_view ml' = []"
proof -
  obtain ml where ml: "ml_reachable 0 ml" "ml_max_entries ml = 2048"
    "ml_view ml = [\<lparr> me_hash = 0, me_expires = 300, me_grat_arp_lock = TIME_MIN,
      me_mac = [2, 0, 0, 0, 0, 1], me_vlan = 9, me_port = Some 1 \<rparr>]"
    using sample_table by blast
  obtain ml' where "mac_learning_run 300 ml = Some (ml_need_revalidate ml \<or> ml_view ml' \<noteq> ml_view ml, ml')" "ml_view ml' = []"
    using mac_learning_run_exact [OF ml(1), of 300] ml(2,3) by auto
  then show ?thesis using ml(3) by (intro exI [of _ ml] exI [of _ ml']) (simp del: length_ml_view)
qed

text \<open>
  C32.  Every reachable table is well formed as far as a client can see: it has at most a million entries with
  distinct keys, each with a port, so that the assertion in \<open>mac_learning_lookup\<close> holds; and the lookup
  returns the entry of the list that has the address and VLAN, if there is one, unless the address is a
  multicast address or learning is off in the VLAN.
\<close>

theorem mac_learning_lookup_total:
  assumes "ml_reachable t ml" "length dst = 6"
  shows "\<exists>e. mac_learning_lookup dst vlan ml = Some e \<and>
    map_option (\<lambda>e. (mac_entry_at ml e)\<lparr> me_hash := 0 \<rparr>) e =
      (if eth_addr_is_multicast dst \<or> \<not> is_learning_vlan ml vlan then None else lru_find dst vlan (ml_view ml)) \<and>
    distinct (map (\<lambda>e. (me_mac e, me_vlan e)) (ml_view ml)) \<and> hmap_count (ml_table ml) \<le> 1000000 \<and>
    None \<notin> me_port ` set (ml_view ml)"
proof -
  have ok: "ml_ok ml" and v: "view_good (t + uint (ml_idle_time ml)) (ml_view ml)"
    using ml_reachable_good [OF assms(1)] by (simp_all add: ml_good_def)
  have "me_port (mac_entry_at ml e) \<noteq> None" if "mac_entry_lookup ml dst vlan = Some e" for e
  proof -
    have "e \<in> set (ml_lrus ml)" using that mac_entry_lookup_iff [OF ok assms(2)] by blast
    then show ?thesis using v by (auto simp: view_good_def ml_view_def)
  qed
  moreover have "None \<notin> me_port ` set (ml_view ml)" "hmap_count (ml_table ml) \<le> 1000000"
    using v hmap_count_ml [OF ok] by (auto simp: view_good_def)
  ultimately show ?thesis
    using ml_ok_keys [OF ok] lru_find_view [OF ok assms(2), of vlan]
    by (auto simp: mac_learning_lookup_def split: option.split)
qed

theorem mac_learning_lookup_total_witness:
  "\<exists>ml e. mac_learning_lookup [2, 0, 0, 0, 0, 1] 9 ml = Some (Some e) \<and> me_port (mac_entry_at ml e) = Some 1"
proof -
  obtain ml where ml: "ml_reachable 0 ml" "ml_flood_vlans ml = None"
    "ml_view ml = [\<lparr> me_hash = 0, me_expires = 300, me_grat_arp_lock = TIME_MIN,
      me_mac = [2, 0, 0, 0, 0, 1], me_vlan = 9, me_port = Some 1 \<rparr>]"
    using sample_table by blast
  obtain e where e: "mac_learning_lookup [2, 0, 0, 0, 0, 1] 9 ml = Some e"
    "map_option (\<lambda>e. (mac_entry_at ml e)\<lparr> me_hash := 0 \<rparr>) e = lru_find [2, 0, 0, 0, 0, 1] 9 (ml_view ml)"
    using mac_learning_lookup_total [OF ml(1), of "[2, 0, 0, 0, 0, 1]" 9] ml(2)
    by (auto simp: eth_addr_is_multicast_def is_learning_vlan_def)
  then obtain p where p: "e = Some p" "(mac_entry_at ml p)\<lparr> me_hash := 0 \<rparr> = hd (ml_view ml)"
    by (auto simp: ml(3) lru_find_def)
  have "me_port (mac_entry_at ml p) = me_port ((mac_entry_at ml p)\<lparr> me_hash := 0 \<rparr>)" by simp
  also have "\<dots> = Some 1" unfolding p(2) ml(3) by simp
  finally have "me_port (mac_entry_at ml p) = Some 1" .
  then show ?thesis using e(1) p(1) by blast
qed

end
