(* ===== verification/Xlate_Normal.thy ===== *)
theory Xlate_Normal
  imports Bond Mac_Table Stp
begin

text \<open>
  The translation of \<open>OFPP_NORMAL\<close> in \<open>ofproto/ofproto-dpif-xlate.c\<close>: VLANs of bundles, MAC learning, admission,
  forwarding to the learned bundle and flooding, down to the datapath actions.  A bundle is named by its
  \<open>ofbundle\<close> handle, 0 being that of \<open>ofpp_none_bundle\<close>, and a port by its \<open>ofport\<close> handle.  A bond belongs to one
  bundle and is kept in it.  The time in seconds and the address of a new MAC learning entry are arguments.
  A null or dangling pointer that would be followed gives \<open>None\<close>.

  The ports are neither patch nor tunnel ports, there are no VLAN splinters and no QoS queues, and the
  datapath does not support recirculation (\<open>enable_recirc\<close> is false); of the mirrors only the set of the
  bundles reserved for their output is kept.  Locks, logging, statistics and \<open>xcache\<close> are left out.
\<close>

section \<open>Definitions\<close>

datatype port_vlan_mode = PORT_VLAN_ACCESS | PORT_VLAN_TRUNK | PORT_VLAN_NATIVE_TAGGED | PORT_VLAN_NATIVE_UNTAGGED

definition OFPP_CONTROLLER :: u16 where "OFPP_CONTROLLER = 0xfffd"

definition OFPP_NONE :: u16 where "OFPP_NONE = 0xffff"

definition OFPUTIL_PC_NO_RECV :: u32 where "OFPUTIL_PC_NO_RECV = push_bit 2 1"

definition OFPUTIL_PC_NO_RECV_STP :: u32 where "OFPUTIL_PC_NO_RECV_STP = push_bit 3 1"

definition OFPUTIL_PC_NO_FWD :: u32 where "OFPUTIL_PC_NO_FWD = push_bit 5 1"

definition ARP_OP_REQUEST :: u8 where "ARP_OP_REQUEST = 1"

definition ARP_OP_REPLY :: u8 where "ARP_OP_REPLY = 2"

definition FLOW_DL_TYPE_NONE :: u16 where "FLOW_DL_TYPE_NONE = 0x5ff"

record xbundle =
  xb_ofbundle :: addr
  xb_xports :: "addr list"
  xb_bond :: "bond option"
  xb_vlan_mode :: port_vlan_mode
  xb_vlan :: int
  xb_trunks :: "bool list option"
  xb_use_priority_tags :: bool
  xb_floodable :: bool

record xport =
  xp_ofport :: addr
  xp_ofp_port :: u16
  xp_odp_port :: "u32 option"
  xp_xbundle :: "addr option"
  xp_config :: u32
  xp_stp_port_no :: int

record xbridge =
  xbr_xbundles :: "xbundle list"
  xbr_xports :: "xport list"
  xbr_ml :: mac_learning
  xbr_mirror_out :: "addr \<Rightarrow> u32"
  xbr_stp :: "stp option"
  xbr_forward_bpdu :: bool

datatype odp_action = OVS_ACTION_ATTR_POP_VLAN | OVS_ACTION_ATTR_PUSH_VLAN u16 | OVS_ACTION_ATTR_OUTPUT u32

record xlate_ctx =
  cx_xbridge :: xbridge
  cx_flow :: flow
  cx_base_flow :: flow
  cx_wc :: flow_wildcards
  cx_may_learn :: bool
  cx_slow :: bool
  cx_odp_actions :: "odp_action list"

definition ofpp_none_bundle :: xbundle where
  "ofpp_none_bundle = \<lparr> xb_ofbundle = 0, xb_xports = [], xb_bond = None, xb_vlan_mode = PORT_VLAN_TRUNK, xb_vlan = 0,
    xb_trunks = None, xb_use_priority_tags = False, xb_floodable = False \<rparr>"

definition is_stp :: "flow \<Rightarrow> bool" where
  "is_stp flow \<longleftrightarrow> eth_addr_equals (fl_dl_dst flow) eth_addr_stp \<and> fl_dl_type flow = FLOW_DL_TYPE_NONE"

definition xbundle_lookup :: "xbridge \<Rightarrow> addr \<Rightarrow> xbundle option" where
  "xbundle_lookup xbridge ofbundle =
    (if ofbundle = 0 then None else find (\<lambda>xbundle. xb_ofbundle xbundle = ofbundle) (xbr_xbundles xbridge))"

definition xport_lookup :: "xbridge \<Rightarrow> addr \<Rightarrow> xport option" where
  "xport_lookup xbridge ofport =
    (if ofport = 0 then None else find (\<lambda>xport. xp_ofport xport = ofport) (xbr_xports xbridge))"

definition get_ofp_port :: "xbridge \<Rightarrow> u16 \<Rightarrow> xport option" where
  "get_ofp_port xbridge ofp_port = find (\<lambda>xport. xp_ofp_port xport = ofp_port) (xbr_xports xbridge)"

definition xport_stp_state :: "xbridge \<Rightarrow> xport \<Rightarrow> stp_state" where
  "xport_stp_state xbridge xport =
    (case xbr_stp xbridge of
       None \<Rightarrow> STP_DISABLED
     | Some stp \<Rightarrow> if xp_stp_port_no xport \<noteq> - 1 then sp_state (stp_port_at stp (nat (xp_stp_port_no xport))) else STP_DISABLED)"

definition xport_stp_learn_state :: "xbridge \<Rightarrow> xport \<Rightarrow> bool" where
  "xport_stp_learn_state xbridge xport = stp_learn_in_state (xport_stp_state xbridge xport)"

definition xport_stp_forward_state :: "xbridge \<Rightarrow> xport \<Rightarrow> bool" where
  "xport_stp_forward_state xbridge xport = stp_forward_in_state (xport_stp_state xbridge xport)"

definition xport_stp_should_forward_bpdu :: "xbridge \<Rightarrow> xport \<Rightarrow> bool" where
  "xport_stp_should_forward_bpdu xbridge xport = stp_should_forward_bpdu (xport_stp_state xbridge xport)"

definition xbundle_trunks_vlan :: "xbundle \<Rightarrow> u16 \<Rightarrow> bool" where
  "xbundle_trunks_vlan bundle vlan \<longleftrightarrow>
    xb_vlan_mode bundle \<noteq> PORT_VLAN_ACCESS \<and>
    (case xb_trunks bundle of None \<Rightarrow> True | Some trunks \<Rightarrow> bitmap_is_set trunks (unat vlan))"

definition xbundle_includes_vlan :: "xbundle \<Rightarrow> u16 \<Rightarrow> bool" where
  "xbundle_includes_vlan xbundle vlan \<longleftrightarrow> uint vlan = xb_vlan xbundle \<or> xbundle_trunks_vlan xbundle vlan"

definition xbundle_mirror_out :: "xbridge \<Rightarrow> xbundle \<Rightarrow> u32" where
  "xbundle_mirror_out xbridge xbundle = (if xb_ofbundle xbundle \<noteq> 0 then xbr_mirror_out xbridge (xb_ofbundle xbundle) else 0)"

definition lookup_input_bundle :: "xbridge \<Rightarrow> u16 \<Rightarrow> xbundle option \<times> xport option" where
  "lookup_input_bundle xbridge in_port =
    (let xport = get_ofp_port xbridge in_port
     in (case Option.bind (Option.bind xport xp_xbundle) (xbundle_lookup xbridge) of
           Some xbundle \<Rightarrow> Some xbundle
         | None \<Rightarrow> if in_port = OFPP_CONTROLLER \<or> in_port = OFPP_NONE then Some ofpp_none_bundle else None,
         xport))"

definition input_vid_to_vlan :: "xbundle \<Rightarrow> u16 \<Rightarrow> u16" where
  "input_vid_to_vlan in_xbundle vid =
    (case xb_vlan_mode in_xbundle of
       PORT_VLAN_ACCESS \<Rightarrow> word_of_int (xb_vlan in_xbundle)
     | PORT_VLAN_TRUNK \<Rightarrow> vid
     | _ \<Rightarrow> if vid \<noteq> 0 then vid else word_of_int (xb_vlan in_xbundle))"

definition input_vid_is_valid :: "u16 \<Rightarrow> xbundle \<Rightarrow> bool" where
  "input_vid_is_valid vid in_xbundle =
    (if xb_ofbundle in_xbundle = 0 then True
     else case xb_vlan_mode in_xbundle of
       PORT_VLAN_ACCESS \<Rightarrow> vid = 0
     | PORT_VLAN_TRUNK \<Rightarrow> xbundle_includes_vlan in_xbundle vid
     | _ \<Rightarrow> if vid = 0 then True else xbundle_includes_vlan in_xbundle vid)"

definition output_vlan_to_vid :: "xbundle \<Rightarrow> u16 \<Rightarrow> u16" where
  "output_vlan_to_vid out_xbundle vlan =
    (case xb_vlan_mode out_xbundle of
       PORT_VLAN_ACCESS \<Rightarrow> 0
     | PORT_VLAN_TRUNK \<Rightarrow> vlan
     | PORT_VLAN_NATIVE_TAGGED \<Rightarrow> vlan
     | PORT_VLAN_NATIVE_UNTAGGED \<Rightarrow> if uint vlan = xb_vlan out_xbundle then 0 else vlan)"

text \<open>\<open>lib/odp-util.c\<close>: the actions that give the packet the VLAN tag of the flow.\<close>

definition pop_vlan :: "xlate_ctx \<Rightarrow> xlate_ctx" where
  "pop_vlan ctx =
    (let ctx = ctx\<lparr> cx_wc := (cx_wc ctx)\<lparr> wc_vlan_tci := 0xffff \<rparr> \<rparr>
     in if fl_vlan_tci (cx_base_flow ctx) AND VLAN_CFI \<noteq> 0
        then ctx\<lparr> cx_odp_actions := cx_odp_actions ctx @ [OVS_ACTION_ATTR_POP_VLAN],
                  cx_base_flow := (cx_base_flow ctx)\<lparr> fl_vlan_tci := 0 \<rparr> \<rparr>
        else ctx)"

definition commit_vlan_action :: "u16 \<Rightarrow> xlate_ctx \<Rightarrow> xlate_ctx" where
  "commit_vlan_action vlan_tci ctx =
    (if fl_vlan_tci (cx_base_flow ctx) = vlan_tci then ctx
     else let ctx = pop_vlan ctx;
              ctx = (if vlan_tci AND VLAN_CFI \<noteq> 0
                     then ctx\<lparr> cx_odp_actions := cx_odp_actions ctx @ [OVS_ACTION_ATTR_PUSH_VLAN vlan_tci] \<rparr> else ctx)
          in ctx\<lparr> cx_base_flow := (cx_base_flow ctx)\<lparr> fl_vlan_tci := vlan_tci \<rparr> \<rparr>)"

definition compose_output_action :: "xlate_ctx \<Rightarrow> u16 \<Rightarrow> xlate_ctx" where
  "compose_output_action ctx ofp_port =
    (let xbridge = cx_xbridge ctx
     in case get_ofp_port xbridge ofp_port of
          None \<Rightarrow> ctx
        | Some xport \<Rightarrow>
            if xp_config xport AND OFPUTIL_PC_NO_FWD \<noteq> 0 then ctx
            else if is_stp (cx_base_flow ctx) \<and> \<not> xport_stp_should_forward_bpdu xbridge xport then ctx
            else if \<not> is_stp (cx_base_flow ctx) \<and> \<not> xport_stp_forward_state xbridge xport then ctx
            else case xp_odp_port xport of
                   None \<Rightarrow> ctx
                 | Some out_port \<Rightarrow>
                     let ctx = commit_vlan_action (fl_vlan_tci (cx_flow ctx)) ctx
                     in ctx\<lparr> cx_odp_actions := cx_odp_actions ctx @ [OVS_ACTION_ATTR_OUTPUT out_port] \<rparr>)"

text \<open>The TCI with which a packet leaves a bundle, and the output to a port with it.\<close>

definition output_tci :: "xbundle \<Rightarrow> u16 \<Rightarrow> u16 \<Rightarrow> u16" where
  "output_tci out_xbundle vid flow_tci =
    (if vid \<noteq> 0 \<or> xb_use_priority_tags out_xbundle
     then let tci = vid OR (flow_tci AND VLAN_PCP_MASK) in if tci \<noteq> 0 then tci OR VLAN_CFI else tci
     else vid)"

definition output_to_xport :: "xlate_ctx \<Rightarrow> xbundle \<Rightarrow> u16 \<Rightarrow> xport \<Rightarrow> xlate_ctx" where
  "output_to_xport ctx out_xbundle vid xport =
    (let old_tci = fl_vlan_tci (cx_flow ctx);
         tci = output_tci out_xbundle vid old_tci;
         ctx = ctx\<lparr> cx_flow := (cx_flow ctx)\<lparr> fl_vlan_tci := tci \<rparr> \<rparr>;
         ctx = compose_output_action ctx (xp_ofp_port xport)
     in ctx\<lparr> cx_flow := (cx_flow ctx)\<lparr> fl_vlan_tci := old_tci \<rparr> \<rparr>)"

definition set_bond :: "addr \<Rightarrow> bond \<Rightarrow> xbridge \<Rightarrow> xbridge" where
  "set_bond ofbundle bond xbridge =
    xbridge\<lparr> xbr_xbundles := map (\<lambda>b. if xb_ofbundle b = ofbundle then b\<lparr> xb_bond := Some bond \<rparr> else b) (xbr_xbundles xbridge) \<rparr>"

definition output_normal :: "xlate_ctx \<Rightarrow> xbundle \<Rightarrow> u16 \<Rightarrow> xlate_ctx option" where
  "output_normal ctx out_xbundle vlan =
    (let vid = output_vlan_to_vid out_xbundle vlan
     in case xb_xports out_xbundle of
          [] \<Rightarrow> Some ctx
        | p # ps \<Rightarrow>
            case xb_bond out_xbundle of
              None \<Rightarrow> map_option (output_to_xport ctx out_xbundle vid) (xport_lookup (cx_xbridge ctx) p)
            | Some bond \<Rightarrow>
                case bond_choose_output_slave bond (cx_flow ctx) (cx_wc ctx) vid of
                  None \<Rightarrow> None
                | Some (ofport, wc, bond) \<Rightarrow>
                    let ctx = ctx\<lparr> cx_wc := wc, cx_xbridge := set_bond (xb_ofbundle out_xbundle) bond (cx_xbridge ctx) \<rparr>
                    in case Option.bind ofport (xport_lookup (cx_xbridge ctx)) of
                         None \<Rightarrow> Some ctx
                       | Some xport \<Rightarrow> Some (output_to_xport ctx out_xbundle vid xport))"

definition is_gratuitous_arp :: "flow \<Rightarrow> flow_wildcards \<Rightarrow> bool \<times> flow_wildcards" where
  "is_gratuitous_arp flow wc =
    (if fl_dl_type flow \<noteq> ETH_TYPE_ARP then (False, wc)
     else let wc = wc\<lparr> wc_dl_dst := True \<rparr>
          in if \<not> eth_addr_is_broadcast (fl_dl_dst flow) then (False, wc)
             else let wc = wc\<lparr> wc_nw_proto := True \<rparr>
                  in if fl_nw_proto flow = ARP_OP_REPLY then (True, wc)
                     else if fl_nw_proto flow = ARP_OP_REQUEST
                     then let wc = wc\<lparr> wc_nw_src := True, wc_nw_dst := True \<rparr> in (fl_nw_src flow = fl_nw_dst flow, wc)
                     else (False, wc))"

definition is_mac_learning_update_needed ::
  "int \<Rightarrow> mac_learning \<Rightarrow> flow \<Rightarrow> flow_wildcards \<Rightarrow> u16 \<Rightarrow> xbundle \<Rightarrow> (bool \<times> flow_wildcards) option" where
  "is_mac_learning_update_needed now ml flow wc vlan in_xbundle =
    (if \<not> mac_learning_may_learn (Some ml) (fl_dl_src flow) vlan then Some (False, wc)
     else case mac_learning_lookup (fl_dl_src flow) vlan ml of
            None \<Rightarrow> None
          | Some None \<Rightarrow> Some (True, wc)
          | Some (Some e) \<Rightarrow>
              let mac = mac_entry_at ml e
              in if mac_entry_age now ml mac \<noteq> 0 then Some (True, wc)
                 else case is_gratuitous_arp flow wc of (arp, wc) \<Rightarrow>
                   if arp \<and> xb_bond in_xbundle = None then Some (True, wc)
                   else if arp \<and> mac_entry_is_grat_arp_locked now mac then Some (False, wc)
                   else Some (me_port mac \<noteq> Some (xb_ofbundle in_xbundle), wc))"

text \<open>\<open>update_learning_table__\<close>\<close>

definition update_learning_table_locked ::
  "int \<Rightarrow> addr \<Rightarrow> mac_learning \<Rightarrow> flow \<Rightarrow> flow_wildcards \<Rightarrow> u16 \<Rightarrow> xbundle \<Rightarrow> (mac_learning \<times> flow_wildcards) option" where
  "update_learning_table_locked now new ml flow wc vlan in_xbundle =
    (if \<not> mac_learning_may_learn (Some ml) (fl_dl_src flow) vlan then Some (ml, wc)
     else case mac_learning_insert now new (fl_dl_src flow) vlan ml of
            None \<Rightarrow> None
          | Some (e, ml) \<Rightarrow>
              case is_gratuitous_arp flow wc of (arp, wc) \<Rightarrow>
                if arp \<and> xb_bond in_xbundle \<noteq> None \<and> mac_entry_is_grat_arp_locked now (mac_entry_at ml e) then Some (ml, wc)
                else let ml = (if arp \<and> xb_bond in_xbundle = None
                               then ml_update_entry e (mac_entry_set_grat_arp_lock now) ml else ml)
                     in if me_port (mac_entry_at ml e) \<noteq> Some (xb_ofbundle in_xbundle)
                        then Some (mac_learning_changed
                                     (ml_update_entry e (\<lambda>x. x\<lparr> me_port := Some (xb_ofbundle in_xbundle) \<rparr>) ml), wc)
                        else Some (ml, wc))"

definition update_learning_table ::
  "int \<Rightarrow> addr \<Rightarrow> mac_learning \<Rightarrow> flow \<Rightarrow> flow_wildcards \<Rightarrow> u16 \<Rightarrow> xbundle \<Rightarrow> (mac_learning \<times> flow_wildcards) option" where
  "update_learning_table now new ml flow wc vlan in_xbundle =
    (if xb_ofbundle in_xbundle = 0 then Some (ml, wc)
     else case is_mac_learning_update_needed now ml flow wc vlan in_xbundle of
            None \<Rightarrow> None
          | Some (need_update, wc) \<Rightarrow>
              if need_update then update_learning_table_locked now new ml flow wc vlan in_xbundle else Some (ml, wc))"

text \<open>The case \<open>BV_DROP_IF_MOVED\<close> of \<open>is_admissible\<close>.\<close>

definition admissible_unless_moved ::
  "int \<Rightarrow> mac_learning \<Rightarrow> flow \<Rightarrow> flow_wildcards \<Rightarrow> u16 \<Rightarrow> xbundle \<Rightarrow> (bool \<times> flow_wildcards) option" where
  "admissible_unless_moved now ml flow wc vlan in_xbundle =
    (case mac_learning_lookup (fl_dl_src flow) vlan ml of
       None \<Rightarrow> None
     | Some None \<Rightarrow> Some (True, wc)
     | Some (Some e) \<Rightarrow>
         let mac = mac_entry_at ml e
         in if me_port mac \<noteq> Some (xb_ofbundle in_xbundle)
            then case is_gratuitous_arp flow wc of (arp, wc) \<Rightarrow>
                   Some (\<not> (\<not> arp \<or> mac_entry_is_grat_arp_locked now mac), wc)
            else Some (True, wc))"

definition is_admissible :: "int \<Rightarrow> xlate_ctx \<Rightarrow> xport \<Rightarrow> u16 \<Rightarrow> (bool \<times> flow_wildcards) option" where
  "is_admissible now ctx in_port vlan =
    (let xbridge = cx_xbridge ctx; flow = cx_flow ctx; wc = cx_wc ctx
     in if \<not> xbr_forward_bpdu xbridge \<and> eth_addr_is_reserved (fl_dl_dst flow) then Some (False, wc)
        else case Option.bind (xp_xbundle in_port) (xbundle_lookup xbridge) of
               None \<Rightarrow> None
             | Some in_xbundle \<Rightarrow>
                 case xb_bond in_xbundle of
                   None \<Rightarrow> Some (True, wc)
                 | Some bond \<Rightarrow>
                     case bond_check_admissibility bond (xp_ofport in_port) (fl_dl_dst flow) of
                       BV_ACCEPT \<Rightarrow> Some (True, wc)
                     | BV_DROP \<Rightarrow> Some (False, wc)
                     | BV_DROP_IF_MOVED \<Rightarrow> admissible_unless_moved now (xbr_ml xbridge) flow wc vlan in_xbundle)"

text \<open>The flood over the bundles; each is read when its turn comes.\<close>

fun flood_normal :: "addr list \<Rightarrow> addr \<Rightarrow> u16 \<Rightarrow> xlate_ctx \<Rightarrow> xlate_ctx option" where
  "flood_normal [] in_xbundle vlan ctx = Some ctx"
| "flood_normal (a # as) in_xbundle vlan ctx =
    (case xbundle_lookup (cx_xbridge ctx) a of
       None \<Rightarrow> None
     | Some xbundle \<Rightarrow>
         if a \<noteq> in_xbundle \<and> xbundle_includes_vlan xbundle vlan \<and> xb_floodable xbundle \<and>
            xbundle_mirror_out (cx_xbridge ctx) xbundle = 0
         then Option.bind (output_normal ctx xbundle vlan) (flood_normal as in_xbundle vlan)
         else flood_normal as in_xbundle vlan ctx)"

text \<open>The rest of \<open>xlate_normal\<close> after the checks: the frame is learned from and sent on.\<close>

definition forward_normal :: "xbundle \<Rightarrow> u16 \<Rightarrow> xlate_ctx \<Rightarrow> xlate_ctx option" where
  "forward_normal in_xbundle vlan ctx =
    (case mac_learning_lookup (fl_dl_dst (cx_flow ctx)) vlan (xbr_ml (cx_xbridge ctx)) of
       None \<Rightarrow> None
     | Some mac \<Rightarrow>
         case Option.bind mac (\<lambda>e. me_port (mac_entry_at (xbr_ml (cx_xbridge ctx)) e)) of
           Some mac_port \<Rightarrow>
             (case xbundle_lookup (cx_xbridge ctx) mac_port of
                Some mac_xbundle \<Rightarrow>
                  if xb_ofbundle mac_xbundle \<noteq> xb_ofbundle in_xbundle then output_normal ctx mac_xbundle vlan else Some ctx
              | None \<Rightarrow> Some ctx)
         | None \<Rightarrow> flood_normal (map xb_ofbundle (xbr_xbundles (cx_xbridge ctx))) (xb_ofbundle in_xbundle) vlan ctx)"

definition learn_and_forward :: "int \<Rightarrow> addr \<Rightarrow> xbundle \<Rightarrow> u16 \<Rightarrow> xlate_ctx \<Rightarrow> xlate_ctx option" where
  "learn_and_forward now new in_xbundle vlan ctx =
    (if cx_may_learn ctx
     then case update_learning_table now new (xbr_ml (cx_xbridge ctx)) (cx_flow ctx) (cx_wc ctx) vlan in_xbundle of
            None \<Rightarrow> None
          | Some (ml, wc) \<Rightarrow>
              forward_normal in_xbundle vlan (ctx\<lparr> cx_xbridge := (cx_xbridge ctx)\<lparr> xbr_ml := ml \<rparr>, cx_wc := wc \<rparr>)
     else forward_normal in_xbundle vlan ctx)"

definition xlate_normal :: "int \<Rightarrow> addr \<Rightarrow> xlate_ctx \<Rightarrow> xlate_ctx option" where
  "xlate_normal now new ctx =
    (let flow = cx_flow ctx;
         ctx = ctx\<lparr> cx_wc := (cx_wc ctx)\<lparr> wc_dl_src := True, wc_dl_dst := True,
                      wc_vlan_tci := wc_vlan_tci (cx_wc ctx) OR (VLAN_VID_MASK OR VLAN_CFI) \<rparr> \<rparr>
     in case lookup_input_bundle (cx_xbridge ctx) (fl_in_port flow) of
          (None, in_port) \<Rightarrow> Some ctx
        | (Some in_xbundle, in_port) \<Rightarrow>
            if fl_dl_type flow = ETH_TYPE_VLAN \<and> fl_vlan_tci flow AND VLAN_CFI = 0 then Some ctx
            else if xbundle_mirror_out (cx_xbridge ctx) in_xbundle \<noteq> 0 then Some ctx
            else let vid = vlan_tci_to_vid (fl_vlan_tci flow)
                 in if \<not> input_vid_is_valid vid in_xbundle then Some ctx
                    else let vlan = input_vid_to_vlan in_xbundle vid
                         in case in_port of
                              None \<Rightarrow> learn_and_forward now new in_xbundle vlan ctx
                            | Some in_port \<Rightarrow>
                                case is_admissible now ctx in_port vlan of
                                  None \<Rightarrow> None
                                | Some (admissible, wc) \<Rightarrow>
                                    let ctx = ctx\<lparr> cx_wc := wc \<rparr>
                                    in if admissible then learn_and_forward now new in_xbundle vlan ctx else Some ctx)"

definition may_receive :: "xport \<Rightarrow> xlate_ctx \<Rightarrow> bool" where
  "may_receive xport ctx =
    (if xp_config xport AND (if is_stp (cx_flow ctx) then OFPUTIL_PC_NO_RECV_STP else OFPUTIL_PC_NO_RECV) \<noteq> 0 then False
     else if \<not> xport_stp_forward_state (cx_xbridge ctx) xport \<and> \<not> xport_stp_learn_state (cx_xbridge ctx) xport then False
     else True)"

text \<open>The masks that \<open>xlate_actions\<close> starts with, of the fields kept here.\<close>

definition xlate_wc_init :: flow_wildcards where
  "xlate_wc_init = flow_wildcards_init_catchall\<lparr> wc_in_port := True, wc_dl_type := True \<rparr>"

definition stp_should_process_flow :: "flow \<Rightarrow> flow_wildcards \<Rightarrow> bool \<times> flow_wildcards" where
  "stp_should_process_flow flow wc = (is_stp flow, wc\<lparr> wc_dl_dst := True \<rparr>)"

text \<open>Whether the packet is for the spanning tree entity of the bridge; the ports run none of CFM, BFD and LACP.\<close>

definition process_special :: "xbridge \<Rightarrow> flow \<Rightarrow> xport option \<Rightarrow> flow_wildcards \<Rightarrow> bool \<times> flow_wildcards" where
  "process_special xbridge flow xport wc =
    (if xport = None then (False, wc)
     else if xbr_stp xbridge \<noteq> None then stp_should_process_flow flow wc
     else (False, wc))"

definition IPPROTO_ICMPV6 :: u8 where "IPPROTO_ICMPV6 = 58"

definition is_icmpv4 :: "flow \<Rightarrow> bool" where
  "is_icmpv4 flow \<longleftrightarrow> fl_dl_type flow = ETH_TYPE_IP \<and> fl_nw_proto flow = IPPROTO_ICMP"

definition is_icmpv6 :: "flow \<Rightarrow> bool" where
  "is_icmpv6 flow \<longleftrightarrow> fl_dl_type flow = ETH_TYPE_IPV6 \<and> fl_nw_proto flow = IPPROTO_ICMPV6"

text \<open>The masks are narrowed to 8 bits for the type and the code of ICMP at the end.\<close>

definition xlate_wc_finish :: "flow \<Rightarrow> flow_wildcards \<Rightarrow> flow_wildcards" where
  "xlate_wc_finish flow wc =
    (if is_icmpv4 flow \<or> is_icmpv6 flow
     then wc\<lparr> wc_tp_src := wc_tp_src wc AND 0xff, wc_tp_dst := wc_tp_dst wc AND 0xff \<rparr> else wc)"

text \<open>
  \<open>xlate_actions\<close>, for a rule whose only action is \<open>OFPP_NORMAL\<close> and for no packet in particular (\<open>xin->packet\<close> is
  null), so that a BPDU is only marked for the slow path.  There are no tunnels, fragments, in-band control, NetFlow, sFlow
  or IPFIX.  The first definition is the part up to the end of the actions, the second adds the last step.
\<close>

definition xlate_process_normal :: "int \<Rightarrow> addr \<Rightarrow> xlate_ctx \<Rightarrow> xlate_ctx option" where
  "xlate_process_normal now new ctx =
    (let flow = cx_flow ctx;
         ctx = ctx\<lparr> cx_base_flow := flow, cx_wc := xlate_wc_init, cx_slow := False, cx_odp_actions := [] \<rparr>;
         in_port = get_ofp_port (cx_xbridge ctx) (fl_in_port flow)
     in case process_special (cx_xbridge ctx) flow in_port (cx_wc ctx) of (special, wc) \<Rightarrow>
          let ctx = ctx\<lparr> cx_wc := wc \<rparr>
          in if special then Some (ctx\<lparr> cx_slow := True \<rparr>)
             else case in_port of
                    None \<Rightarrow> xlate_normal now new ctx
                  | Some in_port \<Rightarrow>
                      if may_receive in_port ctx
                      then map_option (\<lambda>ctx. if \<not> xport_stp_forward_state (cx_xbridge ctx) in_port
                                             then ctx\<lparr> cx_odp_actions := [] \<rparr> else ctx)
                             (xlate_normal now new ctx)
                      else Some ctx)"

definition xlate_actions_normal :: "int \<Rightarrow> addr \<Rightarrow> xlate_ctx \<Rightarrow> xlate_ctx option" where
  "xlate_actions_normal now new ctx =
    map_option (\<lambda>ctx'. ctx'\<lparr> cx_wc := xlate_wc_finish (cx_flow ctx) (cx_wc ctx') \<rparr>) (xlate_process_normal now new ctx)"

end
