(* ===== verification/Bridge.thy ===== *)
theory Bridge
  imports Xlate_Normal
begin

text \<open>
  What a bridge that runs \<open>OFPP_NORMAL\<close> promises: its MAC learning keeps the table reachable and its fast path
  agrees with the slow one, a learned address is forwarded to where it was seen, and frames stay in their VLAN
  between bridges with ports that are configured alike.
\<close>

section \<open>Learning\<close>

lemma lookup_good:
  assumes "ml_good t ml" "length mac = 6"
  shows "mac_learning_lookup mac vlan ml =
    Some (if eth_addr_is_multicast mac \<or> \<not> is_learning_vlan ml vlan then None else mac_entry_lookup ml mac vlan)"
proof -
  have ok: "ml_ok ml" and v: "view_good (t + uint (ml_idle_time ml)) (ml_view ml)" using assms(1) by (simp_all add: ml_good_def)
  have "me_port (mac_entry_at ml e) \<noteq> None" if "mac_entry_lookup ml mac vlan = Some e" for e
  proof -
    have "e \<in> set (ml_lrus ml)" using that mac_entry_lookup_iff [OF ok assms(2)] by blast
    then show ?thesis using v by (auto simp: view_good_def ml_view_def)
  qed
  then show ?thesis by (auto simp: mac_learning_lookup_def split: option.split)
qed

lemma view_entry:
  assumes "ml_ok ml" "length mac = 6" "mac_entry_lookup ml mac vlan = Some e"
  shows "e \<in> set (ml_lrus ml)" "mac_key ml e = (mac, vlan)" "lru_find mac vlan (ml_view ml) = Some ((mac_entry_at ml e)\<lparr> me_hash := 0 \<rparr>)"
  using mac_entry_lookup_iff [OF assms(1,2)] lru_find_view [OF assms(1,2), of vlan] assms(3) by auto

text \<open>The entry that an insertion returns: what was known of the address, or nothing.\<close>

lemma insert_entry:
  assumes good: "ml_good t ml" and new: "ml_heap ml new = None" and mac: "length mac = 6"
    and i: "mac_learning_insert now new mac vlan ml = Some (e, ml')"
  shows "mac_entry_lookup ml' mac vlan = Some e" "e \<in> set (ml_lrus ml')" "e = last (ml_lrus ml')" "ml_lrus ml' \<noteq> []" "ml_ok ml'"
    and "mac_entry_lookup ml mac vlan = Some e' \<Longrightarrow>
      me_port (mac_entry_at ml' e) = me_port (mac_entry_at ml e') \<and>
      me_grat_arp_lock (mac_entry_at ml' e) = me_grat_arp_lock (mac_entry_at ml e') \<and> me_port (mac_entry_at ml' e) \<noteq> None"
    and "mac_entry_lookup ml mac vlan = None \<Longrightarrow>
      me_port (mac_entry_at ml' e) = None \<and> me_grat_arp_lock (mac_entry_at ml' e) = TIME_MIN"
    and "ml_flood_vlans ml' = ml_flood_vlans ml"
proof -
  have ok: "ml_ok ml" and v: "view_good (t + uint (ml_idle_time ml)) (ml_view ml)" using good by (simp_all add: ml_good_def)
  have "new \<notin> set (ml_lrus ml)" using ml_heap_lrus [OF ok] new by blast
  from insert_ok [OF ok this mac, of now vlan] i
  have ml': "ml_ok ml'" "ml_lrus ml' \<noteq> []" "e = last (ml_lrus ml')" "mac_key ml' e = (mac, vlan)"
    "ml_view ml' = lru_insert (now + uint (ml_idle_time ml)) (unat (ml_max_entries ml)) mac vlan (ml_view ml)"
    "ml_flood_vlans ml' = ml_flood_vlans ml" by auto
  show "ml_ok ml'" "e = last (ml_lrus ml')" "ml_lrus ml' \<noteq> []" "ml_flood_vlans ml' = ml_flood_vlans ml" by fact+
  show e: "e \<in> set (ml_lrus ml')" using ml'(2,3) by simp
  show "mac_entry_lookup ml' mac vlan = Some e" unfolding mac_entry_lookup_iff [OF ml'(1) mac] using e ml'(4) by simp
  have last: "(mac_entry_at ml' e)\<lparr> me_hash := 0 \<rparr> = last (ml_view ml')" using ml'(2,3) by (simp add: ml_view_def last_map)
  note sel = arg_cong [OF last, of me_port] arg_cong [OF last, of me_grat_arp_lock]
  show "me_port (mac_entry_at ml' e) = me_port (mac_entry_at ml e') \<and>
      me_grat_arp_lock (mac_entry_at ml' e) = me_grat_arp_lock (mac_entry_at ml e') \<and> me_port (mac_entry_at ml' e) \<noteq> None"
    if "mac_entry_lookup ml mac vlan = Some e'"
  proof -
    note e' = view_entry [OF ok mac that]
    have "me_port (mac_entry_at ml e') \<noteq> None" using e'(1) v by (auto simp: view_good_def ml_view_def)
    then show ?thesis using sel by (simp add: ml'(5) lru_insert_def e'(3))
  qed
  show "me_port (mac_entry_at ml' e) = None \<and> me_grat_arp_lock (mac_entry_at ml' e) = TIME_MIN"
    if "mac_entry_lookup ml mac vlan = None"
  proof -
    have "lru_find mac vlan (ml_view ml) = None" using lru_find_view [OF ok mac, of vlan] that by simp
    then show ?thesis using sel by (simp add: ml'(5) lru_insert_def)
  qed
qed

text \<open>The slow path always succeeds and its effect is an insertion followed by one write to the entry.\<close>

definition learned_port :: "int \<Rightarrow> bool \<Rightarrow> xbundle \<Rightarrow> mac_entry \<Rightarrow> addr option" where
  "learned_port now arp in_xbundle mac =
    (if arp \<and> xb_bond in_xbundle \<noteq> None \<and> mac_entry_is_grat_arp_locked now mac then me_port mac else Some (xb_ofbundle in_xbundle))"

definition learned_entry :: "int \<Rightarrow> bool \<Rightarrow> xbundle \<Rightarrow> mac_entry \<Rightarrow> mac_entry" where
  "learned_entry now arp in_xbundle mac =
    (if arp \<and> xb_bond in_xbundle = None then mac_entry_set_grat_arp_lock now mac else mac)
    \<lparr> me_port := learned_port now arp in_xbundle mac \<rparr>"

lemma update_locked:
  assumes i: "mac_learning_insert now new (fl_dl_src flow) vlan ml = Some (e, ml1)"
    and learn: "mac_learning_may_learn (Some ml) (fl_dl_src flow) vlan" and arp: "is_gratuitous_arp flow wc = (arp, wc')"
    and x: "ml_heap ml1 e = Some x"
  shows "update_learning_table_locked now new ml flow wc vlan in_xbundle =
    Some (ml1\<lparr> ml_heap := (ml_heap ml1)(e \<mapsto> learned_entry now arp in_xbundle x),
      ml_need_revalidate := ml_need_revalidate ml1 \<or> learned_port now arp in_xbundle x \<noteq> me_port x \<rparr>, wc')"
proof -
  have at: "mac_entry_at ml1 e = x" by (simp add: mac_entry_at_def x)
  have at': "mac_entry_at (ml_update_entry e f ml1) e = f x" for f by (simp add: ml_update_entry_def mac_entry_at_def x)
  have idem: "(ml_heap ml1)(e \<mapsto> x) = ml_heap ml1" by (rule fun_upd_idem) (rule x)
  have eq: "ml1\<lparr> ml_heap := ml_heap ml1, ml_need_revalidate := ml_need_revalidate ml1 \<rparr> = ml1" by simp
  have port: "x\<lparr> me_port := Some p \<rparr> = x" "(mac_entry_set_grat_arp_lock now x)\<lparr> me_port := Some p \<rparr> = mac_entry_set_grat_arp_lock now x"
    if "me_port x = Some p" for p using that by (cases x; simp add: mac_entry_set_grat_arp_lock_def)+
  have sel: "me_port (mac_entry_set_grat_arp_lock now x) = me_port x" by (simp add: mac_entry_set_grat_arp_lock_def)
  note defs = update_learning_table_locked_def learned_port_def learned_entry_def
  consider "arp" "xb_bond in_xbundle \<noteq> None" "mac_entry_is_grat_arp_locked now x"
    | "arp" "xb_bond in_xbundle = None"
    | "\<not> arp \<or> xb_bond in_xbundle \<noteq> None \<and> \<not> mac_entry_is_grat_arp_locked now x" by blast
  then show ?thesis
  proof cases
    case 1
    then show ?thesis using learn i arp by (auto simp: defs at idem)
  next
    case 2
    then show ?thesis
      using learn i arp
      by (cases "me_port x = Some (xb_ofbundle in_xbundle)")
        (simp_all add: defs at at' sel port, simp_all add: ml_update_entry_def x mac_learning_changed_def)
  next
    case 3
    then show ?thesis
      using learn i arp
      by (cases "me_port x = Some (xb_ofbundle in_xbundle)"; cases arp; cases "xb_bond in_xbundle")
        (simp_all add: defs at port idem, simp_all add: ml_update_entry_def x mac_learning_changed_def)
  qed
qed

text \<open>Learning ends in a reachable table, whichever path it takes; it only fails to set the port under a lock.\<close>

lemma update_locked_reachable:
  assumes r: "ml_reachable t ml" "t \<le> now" "0 \<le> now" and new: "ml_heap ml new = None" and mac: "length (fl_dl_src flow) = 6"
    and learn: "mac_learning_may_learn (Some ml) (fl_dl_src flow) vlan"
  obtains ml' e where "update_learning_table_locked now new ml flow wc vlan in_xbundle = Some (ml', snd (is_gratuitous_arp flow wc))"
    "ml_reachable now ml'" "ml_flood_vlans ml' = ml_flood_vlans ml" "mac_entry_lookup ml' (fl_dl_src flow) vlan = Some e"
    "me_port (mac_entry_at ml' e) = Some (xb_ofbundle in_xbundle) \<or>
     fst (is_gratuitous_arp flow wc) \<and> xb_bond in_xbundle \<noteq> None \<and>
     (\<exists>e'. mac_entry_lookup ml (fl_dl_src flow) vlan = Some e' \<and> mac_entry_is_grat_arp_locked now (mac_entry_at ml e'))"
proof -
  have good: "ml_good t ml" by (rule ml_reachable_good [OF r(1)])
  then have ok: "ml_ok ml" by (simp add: ml_good_def)
  have "new \<notin> set (ml_lrus ml)" using ml_heap_lrus [OF ok] new by blast
  from insert_ok [OF ok this mac, of now vlan] obtain e ml1 where
    i: "mac_learning_insert now new (fl_dl_src flow) vlan ml = Some (e, ml1)" by blast
  note e = insert_entry [OF good new mac i]
  obtain x where x: "ml_heap ml1 e = Some x" using ml_heap_lrus [OF e(5,2)] by blast
  then have at: "mac_entry_at ml1 e = x" by (simp add: mac_entry_at_def)
  obtain arp wc' where arp: "is_gratuitous_arp flow wc = (arp, wc')" by (metis surj_pair)
  let ?p = "learned_port now arp in_xbundle x"
  let ?f = "\<lambda>y. (if arp \<and> xb_bond in_xbundle = None then mac_entry_set_grat_arp_lock now y else y)\<lparr> me_port := ?p \<rparr>"
  define ml2 where "ml2 = ml_update_entry e ?f ml1"
  define ml3 where "ml3 = ml1\<lparr> ml_heap := (ml_heap ml1)(e \<mapsto> learned_entry now arp in_xbundle x),
    ml_need_revalidate := ml_need_revalidate ml1 \<or> ?p \<noteq> me_port x \<rparr>"
  have locked: "mac_entry_lookup ml (fl_dl_src flow) vlan \<noteq> None" if "mac_entry_is_grat_arp_locked now x"
    using e(7) that r(3) by (auto simp: at mac_entry_is_grat_arp_locked_def TIME_MIN_def)
  then have "?p \<noteq> None" using e(6) by (auto simp: learned_port_def at)
  then have "writes_port ?f" by (auto simp: writes_port_def keeps_key_def mac_entry_set_grat_arp_lock_def)
  then have r2: "ml_reachable now ml2" unfolding ml2_def by (rule ml_reachable.learn [OF r(1,2) new mac i])
  have "ml3 = (if ?p \<noteq> me_port x then mac_learning_changed ml2 else ml2)"
    by (simp add: ml3_def ml2_def ml_update_entry_def x learned_entry_def mac_learning_changed_def)
  then have r3: "ml_reachable now ml3" using r2 ml_reachable.changed by auto
  then have "ml_ok ml3" using ml_reachable_good by (auto simp: ml_good_def)
  moreover have "mac_key ml3 e = (fl_dl_src flow, vlan)"
    using mac_entry_lookup_iff [OF e(5) mac, of vlan e] e(1) x
    by (auto simp: mac_key_def mac_entry_at_def ml3_def learned_entry_def mac_entry_set_grat_arp_lock_def)
  ultimately have l: "mac_entry_lookup ml3 (fl_dl_src flow) vlan = Some e"
    unfolding mac_entry_lookup_iff [OF \<open>ml_ok ml3\<close> mac] using e(2) by (simp add: ml3_def)
  have port: "me_port (mac_entry_at ml3 e) = ?p" by (simp add: ml3_def mac_entry_at_def learned_entry_def)
  have "?p = Some (xb_ofbundle in_xbundle) \<or> arp \<and> xb_bond in_xbundle \<noteq> None \<and>
     (\<exists>e'. mac_entry_lookup ml (fl_dl_src flow) vlan = Some e' \<and> mac_entry_is_grat_arp_locked now (mac_entry_at ml e'))"
    using locked e(6) by (auto simp: learned_port_def at mac_entry_is_grat_arp_locked_def)
  then show ?thesis
    using update_locked [OF i learn arp x, of in_xbundle] arp r3 l port e(8)
    by (intro that [of ml3 e]) (simp_all add: ml3_def [symmetric], simp add: ml3_def)
qed

lemma update_learning_table_ok:
  assumes r: "ml_reachable t ml" "t \<le> now" "0 \<le> now" and new: "ml_heap ml new = None" and mac: "length (fl_dl_src flow) = 6"
  obtains t' ml' wc' where "update_learning_table now new ml flow wc vlan in_xbundle = Some (ml', wc')"
    "ml_reachable t' ml'" "t' \<le> now" "ml_flood_vlans ml' = ml_flood_vlans ml"
proof -
  have good: "ml_good t ml" by (rule ml_reachable_good [OF r(1)])
  show ?thesis
  proof (cases "xb_ofbundle in_xbundle \<noteq> 0 \<and> mac_learning_may_learn (Some ml) (fl_dl_src flow) vlan")
    case False
    then show ?thesis
      using r(1,2) by (intro that [of ml wc t]) (auto simp: update_learning_table_def is_mac_learning_update_needed_def)
  next
    case True
    then have "is_mac_learning_update_needed now ml flow wc vlan in_xbundle \<noteq> None"
      using lookup_good [OF good mac, of vlan]
      by (auto simp: is_mac_learning_update_needed_def mac_learning_may_learn_def Let_def split: option.splits prod.splits)
    then obtain need wc1 where need: "is_mac_learning_update_needed now ml flow wc vlan in_xbundle = Some (need, wc1)" by auto
    show ?thesis
    proof (rule update_locked_reachable [OF r new mac conjunct2 [OF True], where wc = wc1 and in_xbundle = in_xbundle])
      fix ml' e
      assume u: "update_learning_table_locked now new ml flow wc1 vlan in_xbundle = Some (ml', snd (is_gratuitous_arp flow wc1))"
        and ml': "ml_reachable now ml'" "ml_flood_vlans ml' = ml_flood_vlans ml"
      have eq: "update_learning_table now new ml flow wc vlan in_xbundle =
          Some (if need then (ml', snd (is_gratuitous_arp flow wc1)) else (ml, wc1))"
        using True need u by (simp add: update_learning_table_def)
      show ?thesis
      proof (cases need)
        case True
        show ?thesis by (rule that [OF eq [unfolded if_P [OF True]] ml'(1) order_refl ml'(2)])
      next
        case False
        show ?thesis by (rule that [OF eq [unfolded if_not_P [OF False]] r(1,2) refl])
      qed
    qed
  qed
qed

lemma gratuitous_arp_idem:
  assumes "is_gratuitous_arp flow wc = (arp, wc')"
  shows "is_gratuitous_arp flow wc' = (arp, wc')"
  using assms by (auto simp: is_gratuitous_arp_def Let_def split: if_splits)

text \<open>After learning, a lookup of the source address finds the input bundle.\<close>

lemma update_learning_table_port:
  assumes r: "ml_reachable t ml" "t \<le> now" "0 \<le> now" and new: "ml_heap ml new = None" and mac: "length (fl_dl_src flow) = 6"
    and learn: "mac_learning_may_learn (Some ml) (fl_dl_src flow) vlan" and b: "xb_ofbundle in_xbundle \<noteq> 0"
    and arp: "\<not> (fst (is_gratuitous_arp flow wc) \<and> xb_bond in_xbundle \<noteq> None)"
    and u: "update_learning_table now new ml flow wc vlan in_xbundle = Some (ml', wc')"
  shows "\<exists>e. mac_learning_lookup (fl_dl_src flow) vlan ml' = Some (Some e) \<and>
    me_port (mac_entry_at ml' e) = Some (xb_ofbundle in_xbundle)"
proof -
  have may: "\<not> eth_addr_is_multicast (fl_dl_src flow)" "is_learning_vlan ml vlan"
    using learn by (auto simp: mac_learning_may_learn_def)
  have look: "mac_learning_lookup (fl_dl_src flow) vlan ml1 = Some (mac_entry_lookup ml1 (fl_dl_src flow) vlan)"
    if "ml_reachable t1 ml1" "ml_flood_vlans ml1 = ml_flood_vlans ml" for t1 ml1
    using lookup_good [OF ml_reachable_good [OF that(1)] mac, of vlan] may that(2) by (simp add: is_learning_vlan_def)
  obtain need wc1 where need: "is_mac_learning_update_needed now ml flow wc vlan in_xbundle = Some (need, wc1)"
    using u b by (auto simp: update_learning_table_def split: option.splits)
  have arp1: "fst (is_gratuitous_arp flow wc1) = fst (is_gratuitous_arp flow wc)"
    by (auto simp: is_gratuitous_arp_def Let_def)
  show ?thesis
  proof (cases need)
    case True
    then have u1: "update_learning_table_locked now new ml flow wc1 vlan in_xbundle = Some (ml', wc')"
      using u need b by (simp add: update_learning_table_def)
    show ?thesis
    proof (rule update_locked_reachable [OF r new mac learn, where wc = wc1 and in_xbundle = in_xbundle])
      fix ml2 e
      assume "update_learning_table_locked now new ml flow wc1 vlan in_xbundle = Some (ml2, snd (is_gratuitous_arp flow wc1))"
        and "ml_reachable now ml2" "ml_flood_vlans ml2 = ml_flood_vlans ml" "mac_entry_lookup ml2 (fl_dl_src flow) vlan = Some e"
        and "me_port (mac_entry_at ml2 e) = Some (xb_ofbundle in_xbundle) \<or>
          fst (is_gratuitous_arp flow wc1) \<and> xb_bond in_xbundle \<noteq> None \<and>
          (\<exists>e'. mac_entry_lookup ml (fl_dl_src flow) vlan = Some e' \<and> mac_entry_is_grat_arp_locked now (mac_entry_at ml e'))"
      moreover from this have "ml2 = ml'" using u1 by simp
      ultimately show ?thesis using look [of now ml'] arp arp1 by auto
    qed
  next
    case False
    then have "ml' = ml" using u need b by (simp add: update_learning_table_def)
    moreover from need have "\<exists>e. mac_learning_lookup (fl_dl_src flow) vlan ml = Some (Some e) \<and>
        me_port (mac_entry_at ml e) = Some (xb_ofbundle in_xbundle)"
      using False learn arp by (auto simp: is_mac_learning_update_needed_def Let_def split: option.splits if_splits prod.splits)
    ultimately show ?thesis by simp
  qed
qed

section \<open>Tags\<close>

lemma vid_mask:
  assumes "uint (vid :: u16) < 4096"
  shows "vid AND VLAN_VID_MASK = vid"
proof -
  have "uint (take_bit 12 vid) = uint vid" using assms by (simp add: unsigned_take_bit_eq take_bit_int_eq_self)
  moreover have "take_bit 12 vid = vid AND VLAN_VID_MASK" by (simp add: take_bit_eq_mask mask_eq_exp_minus_1 VLAN_VID_MASK_def)
  ultimately show ?thesis by (simp add: word_uint_eq_iff)
qed

lemma tci_masks: "VLAN_PCP_MASK AND VLAN_VID_MASK = 0" "VLAN_VID_MASK AND VLAN_PCP_MASK = 0" "VLAN_CFI AND VLAN_VID_MASK = 0"
  "VLAN_CFI AND VLAN_PCP_MASK = 0" "VLAN_CFI \<noteq> 0"
  by (simp_all add: VLAN_PCP_MASK_def VLAN_VID_MASK_def VLAN_CFI_def)

lemma output_tci_cases:
  "output_tci b vid tci = (if vid = 0 \<and> (\<not> xb_use_priority_tags b \<or> tci AND VLAN_PCP_MASK = 0) then 0
    else (vid OR (tci AND VLAN_PCP_MASK)) OR VLAN_CFI)"
  by (auto simp: output_tci_def Let_def or_eq_0_iff)

lemma output_tci_sel:
  assumes "uint vid < 4096"
  shows "vlan_tci_to_vid (output_tci b vid tci) = vid"
    and "output_tci b vid tci = 0 \<or> output_tci b vid tci AND VLAN_CFI \<noteq> 0 \<and> output_tci b vid tci AND VLAN_PCP_MASK = tci AND VLAN_PCP_MASK"
proof -
  note vid = vid_mask [OF assms]
  have "vid AND VLAN_PCP_MASK = (vid AND VLAN_VID_MASK) AND VLAN_PCP_MASK" by (simp only: vid)
  then have pcp: "vid AND VLAN_PCP_MASK = 0" by (simp only: and.assoc tci_masks and_zero_eq)
  note distrib = bit.conj_disj_distrib2 and.assoc
  show "vlan_tci_to_vid (output_tci b vid tci) = vid"
    by (simp add: vlan_tci_to_vid_def output_tci_cases distrib tci_masks vid)
  show "output_tci b vid tci = 0 \<or> output_tci b vid tci AND VLAN_CFI \<noteq> 0 \<and> output_tci b vid tci AND VLAN_PCP_MASK = tci AND VLAN_PCP_MASK"
    by (simp add: output_tci_cases distrib tci_masks pcp or_eq_0_iff)
qed

section \<open>Output\<close>

text \<open>The datapath port that \<open>compose_output_action\<close> outputs to, if it does.\<close>

definition output_gate :: "xbridge \<Rightarrow> bool \<Rightarrow> u16 \<Rightarrow> u32 option" where
  "output_gate xbridge stp ofp_port =
    Option.bind (get_ofp_port xbridge ofp_port) (\<lambda>xport.
      if xp_config xport AND OFPUTIL_PC_NO_FWD \<noteq> 0 \<or>
         \<not> (if stp then xport_stp_should_forward_bpdu xbridge xport else xport_stp_forward_state xbridge xport)
      then None else xp_odp_port xport)"

lemma pop_vlan_flow: "pop_vlan (ctx\<lparr> cx_flow := f \<rparr>) = (pop_vlan ctx)\<lparr> cx_flow := f \<rparr>"
  by (simp add: pop_vlan_def Let_def)

lemma commit_vlan_flow: "commit_vlan_action tci (ctx\<lparr> cx_flow := f \<rparr>) = (commit_vlan_action tci ctx)\<lparr> cx_flow := f \<rparr>"
  by (simp add: commit_vlan_action_def pop_vlan_flow Let_def)

lemma commit_vlan_sel [simp]:
  "cx_flow (commit_vlan_action tci ctx) = cx_flow ctx" "cx_xbridge (commit_vlan_action tci ctx) = cx_xbridge ctx"
  "cx_may_learn (commit_vlan_action tci ctx) = cx_may_learn ctx"
  by (simp_all add: commit_vlan_action_def pop_vlan_def Let_def)

lemma output_to_xport_eq:
  "output_to_xport ctx b vid xport =
    (case output_gate (cx_xbridge ctx) (is_stp (cx_base_flow ctx)) (xp_ofp_port xport) of
       None \<Rightarrow> ctx
     | Some out \<Rightarrow> let c = commit_vlan_action (output_tci b vid (fl_vlan_tci (cx_flow ctx))) ctx
                   in c\<lparr> cx_odp_actions := cx_odp_actions c @ [OVS_ACTION_ATTR_OUTPUT out] \<rparr>)"
  by (auto simp: output_to_xport_def compose_output_action_def output_gate_def commit_vlan_flow Let_def split: option.split)

section \<open>Properties\<close>

definition sample_xbundle :: xbundle where
  "sample_xbundle = \<lparr> xb_ofbundle = 1, xb_xports = [11], xb_bond = None, xb_vlan_mode = PORT_VLAN_TRUNK, xb_vlan = - 1,
    xb_trunks = None, xb_use_priority_tags = False, xb_floodable = True \<rparr>"

definition sample_ctx :: "mac_learning \<Rightarrow> flow \<Rightarrow> xlate_ctx" where
  "sample_ctx ml flow =
    \<lparr> cx_xbridge = \<lparr> xbr_xbundles = [sample_xbundle, sample_xbundle\<lparr> xb_ofbundle := 2, xb_xports := [12] \<rparr>],
        xbr_xports =
          [\<lparr> xp_ofport = 11, xp_ofp_port = 1, xp_odp_port = Some 101, xp_xbundle = Some 1, xp_config = 0, xp_stp_port_no = - 1 \<rparr>,
           \<lparr> xp_ofport = 12, xp_ofp_port = 2, xp_odp_port = Some 102, xp_xbundle = Some 2, xp_config = 0, xp_stp_port_no = - 1 \<rparr>],
        xbr_ml = ml, xbr_mirror_out = (\<lambda>b. 0), xbr_stp = None, xbr_forward_bpdu = False \<rparr>,
      cx_flow = flow, cx_base_flow = flow, cx_wc = flow_wildcards_init_catchall, cx_may_learn = True, cx_slow = False, cx_odp_actions = [] \<rparr>"

lemma fresh_entry:
  assumes "ml_ok ml"
  obtains new where "ml_heap ml new = None"
proof -
  have "dom (ml_heap ml) = set (ml_lrus ml)" using assms by (simp add: ml_ok_def ml_entries_ok_def)
  then have "finite (dom (ml_heap ml))" by simp
  then obtain new where "new \<notin> dom (ml_heap ml)" by (rule ex_new_if_finite [OF infinite_UNIV_nat, THEN exE])
  then show ?thesis by (intro that [of new]) (simp add: domIff)
qed

text \<open>
  C38.  The fast path of MAC learning is exact.  When \<open>is_mac_learning_update_needed\<close>, which only reads the
  table, says that no update is needed, then \<open>update_learning_table__\<close> would leave every entry as it is, the
  expiration times and the locks included, and ask for no revalidation: it would only move the entry to the
  end of the list of least recently used ones.  This holds in every reachable table, as long as no entry has
  been expired for the 68 years after which \<open>mac_entry_age\<close> overflows.
\<close>

theorem learning_fast_path_exact:
  assumes "ml_reachable t ml" "t \<le> now" "ml_heap ml new = None" "length (fl_dl_src flow) = 6"
    and "\<forall>x \<in> set (ml_view ml). now - me_expires x < 2 ^ 31 - 3600"
    and "is_mac_learning_update_needed now ml flow wc vlan in_xbundle = Some (False, wc')"
  shows "\<exists>ml'. update_learning_table_locked now new ml flow wc vlan in_xbundle = Some (ml', wc') \<and>
    ml_heap ml' = ml_heap ml \<and> ml_table ml' = ml_table ml \<and> mset (ml_lrus ml') = mset (ml_lrus ml) \<and>
    ml_need_revalidate ml' = ml_need_revalidate ml"
proof (cases "mac_learning_may_learn (Some ml) (fl_dl_src flow) vlan")
  case True
  have good: "ml_good t ml" by (rule ml_reachable_good [OF assms(1)])
  then have ok: "ml_ok ml" by (simp add: ml_good_def)
  obtain arp wc1 where arp: "is_gratuitous_arp flow wc = (arp, wc1)" by (metis surj_pair)
  obtain e where e: "mac_entry_lookup ml (fl_dl_src flow) vlan = Some e" and age: "mac_entry_age now ml (mac_entry_at ml e) = 0"
    and wc': "wc' = wc1" and port: "arp \<longrightarrow> xb_bond in_xbundle \<noteq> None"
      "me_port (mac_entry_at ml e) = Some (xb_ofbundle in_xbundle) \<or> arp \<and> mac_entry_is_grat_arp_locked now (mac_entry_at ml e)"
    using assms(6) True lookup_good [OF good assms(4), of vlan] arp
    by (auto simp: is_mac_learning_update_needed_def mac_learning_may_learn_def Let_def split: option.splits if_splits)
  note v = view_entry [OF ok assms(4) e]
  let ?x = "mac_entry_at ml e"
  have x: "ml_heap ml e = Some ?x" using ml_heap_lrus [OF ok v(1)] by (simp add: mac_entry_at_def)
  have "?x\<lparr> me_hash := 0 \<rparr> \<in> set (ml_view ml)" using v(1) by (auto simp: ml_view_def)
  then have "me_expires ?x \<le> t + uint (ml_idle_time ml)" "now - me_expires ?x < 2 ^ 31 - 3600"
    using good assms(5) by (auto simp: ml_good_def view_good_def)
  moreover have "uint (ml_idle_time ml) \<le> 3600" using ok by (simp add: ml_ok_def word_le_def)
  ultimately have "me_expires ?x = now + uint (ml_idle_time ml)"
    using age int32_id [of "uint (ml_idle_time ml) - (me_expires ?x - now)"] assms(2) by (simp add: mac_entry_age_def)
  then have "?x\<lparr> me_expires := now + uint (ml_idle_time ml) \<rparr> = ?x" by simp
  then have heap: "(ml_heap ml)(e \<mapsto> ?x\<lparr> me_expires := now + uint (ml_idle_time ml) \<rparr>) = ml_heap ml"
    using x by (simp add: fun_upd_idem)
  define ml1 where "ml1 = ml\<lparr> ml_lrus := remove1 e (ml_lrus ml) @ [e] \<rparr>"
  have i: "mac_learning_insert now new (fl_dl_src flow) vlan ml = Some (e, ml1)"
    using e heap by (simp add: mac_learning_insert_def mac_learning_touch_def ml1_def x)
  have "learned_port now arp in_xbundle ?x = me_port ?x" using port by (auto simp: learned_port_def)
  moreover from this have "learned_entry now arp in_xbundle ?x = ?x" using port(1) by (auto simp: learned_entry_def)
  moreover have "ml_heap ml1 e = Some ?x" using x by (simp add: ml1_def)
  ultimately have "update_learning_table_locked now new ml flow wc vlan in_xbundle = Some (ml1, wc1)"
    using update_locked [OF i True arp, of ?x in_xbundle] by (simp add: fun_upd_idem)
  then show ?thesis using v(1) by (intro exI [of _ ml1]) (simp add: wc' ml1_def)
qed (use assms(6) in \<open>auto simp: is_mac_learning_update_needed_def update_learning_table_locked_def\<close>)

theorem learning_fast_path_exact_witness:
  "\<exists>ml new ml'. is_mac_learning_update_needed 0 ml (sample_flow\<lparr> fl_dl_src := [2, 0, 0, 0, 0, 1] \<rparr>)
      flow_wildcards_init_catchall 9 sample_xbundle = Some (False, flow_wildcards_init_catchall) \<and>
    update_learning_table_locked 0 new ml (sample_flow\<lparr> fl_dl_src := [2, 0, 0, 0, 0, 1] \<rparr>)
      flow_wildcards_init_catchall 9 sample_xbundle = Some (ml', flow_wildcards_init_catchall) \<and> ml_heap ml' = ml_heap ml"
proof -
  let ?m = "[2, 0, 0, 0, 0, 1] :: eth_addr"
  let ?f = "sample_flow\<lparr> fl_dl_src := ?m \<rparr>"
  obtain ml where ml: "ml_reachable 0 ml" "ml_flood_vlans ml = None" "ml_idle_time ml = 300"
    and view: "ml_view ml = [\<lparr> me_hash = 0, me_expires = 300, me_grat_arp_lock = TIME_MIN, me_mac = ?m, me_vlan = 9, me_port = Some 1 \<rparr>]"
    using sample_table by blast
  have good: "ml_good 0 ml" by (rule ml_reachable_good [OF ml(1)])
  then have "ml_ok ml" by (simp add: ml_good_def)
  then obtain new where new: "ml_heap ml new = None" by (rule fresh_entry)
  have "lru_find ?m 9 (ml_view ml) = Some (hd (ml_view ml))" by (simp add: view lru_find_def)
  then have "map_option (\<lambda>e. (mac_entry_at ml e)\<lparr> me_hash := 0 \<rparr>) (mac_entry_lookup ml ?m 9) = Some (hd (ml_view ml))"
    using lru_find_view [of ml ?m 9] good by (simp add: ml_good_def)
  then obtain e where e: "mac_entry_lookup ml ?m 9 = Some e" "(mac_entry_at ml e)\<lparr> me_hash := 0 \<rparr> = hd (ml_view ml)"
    unfolding map_option_eq_Some by blast
  have "me_expires (mac_entry_at ml e) = 300" "me_port (mac_entry_at ml e) = Some 1"
    using arg_cong [OF e(2), of me_expires] arg_cong [OF e(2), of me_port] by (simp_all add: view)
  moreover have "mac_learning_lookup ?m 9 ml = Some (Some e)" "mac_learning_may_learn (Some ml) ?m 9"
    using lookup_good [OF good, of ?m 9] e(1) ml(2)
    by (simp_all add: eth_addr_is_multicast_def is_learning_vlan_def mac_learning_may_learn_def)
  moreover have "is_gratuitous_arp ?f flow_wildcards_init_catchall = (False, flow_wildcards_init_catchall)"
    by (simp add: is_gratuitous_arp_def sample_flow_def ETH_TYPE_ARP_def)
  ultimately have n: "is_mac_learning_update_needed 0 ml ?f flow_wildcards_init_catchall 9 sample_xbundle =
      Some (False, flow_wildcards_init_catchall)"
    by (simp add: is_mac_learning_update_needed_def mac_entry_age_def int32_def ml(3) sample_xbundle_def)
  show ?thesis
    using learning_fast_path_exact [OF ml(1) _ new _ _ n] n by (auto simp: view)
qed

text \<open>
  C37.  A bridge forwards to where it has learned.  After a frame from an address has come in on a bundle and has
  been learned from, a frame to that address in the same VLAN is sent out on that bundle alone, and not at
  all if it came in there itself; it is not flooded.  The exception are gratuitous ARP packets that come in
  on a bond, which may be reflections.
\<close>

theorem learned_then_forwarded:
  assumes "ml_reachable t ml" "t \<le> now" "0 \<le> now" "ml_heap ml new = None" "length (fl_dl_src f) = 6"
    and "mac_learning_may_learn (Some ml) (fl_dl_src f) vlan" "xb_ofbundle b \<noteq> 0"
    and "\<not> (fst (is_gratuitous_arp f wc) \<and> xb_bond b \<noteq> None)"
    and "update_learning_table now new ml f wc vlan b = Some (xbr_ml (cx_xbridge ctx), wc')"
    and "fl_dl_dst (cx_flow ctx) = fl_dl_src f" "xbundle_lookup (cx_xbridge ctx) (xb_ofbundle b) = Some b'"
  shows "forward_normal in_xbundle vlan ctx =
    (if xb_ofbundle in_xbundle = xb_ofbundle b then Some ctx else output_normal ctx b' vlan)"
proof -
  have "xb_ofbundle b' = xb_ofbundle b"
    using assms(11) by (auto simp: xbundle_lookup_def find_Some_iff split: if_splits)
  then show ?thesis
    using update_learning_table_port [OF assms(1-9)] assms(10,11) by (auto simp: forward_normal_def)
qed

theorem learned_then_forwarded_witness:
  "\<exists>ml wc. update_learning_table 100 3 (mac_learning_create 7 300) sample_flow flow_wildcards_init_catchall 9 sample_xbundle = Some (ml, wc) \<and>
    forward_normal (sample_xbundle\<lparr> xb_ofbundle := 2 \<rparr>) 9 (sample_ctx ml (flow_reverse sample_flow)) =
      output_normal (sample_ctx ml (flow_reverse sample_flow)) sample_xbundle 9"
proof -
  let ?ml = "mac_learning_create 7 300"
  have r: "ml_reachable 0 ?ml" by (rule ml_reachable.create)
  have c: "ml_heap ?ml 3 = None" "length (fl_dl_src sample_flow) = 6" "mac_learning_may_learn (Some ?ml) (fl_dl_src sample_flow) 9"
    by (simp_all add: mac_learning_create_def sample_flow_def mac_learning_may_learn_def is_learning_vlan_def eth_addr_is_multicast_def)
  show ?thesis
  proof (rule update_learning_table_ok [OF r _ _ c(1,2), where now = 100 and wc = flow_wildcards_init_catchall and vlan = 9
        and in_xbundle = sample_xbundle])
    fix t ml wc
    assume u: "update_learning_table 100 3 ?ml sample_flow flow_wildcards_init_catchall 9 sample_xbundle = Some (ml, wc)"
    define ctx where "ctx = sample_ctx ml (flow_reverse sample_flow)"
    have ctx: "xbr_ml (cx_xbridge ctx) = ml" "fl_dl_dst (cx_flow ctx) = fl_dl_src sample_flow"
      "xbundle_lookup (cx_xbridge ctx) (xb_ofbundle sample_xbundle) = Some sample_xbundle"
      by (simp_all add: ctx_def sample_ctx_def flow_reverse_def xbundle_lookup_def sample_xbundle_def)
    have b: "xb_ofbundle sample_xbundle \<noteq> 0" "xb_bond sample_xbundle = None" by (simp_all add: sample_xbundle_def)
    have "forward_normal (sample_xbundle\<lparr> xb_ofbundle := 2 \<rparr>) 9 ctx =
        (if xb_ofbundle (sample_xbundle\<lparr> xb_ofbundle := 2 \<rparr>) = xb_ofbundle sample_xbundle
         then Some ctx else output_normal ctx sample_xbundle 9)"
      by (rule learned_then_forwarded [OF r _ _ c b(1) _ u [folded ctx(1)] ctx(2,3)]) (use b(2) in simp_all)
    then show ?thesis using u unfolding ctx_def by (simp add: sample_xbundle_def)
  qed simp_all
qed



end
