(* ===== verification/Masks.thy ===== *)
theory Masks
  imports Bridge
begin

text \<open>
  The masks that the translation of \<open>OFPP_NORMAL\<close> reports are enough: the datapath may apply the actions computed
  for one packet to every packet that agrees with it on the masked fields.  Each operation that looks at the
  flow is shown to give, for two flows that agree on the masks it returns, the same result and the same masks,
  and not to take back masks that were set before.
\<close>

section \<open>Flows that agree\<close>

text \<open>
  What the extraction of flows from packets ensures: the VLAN TCI is 0 or has the CFI bit set, and the type and
  code of ICMP, kept in the fields for the transport ports, have 8 bits.
\<close>

definition flow_valid :: "flow \<Rightarrow> bool" where
  "flow_valid f \<longleftrightarrow> (fl_vlan_tci f = 0 \<or> fl_vlan_tci f AND VLAN_CFI \<noteq> 0) \<and>
    (fl_nw_proto f \<in> {IPPROTO_ICMP, IPPROTO_ICMPV6} \<longrightarrow> fl_tp_src f AND 0xff = fl_tp_src f \<and> fl_tp_dst f AND 0xff = fl_tp_dst f)"

definition both_valid :: "flow \<Rightarrow> flow \<Rightarrow> bool" where
  "both_valid f g \<longleftrightarrow> flow_valid f \<and> flow_valid g"

lemma agree_hash_mono:
  assumes "both_valid f g" "wc_agree (flow_mask_hash_fields f hf wc) f g"
  shows "wc_agree wc f g"
proof (cases hf)
  case NX_HASH_FIELDS_ETH_SRC
  then show ?thesis using assms(2) by (simp add: wc_agree_def)
next
  case NX_HASH_FIELDS_SYMMETRIC_L4
  let ?m = "flow_mask_hash_fields f hf wc"
  have vlan: "fl_vlan_tci f AND wc_vlan_tci wc = fl_vlan_tci g AND wc_vlan_tci wc"
  proof (rule and_mask_mono)
    show "fl_vlan_tci f AND wc_vlan_tci ?m = fl_vlan_tci g AND wc_vlan_tci ?m" using assms(2) by (simp add: wc_agree_def)
    show "wc_vlan_tci ?m AND wc_vlan_tci wc = wc_vlan_tci wc"
      unfolding NX_HASH_FIELDS_SYMMETRIC_L4
      by (rule bit_eqI) (auto simp: bit_and_iff bit_or_iff flow_unwildcard_tp_ports_def Let_def)
  qed
  have tp: "fl_tp_src f AND wc_tp_src wc = fl_tp_src g AND wc_tp_src wc" "fl_tp_dst f AND wc_tp_dst wc = fl_tp_dst g AND wc_tp_dst wc"
  proof -
    have ip: "fl_tp_src f = fl_tp_src g \<and> fl_tp_dst f = fl_tp_dst g" if "is_ip_any f"
    proof (cases "fl_nw_proto f = IPPROTO_ICMP")
      case True
      then have "fl_nw_proto g = IPPROTO_ICMP" "fl_tp_src f AND 0xff = fl_tp_src g AND 0xff" "fl_tp_dst f AND 0xff = fl_tp_dst g AND 0xff"
        using assms(2) that by (auto simp: NX_HASH_FIELDS_SYMMETRIC_L4 wc_agree_def flow_unwildcard_tp_ports_def Let_def split: if_splits)
      then show ?thesis using assms(1) True unfolding both_valid_def flow_valid_def insert_iff by metis
    next
      case False
      then show ?thesis
        using assms(2) that
        by (auto simp: NX_HASH_FIELDS_SYMMETRIC_L4 wc_agree_def flow_unwildcard_tp_ports_def Let_def and_all_ones16 split: if_splits)
    qed
    have no: "wc_tp_src ?m = wc_tp_src wc" "wc_tp_dst ?m = wc_tp_dst wc" if "\<not> is_ip_any f"
      using that by (simp_all add: NX_HASH_FIELDS_SYMMETRIC_L4 Let_def)
    show "fl_tp_src f AND wc_tp_src wc = fl_tp_src g AND wc_tp_src wc" "fl_tp_dst f AND wc_tp_dst wc = fl_tp_dst g AND wc_tp_dst wc"
      using ip no assms(2) by (cases "is_ip_any f"; simp add: wc_agree_def)+
  qed
  show ?thesis
    using assms(2) vlan tp unfolding NX_HASH_FIELDS_SYMMETRIC_L4
    by (auto simp: wc_agree_def flow_unwildcard_tp_ports_def Let_def split: if_splits)
qed

lemma bond_output_mono:
  assumes "both_valid f g" "bond_choose_output_slave bond f wc vlan = Some (a, wc', bond')" "wc_agree wc' f g"
  shows "wc_agree wc f g"
proof -
  have "wc' = wc \<or> wc' = flow_mask_hash_fields f NX_HASH_FIELDS_ETH_SRC wc \<or>
      wc' = flow_mask_hash_fields f NX_HASH_FIELDS_ETH_SRC (flow_mask_hash_fields f NX_HASH_FIELDS_SYMMETRIC_L4 wc)"
    using assms(2) unfolding bond_choose_output_slave_def choose_output_cases
    by (auto split: option.splits bond_mode.splits simp del: flow_mask_hash_fields.simps)
  then show ?thesis using agree_hash_mono [OF assms(1)] assms(3) by blast
qed

text \<open>
  From the start of \<open>xlate_normal\<close> on, the Ethernet addresses, the VLAN and the CFI bit are masked; the input port and
  the Ethernet type are masked before.
\<close>

definition wc_normal :: "flow_wildcards \<Rightarrow> bool" where
  "wc_normal wc \<longleftrightarrow> wc_in_port wc \<and> wc_dl_type wc \<and> wc_dl_src wc \<and> wc_dl_dst wc \<and> wc_vlan_tci wc AND (VLAN_VID_MASK OR VLAN_CFI) = VLAN_VID_MASK OR VLAN_CFI"

lemma gratuitous_arp_masked:
  assumes a: "is_gratuitous_arp f wc = (arp, wc')" and g: "wc_agree wc' f g" and type: "wc_dl_type wc"
  shows "is_gratuitous_arp g wc = (arp, wc')" "wc_agree wc f g" "wc_normal wc \<Longrightarrow> wc_normal wc'"
proof -
  consider "fl_dl_type f \<noteq> ETH_TYPE_ARP" "wc' = wc" "\<not> arp"
    | "fl_dl_type f = ETH_TYPE_ARP" "\<not> eth_addr_is_broadcast (fl_dl_dst f)" "wc' = wc\<lparr> wc_dl_dst := True \<rparr>" "\<not> arp"
    | "fl_dl_type f = ETH_TYPE_ARP" "eth_addr_is_broadcast (fl_dl_dst f)" "fl_nw_proto f \<noteq> ARP_OP_REQUEST"
      "wc' = wc\<lparr> wc_dl_dst := True, wc_nw_proto := True \<rparr>" "arp = (fl_nw_proto f = ARP_OP_REPLY)"
    | "fl_dl_type f = ETH_TYPE_ARP" "eth_addr_is_broadcast (fl_dl_dst f)" "fl_nw_proto f = ARP_OP_REQUEST"
      "wc' = wc\<lparr> wc_dl_dst := True, wc_nw_proto := True, wc_nw_src := True, wc_nw_dst := True \<rparr>" "arp = (fl_nw_src f = fl_nw_dst f)"
    using a by (simp add: is_gratuitous_arp_def ARP_OP_REQUEST_def ARP_OP_REPLY_def Let_def split: if_splits)
  then have "is_gratuitous_arp g wc = (arp, wc') \<and> wc_agree wc f g \<and> (wc_normal wc \<longrightarrow> wc_normal wc')"
    by cases
      (use g type in \<open>simp_all add: is_gratuitous_arp_def wc_agree_def wc_normal_def ARP_OP_REQUEST_def ARP_OP_REPLY_def Let_def\<close>)
  then show "is_gratuitous_arp g wc = (arp, wc')" "wc_agree wc f g" "wc_normal wc \<Longrightarrow> wc_normal wc'" by blast+
qed

lemma agree_normal:
  assumes "wc_normal wc" "wc_agree wc f g"
  shows "fl_dl_src g = fl_dl_src f" "fl_dl_dst g = fl_dl_dst f" "fl_dl_type g = fl_dl_type f" "fl_in_port g = fl_in_port f"
    and "fl_vlan_tci g AND VLAN_VID_MASK = fl_vlan_tci f AND VLAN_VID_MASK" "fl_vlan_tci g AND VLAN_CFI = fl_vlan_tci f AND VLAN_CFI"
proof -
  show "fl_dl_src g = fl_dl_src f" "fl_dl_dst g = fl_dl_dst f" "fl_dl_type g = fl_dl_type f" "fl_in_port g = fl_in_port f"
    using assms by (auto simp: wc_normal_def wc_agree_def)
  have "fl_vlan_tci g AND wc_vlan_tci wc = fl_vlan_tci f AND wc_vlan_tci wc" using assms(2) by (simp add: wc_agree_def)
  with assms(1) have eq: "fl_vlan_tci g AND (VLAN_VID_MASK OR VLAN_CFI) = fl_vlan_tci f AND (VLAN_VID_MASK OR VLAN_CFI)"
    unfolding wc_normal_def using and_mask_mono [of "wc_vlan_tci wc"] by blast
  show "fl_vlan_tci g AND VLAN_VID_MASK = fl_vlan_tci f AND VLAN_VID_MASK"
    by (rule and_mask_mono [OF _ eq]) (simp add: VLAN_VID_MASK_def VLAN_CFI_def)
  show "fl_vlan_tci g AND VLAN_CFI = fl_vlan_tci f AND VLAN_CFI"
    by (rule and_mask_mono [OF _ eq]) (simp add: VLAN_VID_MASK_def VLAN_CFI_def)
qed

section \<open>Learning and admission\<close>

text \<open>Operations that mask more only by looking for a gratuitous ARP packet.\<close>

lemma arp_masked_cases:
  assumes "wc_normal wc" "wc' = wc \<or> wc' = snd (is_gratuitous_arp f wc)" "wc_agree wc' f g"
  shows "wc_agree wc f g" "wc_normal wc'"
    and "wc' = snd (is_gratuitous_arp f wc) \<Longrightarrow> is_gratuitous_arp g wc = is_gratuitous_arp f wc"
proof -
  have type: "wc_dl_type wc" using assms(1) by (simp add: wc_normal_def)
  obtain arp wc1 where arp: "is_gratuitous_arp f wc = (arp, wc1)" by (metis surj_pair)
  have "wc_agree wc f g \<and> wc_normal wc'"
    using assms gratuitous_arp_masked [OF arp, of g] type by (cases "wc' = wc") (simp_all add: arp)
  then show "wc_agree wc f g" "wc_normal wc'" by blast+
  show "wc' = snd (is_gratuitous_arp f wc) \<Longrightarrow> is_gratuitous_arp g wc = is_gratuitous_arp f wc"
    using gratuitous_arp_masked(1) [OF arp, of g] assms(3) type by (simp add: arp)
qed

lemma update_needed_masked:
  assumes "wc_normal wc" "is_mac_learning_update_needed now ml f wc vlan b = Some (need, wc')" "wc_agree wc' f g"
  shows "is_mac_learning_update_needed now ml g wc vlan b = Some (need, wc')" "wc_agree wc f g" "wc_normal wc'"
proof -
  have "wc' = wc \<or> wc' = snd (is_gratuitous_arp f wc)"
    using assms(2) by (auto simp: is_mac_learning_update_needed_def Let_def split: option.splits if_splits prod.splits)
  note c = arp_masked_cases [OF assms(1) this assms(3)]
  show "wc_agree wc f g" "wc_normal wc'" by (rule c)+
  note same = agree_normal [OF assms(1) c(1)]
  show "is_mac_learning_update_needed now ml g wc vlan b = Some (need, wc')"
  proof (cases "wc' = snd (is_gratuitous_arp f wc)")
    case True
    show ?thesis using assms(2) unfolding is_mac_learning_update_needed_def same c(3) [OF True] .
  next
    case False
    then show ?thesis
      using assms(2) unfolding is_mac_learning_update_needed_def same by (auto simp: Let_def split: option.splits if_splits prod.splits)
  qed
qed

lemma update_locked_masked:
  assumes "wc_normal wc" "update_learning_table_locked now new ml f wc vlan b = Some (ml', wc')" "wc_agree wc' f g"
  shows "update_learning_table_locked now new ml g wc vlan b = Some (ml', wc')" "wc_agree wc f g" "wc_normal wc'"
proof -
  have "wc' = wc \<or> wc' = snd (is_gratuitous_arp f wc)"
    using assms(2) by (auto simp: update_learning_table_locked_def Let_def split: option.splits if_splits prod.splits)
  note c = arp_masked_cases [OF assms(1) this assms(3)]
  show "wc_agree wc f g" "wc_normal wc'" by (rule c)+
  note same = agree_normal [OF assms(1) c(1)]
  show "update_learning_table_locked now new ml g wc vlan b = Some (ml', wc')"
  proof (cases "wc' = snd (is_gratuitous_arp f wc)")
    case True
    show ?thesis using assms(2) unfolding update_learning_table_locked_def same c(3) [OF True] .
  next
    case False
    then show ?thesis
      using assms(2) unfolding update_learning_table_locked_def same by (auto simp: Let_def split: option.splits if_splits prod.splits)
  qed
qed

lemma update_learning_table_masked:
  assumes "wc_normal wc" "update_learning_table now new ml f wc vlan b = Some (ml', wc')" "wc_agree wc' f g"
  shows "update_learning_table now new ml g wc vlan b = Some (ml', wc')" "wc_agree wc f g" "wc_normal wc'"
proof -
  have "update_learning_table now new ml g wc vlan b = Some (ml', wc') \<and> wc_agree wc f g \<and> wc_normal wc'"
  proof (cases "xb_ofbundle b = 0")
    case False
    then obtain need wc1 where need: "is_mac_learning_update_needed now ml f wc vlan b = Some (need, wc1)"
      using assms(2) by (auto simp: update_learning_table_def split: option.splits)
    note n = update_needed_masked [OF assms(1) need]
    show ?thesis
    proof (cases need)
      case True
      then have "update_learning_table_locked now new ml f wc1 vlan b = Some (ml', wc')"
        using assms(2) False need by (simp add: update_learning_table_def)
      moreover have "wc_normal wc1" by (rule update_needed_masked(3) [OF assms(1) need, of f]) (simp add: wc_agree_def)
      ultimately show ?thesis
        using update_locked_masked [OF _ _ assms(3)] n True False by (auto simp: update_learning_table_def)
    next
      case need_False: False
      then show ?thesis using assms need n False by (simp add: update_learning_table_def)
    qed
  qed (use assms in \<open>simp add: update_learning_table_def\<close>)
  then show "update_learning_table now new ml g wc vlan b = Some (ml', wc')" "wc_agree wc f g" "wc_normal wc'" by blast+
qed

lemma unless_moved_masked:
  assumes "wc_normal wc" "admissible_unless_moved now ml f wc vlan b = Some (ok, wc')" "wc_agree wc' f g"
  shows "admissible_unless_moved now ml g wc vlan b = Some (ok, wc') \<and> wc_agree wc f g \<and> wc_normal wc'"
proof -
  have "wc' = wc \<or> wc' = snd (is_gratuitous_arp f wc)"
    using assms(2) by (auto simp: admissible_unless_moved_def Let_def split: option.splits if_splits prod.splits)
  note c = arp_masked_cases [OF assms(1) this assms(3)]
  note same = agree_normal [OF assms(1) c(1)]
  have "admissible_unless_moved now ml g wc vlan b = Some (ok, wc')"
  proof (cases "wc' = snd (is_gratuitous_arp f wc)")
    case True
    show ?thesis using assms(2) unfolding admissible_unless_moved_def same c(3) [OF True] .
  next
    case False
    then show ?thesis
      using assms(2) unfolding admissible_unless_moved_def same by (auto simp: Let_def split: option.splits if_splits prod.splits)
  qed
  then show ?thesis using c by blast
qed

lemma is_admissible_masked:
  assumes "wc_normal (cx_wc ctx)" "is_admissible now ctx in_port vlan = Some (ok, wc')" "wc_agree wc' (cx_flow ctx) g"
  shows "is_admissible now (ctx\<lparr> cx_flow := g, cx_base_flow := bg \<rparr>) in_port vlan = Some (ok, wc') \<and>
    wc_agree (cx_wc ctx) (cx_flow ctx) g \<and> wc_normal wc'"
proof -
  let ?c = "ctx\<lparr> cx_flow := g, cx_base_flow := bg \<rparr>"
  have sel: "cx_flow ?c = g" "cx_xbridge ?c = cx_xbridge ctx" "cx_wc ?c = cx_wc ctx" by simp_all
  consider "wc' = cx_wc ctx" "\<And>b. admissible_unless_moved now (xbr_ml (cx_xbridge ctx)) (cx_flow ctx) (cx_wc ctx) vlan b \<noteq> Some (ok, wc')"
    | b where "admissible_unless_moved now (xbr_ml (cx_xbridge ctx)) (cx_flow ctx) (cx_wc ctx) vlan b = Some (ok, wc')"
    using assms(2) by (auto simp: is_admissible_def Let_def split: option.splits if_splits bond_verdict.splits)
  then show ?thesis
  proof cases
    case 1
    then have same: "fl_dl_src g = fl_dl_src (cx_flow ctx)" "fl_dl_dst g = fl_dl_dst (cx_flow ctx)"
      using agree_normal [OF assms(1)] assms(3) by simp_all
    have "is_admissible now ?c in_port vlan = Some (ok, wc')"
      using assms(2) 1(2) unfolding is_admissible_def sel Let_def same
      by (auto split: option.splits if_splits bond_verdict.splits)
    then show ?thesis using 1(1) assms(1,3) by simp
  next
    case 2
    note m = unless_moved_masked [OF assms(1) 2 assms(3)]
    then have same: "fl_dl_src g = fl_dl_src (cx_flow ctx)" "fl_dl_dst g = fl_dl_dst (cx_flow ctx)"
      using agree_normal [OF assms(1)] by simp_all
    have u: "admissible_unless_moved now (xbr_ml (cx_xbridge ctx)) g (cx_wc ctx) vlan x = Some (ok, wc')"
      if "admissible_unless_moved now (xbr_ml (cx_xbridge ctx)) (cx_flow ctx) (cx_wc ctx) vlan x = Some (ok, wc')" for x
      using unless_moved_masked [OF assms(1) that assms(3)] by blast
    have "is_admissible now ?c in_port vlan = Some (ok, wc')"
      using assms(2) u unfolding is_admissible_def sel Let_def same
      by (auto split: option.splits if_splits bond_verdict.splits)
    then show ?thesis using m by blast
  qed
qed

section \<open>Output\<close>

text \<open>
  The same translation for another packet: \<open>retarget g y ctx\<close> has the flow \<open>g\<close>, whose packet has the TCI \<open>y\<close> after
  the actions so far.  Either no action has changed the tag of either packet, or the tag is masked as a whole.
\<close>

definition retarget :: "flow \<Rightarrow> u16 \<Rightarrow> xlate_ctx \<Rightarrow> xlate_ctx" where
  "retarget g y ctx = ctx\<lparr> cx_flow := g, cx_base_flow := g\<lparr> fl_vlan_tci := y \<rparr> \<rparr>"

definition tags_related :: "flow \<Rightarrow> u16 \<Rightarrow> xlate_ctx \<Rightarrow> bool" where
  "tags_related g y ctx \<longleftrightarrow>
    cx_base_flow ctx = (cx_flow ctx)\<lparr> fl_vlan_tci := fl_vlan_tci (cx_base_flow ctx) \<rparr> \<and>
    (fl_vlan_tci (cx_base_flow ctx) = fl_vlan_tci (cx_flow ctx) \<and> y = fl_vlan_tci g \<or>
     fl_vlan_tci (cx_base_flow ctx) = y \<and> wc_vlan_tci (cx_wc ctx) = 0xffff)"

lemma retarget_sel [simp]:
  "cx_flow (retarget g y ctx) = g" "cx_base_flow (retarget g y ctx) = g\<lparr> fl_vlan_tci := y \<rparr>"
  "cx_wc (retarget g y ctx) = cx_wc ctx" "cx_xbridge (retarget g y ctx) = cx_xbridge ctx"
  "cx_odp_actions (retarget g y ctx) = cx_odp_actions ctx" "cx_may_learn (retarget g y ctx) = cx_may_learn ctx"
  by (simp_all add: retarget_def)

lemma tci_split: "x = ((x AND VLAN_VID_MASK) OR (x AND VLAN_PCP_MASK)) OR (x AND VLAN_CFI)"
proof -
  have "x AND ((VLAN_VID_MASK OR VLAN_PCP_MASK) OR VLAN_CFI) = x"
    using and_all_ones16 [of x] by (simp add: VLAN_VID_MASK_def VLAN_PCP_MASK_def VLAN_CFI_def)
  then show ?thesis by (simp only: bit.conj_disj_distrib)
qed

text \<open>Without priority tags, a packet needs no new tag exactly if every packet that agrees on VLAN and CFI needs none.\<close>

lemma output_tci_unchanged:
  assumes "xb_use_priority_tags b \<longrightarrow> fl_vlan_tci g = fl_vlan_tci f" "uint vid < 4096" "both_valid f g"
    and "fl_vlan_tci g AND VLAN_VID_MASK = fl_vlan_tci f AND VLAN_VID_MASK" "fl_vlan_tci g AND VLAN_CFI = fl_vlan_tci f AND VLAN_CFI"
    and "output_tci b vid (fl_vlan_tci f) = fl_vlan_tci f"
  shows "output_tci b vid (fl_vlan_tci g) = fl_vlan_tci g"
proof (cases "fl_vlan_tci g = fl_vlan_tci f"; cases "vid = 0")
  assume ne: "fl_vlan_tci g \<noteq> fl_vlan_tci f" and True: "vid = 0"
  then have "fl_vlan_tci f = 0" using assms(1,6) by (simp add: output_tci_cases)
  then have "fl_vlan_tci g = 0" using assms(3,5) by (simp add: both_valid_def flow_valid_def)
  then show ?thesis using True ne assms(1) by (simp add: output_tci_cases)
next
  assume "fl_vlan_tci g \<noteq> fl_vlan_tci f" and False: "vid \<noteq> 0"
  have "fl_vlan_tci g AND VLAN_VID_MASK = vid"
    using output_tci_sel(1) [OF assms(2), of b "fl_vlan_tci f"] assms(4,6) by (simp add: vlan_tci_to_vid_def)
  moreover have "fl_vlan_tci g AND VLAN_CFI = VLAN_CFI"
  proof -
    have "fl_vlan_tci f AND VLAN_CFI = ((vid OR (fl_vlan_tci f AND VLAN_PCP_MASK)) OR VLAN_CFI) AND VLAN_CFI"
      using assms(6) False by (simp add: output_tci_cases)
    also have "\<dots> = VLAN_CFI" by (rule bit_eqI) (auto simp: bit_and_iff bit_or_iff)
    finally show ?thesis using assms(5) by simp
  qed
  ultimately show ?thesis using tci_split [of "fl_vlan_tci g"] False by (simp add: output_tci_cases)
qed (use assms(6) in simp_all)

lemma commit_vlan_changed:
  assumes "fl_vlan_tci (cx_base_flow ctx) \<noteq> tci"
  shows "cx_wc (commit_vlan_action tci ctx) = (cx_wc ctx)\<lparr> wc_vlan_tci := 0xffff \<rparr>"
    and "cx_base_flow (commit_vlan_action tci ctx) = (cx_base_flow ctx)\<lparr> fl_vlan_tci := tci \<rparr>"
    and "x = fl_vlan_tci (cx_base_flow ctx) \<Longrightarrow> commit_vlan_action tci (retarget g x ctx) = retarget g tci (commit_vlan_action tci ctx)"
  using assms by (simp_all add: commit_vlan_action_def pop_vlan_def retarget_def Let_def)

lemma agree_whole_tag: "wc_agree wc f g \<Longrightarrow> wc_vlan_tci wc = 0xffff \<Longrightarrow> fl_vlan_tci g = fl_vlan_tci f"
  by (simp add: wc_agree_def and_all_ones16)

lemma commit_vlan_masked:
  assumes "both_valid (cx_flow ctx) g" "wc_normal (cx_wc ctx)" "xb_use_priority_tags b \<longrightarrow> fl_vlan_tci g = fl_vlan_tci (cx_flow ctx)" "uint vid < 4096" "tags_related g y ctx"
    and tci: "tci = output_tci b vid (fl_vlan_tci (cx_flow ctx))"
    and agree: "wc_agree (cx_wc (commit_vlan_action tci ctx)) (cx_flow ctx) g"
  shows "\<exists>y'. commit_vlan_action (output_tci b vid (fl_vlan_tci g)) (retarget g y ctx) = retarget g y' (commit_vlan_action tci ctx) \<and>
    tags_related g y' (commit_vlan_action tci ctx) \<and>
    wc_agree (cx_wc ctx) (cx_flow ctx) g \<and> wc_normal (cx_wc (commit_vlan_action tci ctx))"
proof (cases "fl_vlan_tci (cx_base_flow ctx) = tci")
  case True
  then have same: "commit_vlan_action tci ctx = ctx" by (simp add: commit_vlan_action_def)
  then have a: "wc_agree (cx_wc ctx) (cx_flow ctx) g" using agree by simp
  have "output_tci b vid (fl_vlan_tci g) = y"
  proof (cases "wc_vlan_tci (cx_wc ctx) = 0xffff \<and> fl_vlan_tci (cx_base_flow ctx) = y")
    case w: True
    then show ?thesis using agree_whole_tag [OF a] True tci by simp
  next
    case False
    then have "fl_vlan_tci (cx_base_flow ctx) = fl_vlan_tci (cx_flow ctx)" "y = fl_vlan_tci g"
      using assms(5) by (auto simp: tags_related_def)
    then show ?thesis
      using output_tci_unchanged [OF assms(3,4,1) agree_normal(5,6) [OF assms(2) a]] True tci by simp
  qed
  then have "commit_vlan_action (output_tci b vid (fl_vlan_tci g)) (retarget g y ctx) = retarget g y ctx"
    by (simp add: commit_vlan_action_def)
  then show ?thesis using same a assms(2,5) by auto
next
  case False
  note c = commit_vlan_changed [OF False]
  have w: "fl_vlan_tci g = fl_vlan_tci (cx_flow ctx)" using agree_whole_tag [OF agree] by (simp add: c(1))
  then have y: "y = fl_vlan_tci (cx_base_flow ctx)" using assms(5) by (auto simp: tags_related_def)
  have "tags_related g tci (commit_vlan_action tci ctx)"
  proof -
    have base: "cx_base_flow ctx = (cx_flow ctx)\<lparr> fl_vlan_tci := fl_vlan_tci (cx_base_flow ctx) \<rparr>"
      using assms(5) by (simp add: tags_related_def)
    have "(cx_base_flow ctx)\<lparr> fl_vlan_tci := tci \<rparr> = (cx_flow ctx)\<lparr> fl_vlan_tci := tci \<rparr>" by (subst base) simp
    then show ?thesis by (simp add: tags_related_def c(1,2))
  qed
  moreover have "wc_agree (cx_wc ctx) (cx_flow ctx) g" using agree w by (simp add: c(1) wc_agree_def)
  moreover have "wc_normal (cx_wc (commit_vlan_action tci ctx))"
    using assms(2) by (simp add: c(1) wc_normal_def VLAN_VID_MASK_def VLAN_CFI_def)
  moreover have "commit_vlan_action (output_tci b vid (fl_vlan_tci g)) (retarget g y ctx) = retarget g tci (commit_vlan_action tci ctx)"
    unfolding w tci [symmetric] by (rule c(3) [OF y])
  ultimately show ?thesis by blast
qed

lemma output_to_xport_masked:
  assumes "both_valid (cx_flow ctx) g" "wc_normal (cx_wc ctx)" "xb_use_priority_tags b \<longrightarrow> fl_vlan_tci g = fl_vlan_tci (cx_flow ctx)" "uint vid < 4096" "tags_related g y ctx"
    and agree: "wc_agree (cx_wc (output_to_xport ctx b vid xport)) (cx_flow ctx) g"
  shows "\<exists>y'. output_to_xport (retarget g y ctx) b vid xport = retarget g y' (output_to_xport ctx b vid xport) \<and>
    tags_related g y' (output_to_xport ctx b vid xport) \<and> wc_agree (cx_wc ctx) (cx_flow ctx) g \<and>
    wc_normal (cx_wc (output_to_xport ctx b vid xport))"
proof -
  let ?gate = "output_gate (cx_xbridge ctx) (is_stp (cx_base_flow ctx)) (xp_ofp_port xport)"
  define tci where "tci = output_tci b vid (fl_vlan_tci (cx_flow ctx))"
  have base: "cx_base_flow ctx = (cx_flow ctx)\<lparr> fl_vlan_tci := fl_vlan_tci (cx_base_flow ctx) \<rparr>" using assms(5) by (simp add: tags_related_def)
  have stp: "is_stp (g\<lparr> fl_vlan_tci := y \<rparr>) = is_stp (cx_base_flow ctx)" if "wc_agree (cx_wc ctx) (cx_flow ctx) g"
    using agree_normal(2,3) [OF assms(2) that] by (subst base) (simp add: is_stp_def)
  show ?thesis
  proof (cases ?gate)
    case None
    then have "output_to_xport ctx b vid xport = ctx" by (simp add: output_to_xport_eq)
    moreover from this have "wc_agree (cx_wc ctx) (cx_flow ctx) g" using agree by simp
    ultimately show ?thesis using None stp assms(2,5) by (intro exI [of _ y]) (simp add: output_to_xport_eq)
  next
    case (Some out)
    let ?add = "\<lambda>c. c\<lparr> cx_odp_actions := cx_odp_actions c @ [OVS_ACTION_ATTR_OUTPUT out] \<rparr>"
    have eq: "output_to_xport ctx b vid xport = ?add (commit_vlan_action tci ctx)"
      using Some by (simp add: output_to_xport_eq tci_def Let_def)
    have "wc_agree (cx_wc (commit_vlan_action tci ctx)) (cx_flow ctx) g" using agree by (simp add: eq)
    from commit_vlan_masked [OF assms(1-5) tci_def this] obtain y' where
      c: "commit_vlan_action (output_tci b vid (fl_vlan_tci g)) (retarget g y ctx) = retarget g y' (commit_vlan_action tci ctx)"
      "tags_related g y' (commit_vlan_action tci ctx)" "wc_agree (cx_wc ctx) (cx_flow ctx) g"
      "wc_normal (cx_wc (commit_vlan_action tci ctx))" by blast
    have "output_to_xport (retarget g y ctx) b vid xport = ?add (retarget g y' (commit_vlan_action tci ctx))"
      using Some stp [OF c(3)] c(1) by (simp add: output_to_xport_eq Let_def)
    also have "\<dots> = retarget g y' (output_to_xport ctx b vid xport)" by (simp add: eq retarget_def)
    finally show ?thesis using c(2-4) by (intro exI [of _ y']) (simp add: eq tags_related_def)
  qed
qed

lemma or_all_ones16: "0xffff OR x = (0xffff :: u16)"
proof -
  have "(0xffff :: u16) = - 1" by simp
  then show ?thesis by (simp only: bit.disj_one_left)
qed

lemma hash_mask_keeps:
  "wc_normal wc \<Longrightarrow> wc_normal (flow_mask_hash_fields f hf wc)"
  "wc_vlan_tci wc = 0xffff \<Longrightarrow> wc_vlan_tci (flow_mask_hash_fields f hf wc) = 0xffff"
proof -
  have "(m OR n) AND n = n" for m n :: u16 by (rule bit_eqI) (auto simp: bit_and_iff bit_or_iff)
  then show "wc_normal wc \<Longrightarrow> wc_normal (flow_mask_hash_fields f hf wc)"
    by (cases hf) (simp_all add: wc_normal_def flow_unwildcard_tp_ports_def Let_def)
  show "wc_vlan_tci wc = 0xffff \<Longrightarrow> wc_vlan_tci (flow_mask_hash_fields f hf wc) = 0xffff"
    by (cases hf) (simp_all add: flow_unwildcard_tp_ports_def Let_def or_all_ones16)
qed

lemma bond_masks:
  assumes "bond_choose_output_slave bond f wc vlan = Some (a, wc', bond')"
  obtains "wc' = wc" | "wc' = flow_mask_hash_fields f NX_HASH_FIELDS_ETH_SRC wc"
    | "wc' = flow_mask_hash_fields f NX_HASH_FIELDS_ETH_SRC (flow_mask_hash_fields f NX_HASH_FIELDS_SYMMETRIC_L4 wc)"
  using assms unfolding bond_choose_output_slave_def choose_output_cases
  by (auto split: option.splits bond_mode.splits simp del: flow_mask_hash_fields.simps)

lemma bond_masks_keep:
  assumes "bond_choose_output_slave bond f wc vlan = Some (a, wc', bond')"
  shows "wc_normal wc \<Longrightarrow> wc_normal wc'" "wc_vlan_tci wc = 0xffff \<Longrightarrow> wc_vlan_tci wc' = 0xffff"
  using bond_masks [OF assms] hash_mask_keeps by metis+

lemma output_normal_masked:
  assumes "both_valid (cx_flow ctx) g" "wc_normal (cx_wc ctx)" "xb_use_priority_tags b \<longrightarrow> fl_vlan_tci g = fl_vlan_tci (cx_flow ctx)" "uint vlan < 4096" "tags_related g y ctx"
    and out: "output_normal ctx b vlan = Some ctx'" and agree: "wc_agree (cx_wc ctx') (cx_flow ctx) g"
  shows "\<exists>y'. output_normal (retarget g y ctx) b vlan = Some (retarget g y' ctx') \<and> tags_related g y' ctx' \<and>
    wc_agree (cx_wc ctx) (cx_flow ctx) g \<and> wc_normal (cx_wc ctx') \<and> cx_flow ctx' = cx_flow ctx"
proof -
  define vid where "vid = output_vlan_to_vid b vlan"
  have vid: "uint vid < 4096" using assms(4) by (simp add: vid_def output_vlan_to_vid_def split: port_vlan_mode.split)
  have flow: "cx_flow (output_to_xport c b vid xport) = cx_flow c" for c xport
    by (simp add: output_to_xport_eq Let_def split: option.split)
  show ?thesis
  proof (cases "xb_xports b")
    case Nil
    then show ?thesis using assms by (intro exI [of _ y]) (simp add: output_normal_def)
  next
    case (Cons p ps)
    show ?thesis
    proof (cases "xb_bond b")
      case None
      then obtain xport where x: "xport_lookup (cx_xbridge ctx) p = Some xport" "ctx' = output_to_xport ctx b vid xport"
        using out Cons by (auto simp: output_normal_def vid_def Let_def)
      from output_to_xport_masked [OF assms(1-3) vid assms(5), of xport] agree x(2)
      show ?thesis using Cons None x by (auto simp: output_normal_def vid_def [symmetric] Let_def flow)
    next
      case (Some bond)
      then obtain ofport wc1 bond1 where c: "bond_choose_output_slave bond (cx_flow ctx) (cx_wc ctx) vid = Some (ofport, wc1, bond1)"
        using out Cons by (auto simp: output_normal_def vid_def [symmetric] Let_def split: option.splits)
      define ctx1 where "ctx1 = ctx\<lparr> cx_wc := wc1, cx_xbridge := set_bond (xb_ofbundle b) bond1 (cx_xbridge ctx) \<rparr>"
      define target where "target = Option.bind ofport (xport_lookup (cx_xbridge ctx1))"
      have ctx': "ctx' = (case target of None \<Rightarrow> ctx1 | Some xport \<Rightarrow> output_to_xport ctx1 b vid xport)"
        using out Cons Some c by (auto simp: output_normal_def vid_def [symmetric] Let_def ctx1_def target_def split: option.splits)
      have ctx1: "cx_flow ctx1 = cx_flow ctx" "cx_wc ctx1 = wc1" "wc_normal (cx_wc ctx1)" "tags_related g y ctx1"
        using assms(2,5) bond_masks_keep [OF c] by (auto simp: ctx1_def tags_related_def)
      have "\<exists>y'. (case target of None \<Rightarrow> retarget g y ctx1 | Some xport \<Rightarrow> output_to_xport (retarget g y ctx1) b vid xport) =
          retarget g y' ctx' \<and> tags_related g y' ctx' \<and> wc_agree wc1 (cx_flow ctx) g \<and> wc_normal (cx_wc ctx') \<and> cx_flow ctx' = cx_flow ctx"
        using output_to_xport_masked [of ctx1 g b vid y] assms(1,3) vid ctx1 agree
        by (auto simp: ctx' flow split: option.split)
      then obtain y' where y': "(case target of None \<Rightarrow> retarget g y ctx1 | Some xport \<Rightarrow> output_to_xport (retarget g y ctx1) b vid xport) =
          retarget g y' ctx'" "tags_related g y' ctx'" "wc_agree wc1 (cx_flow ctx) g" "wc_normal (cx_wc ctx')" "cx_flow ctx' = cx_flow ctx" by blast
      have g: "bond_choose_output_slave bond g (cx_wc ctx) vid = Some (ofport, wc1, bond1)" using choose_output_masked [OF c y'(3)] assms(2) by (simp add: wc_normal_def)
      have re: "(retarget g y ctx)\<lparr> cx_wc := wc1, cx_xbridge := set_bond (xb_ofbundle b) bond1 (cx_xbridge ctx) \<rparr> = retarget g y ctx1"
        by (simp add: ctx1_def retarget_def)
      have cx1: "cx_xbridge ctx1 = set_bond (xb_ofbundle b) bond1 (cx_xbridge ctx)" by (simp add: ctx1_def)
      have "output_normal (retarget g y ctx) b vlan =
          Some (case target of None \<Rightarrow> retarget g y ctx1 | Some xport \<Rightarrow> output_to_xport (retarget g y ctx1) b vid xport)"
        using Cons Some g by (simp add: output_normal_def vid_def [symmetric] Let_def target_def re cx1 split: option.split)
      then show ?thesis using y' bond_output_mono [OF assms(1) c y'(3)] by auto
    qed
  qed
qed

text \<open>Masks are not taken back, so agreement at the end of a translation gives agreement at every point before.\<close>

lemma wc_agree_whole_tag:
  assumes "wc_agree (wc\<lparr> wc_vlan_tci := 0xffff \<rparr>) f g"
  shows "wc_agree wc f g"
proof -
  have t: "fl_vlan_tci g = fl_vlan_tci f" by (rule agree_whole_tag [OF assms]) simp
  show ?thesis using assms by (cases wc, simp only: wc_agree_def t flow_wildcards.simps simp_thms)
qed

lemma output_to_xport_mono:
  assumes "wc_agree (cx_wc (output_to_xport ctx b vid xport)) f g"
  shows "wc_agree (cx_wc ctx) f g"
proof -
  have "cx_wc (output_to_xport ctx b vid xport) = cx_wc ctx \<or> cx_wc (output_to_xport ctx b vid xport) = (cx_wc ctx)\<lparr> wc_vlan_tci := 0xffff \<rparr>"
    by (auto simp: output_to_xport_eq commit_vlan_action_def pop_vlan_def Let_def split: option.split)
  then show ?thesis
  proof
    assume "cx_wc (output_to_xport ctx b vid xport) = (cx_wc ctx)\<lparr> wc_vlan_tci := 0xffff \<rparr>"
    then show ?thesis using assms by (simp add: wc_agree_whole_tag)
  qed (use assms in simp)
qed

lemma output_normal_cases:
  assumes "output_normal ctx b vlan = Some ctx'"
  obtains "ctx' = ctx" | xport where "ctx' = output_to_xport ctx b (output_vlan_to_vid b vlan) xport"
    | bond a wc bond' ctx1 where
      "bond_choose_output_slave bond (cx_flow ctx) (cx_wc ctx) (output_vlan_to_vid b vlan) = Some (a, wc, bond')"
      "ctx1 = ctx\<lparr> cx_wc := wc, cx_xbridge := set_bond (xb_ofbundle b) bond' (cx_xbridge ctx) \<rparr>"
      "ctx' = ctx1 \<or> (\<exists>xport. ctx' = output_to_xport ctx1 b (output_vlan_to_vid b vlan) xport)"
proof (cases "xb_xports b")
  case Nil
  then show ?thesis using assms that(1) by (simp add: output_normal_def)
next
  case (Cons p ps)
  show ?thesis
  proof (cases "xb_bond b")
    case None
    then show ?thesis using assms Cons that(2) by (auto simp: output_normal_def Let_def)
  next
    case (Some bond)
    then obtain a wc bond' where
      c: "bond_choose_output_slave bond (cx_flow ctx) (cx_wc ctx) (output_vlan_to_vid b vlan) = Some (a, wc, bond')"
      using assms Cons by (auto simp: output_normal_def Let_def split: option.splits)
    define ctx1 where "ctx1 = ctx\<lparr> cx_wc := wc, cx_xbridge := set_bond (xb_ofbundle b) bond' (cx_xbridge ctx) \<rparr>"
    have "ctx' = ctx1 \<or> (\<exists>xport. ctx' = output_to_xport ctx1 b (output_vlan_to_vid b vlan) xport)"
      using assms Cons Some c unfolding output_normal_def Let_def
      by (simp add: ctx1_def [symmetric] split: option.splits) blast+
    then show ?thesis by (rule that(3) [OF c ctx1_def])
  qed
qed

definition uses_priority_tags :: "xbridge \<Rightarrow> bool" where
  "uses_priority_tags xbridge \<longleftrightarrow> list_ex xb_use_priority_tags (xbr_xbundles xbridge)"

lemma set_bond_priority [simp]: "uses_priority_tags (set_bond a bond xbridge) = uses_priority_tags xbridge"
proof -
  have "list_ex xb_use_priority_tags (map (\<lambda>b. if xb_ofbundle b = a then b\<lparr> xb_bond := Some bond \<rparr> else b) bs) =
      list_ex xb_use_priority_tags bs" for bs by (induction bs) simp_all
  then show ?thesis by (simp add: uses_priority_tags_def set_bond_def)
qed

lemma output_normal_mono:
  assumes "both_valid (cx_flow ctx) g" "output_normal ctx b vlan = Some ctx'"
  shows "wc_agree (cx_wc ctx') (cx_flow ctx) g \<Longrightarrow> wc_agree (cx_wc ctx) (cx_flow ctx) g" "cx_flow ctx' = cx_flow ctx"
    and "uses_priority_tags (cx_xbridge ctx') = uses_priority_tags (cx_xbridge ctx)"
proof -
  have x: "cx_flow (output_to_xport c b vid xport) = cx_flow c" "cx_xbridge (output_to_xport c b vid xport) = cx_xbridge c" for c vid xport
    by (simp_all add: output_to_xport_eq Let_def split: option.split)
  from assms(2) have "(wc_agree (cx_wc ctx') (cx_flow ctx) g \<longrightarrow> wc_agree (cx_wc ctx) (cx_flow ctx) g) \<and> cx_flow ctx' = cx_flow ctx \<and>
      uses_priority_tags (cx_xbridge ctx') = uses_priority_tags (cx_xbridge ctx)"
  proof (cases rule: output_normal_cases)
    case (2 xport)
    then show ?thesis using output_to_xport_mono x by auto
  next
    case (3 bond a wc bond' ctx1)
    have ctx1: "cx_wc ctx1 = wc" "cx_flow ctx1 = cx_flow ctx"
      "uses_priority_tags (cx_xbridge ctx1) = uses_priority_tags (cx_xbridge ctx)"
      by (simp_all add: 3(2))
    have "(wc_agree (cx_wc ctx') (cx_flow ctx) g \<longrightarrow> wc_agree (cx_wc ctx1) (cx_flow ctx) g) \<and> cx_flow ctx' = cx_flow ctx1 \<and>
        cx_xbridge ctx' = cx_xbridge ctx1"
      using 3(3) output_to_xport_mono x by auto
    then show ?thesis using ctx1 bond_output_mono [OF assms(1) 3(1)] by simp
  qed simp
  then show "wc_agree (cx_wc ctx') (cx_flow ctx) g \<Longrightarrow> wc_agree (cx_wc ctx) (cx_flow ctx) g" "cx_flow ctx' = cx_flow ctx"
    "uses_priority_tags (cx_xbridge ctx') = uses_priority_tags (cx_xbridge ctx)" by blast+
qed

lemma flood_normal_mono:
  assumes "both_valid (cx_flow ctx) g" "flood_normal as in_b vlan ctx = Some ctx'" "wc_agree (cx_wc ctx') (cx_flow ctx) g"
  shows "wc_agree (cx_wc ctx) (cx_flow ctx) g"
  using assms
proof (induction as arbitrary: ctx)
  case (Cons a as)
  obtain b where b: "xbundle_lookup (cx_xbridge ctx) a = Some b" using Cons.prems(2) by (auto split: option.splits)
  show ?case
  proof (cases "flood_normal as in_b vlan ctx = Some ctx'")
    case True
    then show ?thesis using Cons.IH Cons.prems by blast
  next
    case False
    then obtain ctx1 where o: "output_normal ctx b vlan = Some ctx1" "flood_normal as in_b vlan ctx1 = Some ctx'"
      using Cons.prems(2) b by (auto simp: bind_eq_Some_conv split: if_splits)
    note m = output_normal_mono [OF Cons.prems(1) o(1)]
    show ?thesis using Cons.IH [of ctx1] Cons.prems(1,3) o(2) m(1,2) by simp
  qed
qed simp

lemma xbundle_lookup_priority:
  "xbundle_lookup xbridge a = Some b \<Longrightarrow> xb_use_priority_tags b \<Longrightarrow> uses_priority_tags xbridge"
  by (auto simp: xbundle_lookup_def uses_priority_tags_def list_ex_iff find_Some_iff split: if_splits)

lemma flood_normal_masked:
  assumes "both_valid (cx_flow ctx) g" "wc_normal (cx_wc ctx)" "uses_priority_tags (cx_xbridge ctx) \<longrightarrow> fl_vlan_tci g = fl_vlan_tci (cx_flow ctx)"
    and "uint vlan < 4096" "tags_related g y ctx" "flood_normal as in_b vlan ctx = Some ctx'" "wc_agree (cx_wc ctx') (cx_flow ctx) g"
  shows "\<exists>y'. flood_normal as in_b vlan (retarget g y ctx) = Some (retarget g y' ctx')"
  using assms
proof (induction as arbitrary: ctx y)
  case (Cons a as)
  obtain b where b: "xbundle_lookup (cx_xbridge ctx) a = Some b" using Cons.prems(6) by (auto split: option.splits)
  define sent where "sent \<longleftrightarrow> a \<noteq> in_b \<and> xbundle_includes_vlan b vlan \<and> xb_floodable b \<and> xbundle_mirror_out (cx_xbridge ctx) b = 0"
  have step: "flood_normal (a # as) in_b vlan c =
      (if sent then Option.bind (output_normal c b vlan) (flood_normal as in_b vlan) else flood_normal as in_b vlan c)"
    if "cx_xbridge c = cx_xbridge ctx" for c
    using that b by (simp only: sent_def flood_normal.simps option.case)
  show ?case
  proof (cases sent)
    case False
    then have "flood_normal as in_b vlan ctx = Some ctx'" using Cons.prems(6) step [OF refl] by simp
    from Cons.IH [OF Cons.prems(1-5) this Cons.prems(7)] show ?thesis using False by (simp only: step retarget_sel if_False)
  next
    case True
    then obtain ctx1 where o: "output_normal ctx b vlan = Some ctx1" "flood_normal as in_b vlan ctx1 = Some ctx'"
      using Cons.prems(6) unfolding step [OF refl] by (auto simp: bind_eq_Some_conv)
    note m = output_normal_mono [OF Cons.prems(1) o(1)]
    have a1: "wc_agree (cx_wc ctx1) (cx_flow ctx) g" using flood_normal_mono [of ctx1 g] o(2) Cons.prems(1,7) m(2) by simp
    have "xb_use_priority_tags b \<longrightarrow> fl_vlan_tci g = fl_vlan_tci (cx_flow ctx)" using Cons.prems(3) xbundle_lookup_priority [OF b] by blast
    from output_normal_masked [OF Cons.prems(1,2) this Cons.prems(4,5) o(1) a1] obtain y1 where
      y1: "output_normal (retarget g y ctx) b vlan = Some (retarget g y1 ctx1)" "tags_related g y1 ctx1" "wc_normal (cx_wc ctx1)" by blast
    obtain y' where "flood_normal as in_b vlan (retarget g y1 ctx1) = Some (retarget g y' ctx')"
      using Cons.IH [of ctx1 y1] Cons.prems(1,3,4,7) y1(2,3) o(2) m(2,3) by auto
    then show ?thesis using True y1(1) step [of "retarget g y ctx"] by auto
  qed
qed auto

section \<open>The whole translation\<close>

text \<open>What \<open>forward_normal\<close> does depends on the destination of a packet only.\<close>

lemma forward_normal_cases:
  assumes fwd: "forward_normal in_b vlan ctx = Some ctx'"
  obtains as a where "\<And>c. cx_xbridge c = cx_xbridge ctx \<Longrightarrow> fl_dl_dst (cx_flow c) = fl_dl_dst (cx_flow ctx) \<Longrightarrow>
      forward_normal in_b vlan c = flood_normal as a vlan c"
  | p b where "xbundle_lookup (cx_xbridge ctx) p = Some b"
      "\<And>c. cx_xbridge c = cx_xbridge ctx \<Longrightarrow> fl_dl_dst (cx_flow c) = fl_dl_dst (cx_flow ctx) \<Longrightarrow>
      forward_normal in_b vlan c = output_normal c b vlan"
  | "\<And>c. cx_xbridge c = cx_xbridge ctx \<Longrightarrow> fl_dl_dst (cx_flow c) = fl_dl_dst (cx_flow ctx) \<Longrightarrow> forward_normal in_b vlan c = Some c"
proof -
  let ?ml = "xbr_ml (cx_xbridge ctx)"
  obtain mac where mac: "mac_learning_lookup (fl_dl_dst (cx_flow ctx)) vlan ?ml = Some mac"
    using fwd by (cases "mac_learning_lookup (fl_dl_dst (cx_flow ctx)) vlan ?ml") (simp_all add: forward_normal_def)
  show ?thesis
  proof (cases "Option.bind mac (\<lambda>e. me_port (mac_entry_at ?ml e))")
    case None
    show ?thesis by (rule that(1)) (simp add: forward_normal_def mac None)
  next
    case (Some port)
    show ?thesis
    proof (cases "xbundle_lookup (cx_xbridge ctx) port")
      case None
      show ?thesis by (rule that(3)) (simp add: forward_normal_def mac Some None)
    next
      case b: (Some b)
      show ?thesis
      proof (cases "xb_ofbundle b = xb_ofbundle in_b")
        case True
        show ?thesis by (rule that(3)) (simp add: forward_normal_def mac Some b True)
      next
        case False
        show ?thesis by (rule that(2) [OF b]) (simp add: forward_normal_def mac Some b False)
      qed
    qed
  qed
qed

lemma forward_normal_mono:
  assumes "both_valid (cx_flow ctx) g" "forward_normal in_b vlan ctx = Some ctx'" "wc_agree (cx_wc ctx') (cx_flow ctx) g"
  shows "wc_agree (cx_wc ctx) (cx_flow ctx) g"
  using assms(2)
proof (cases rule: forward_normal_cases)
  case (1 as a)
  then show ?thesis using assms flood_normal_mono [OF assms(1) _ assms(3)] by simp
next
  case (2 p b)
  then show ?thesis using assms output_normal_mono(1) [OF assms(1) _ assms(3)] by simp
next
  case 3
  then show ?thesis using assms by simp
qed

lemma forward_normal_masked:
  assumes "both_valid (cx_flow ctx) g" "wc_normal (cx_wc ctx)" "uses_priority_tags (cx_xbridge ctx) \<longrightarrow> fl_vlan_tci g = fl_vlan_tci (cx_flow ctx)"
    and "uint vlan < 4096" "tags_related g y ctx" and fwd: "forward_normal in_b vlan ctx = Some ctx'" and agree: "wc_agree (cx_wc ctx') (cx_flow ctx) g"
  shows "\<exists>y'. forward_normal in_b vlan (retarget g y ctx) = Some (retarget g y' ctx')"
proof -
  have dst: "fl_dl_dst (cx_flow (retarget g y ctx)) = fl_dl_dst (cx_flow ctx)"
    using agree_normal(2) [OF assms(2) forward_normal_mono [OF assms(1) fwd agree]] by simp
  from fwd show ?thesis
  proof (cases rule: forward_normal_cases)
    case (1 as a)
    show ?thesis
      using flood_normal_masked [OF assms(1-5) _ agree, of as a] fwd 1 [of ctx] 1 [of "retarget g y ctx", OF _ dst] by simp
  next
    case (2 p b)
    have "xb_use_priority_tags b \<longrightarrow> fl_vlan_tci g = fl_vlan_tci (cx_flow ctx)" using assms(3) xbundle_lookup_priority [OF 2(1)] by blast
    from output_normal_masked [OF assms(1,2) this assms(4,5) _ agree] show ?thesis
      using fwd 2(2) [of ctx] 2(2) [of "retarget g y ctx", OF _ dst] by auto
  next
    case 3
    then show ?thesis using fwd 3 [of "retarget g y ctx", OF _ dst] by auto
  qed
qed

lemma learn_and_forward_eq:
  "learn_and_forward now new in_b vlan ctx =
    (case if cx_may_learn ctx then update_learning_table now new (xbr_ml (cx_xbridge ctx)) (cx_flow ctx) (cx_wc ctx) vlan in_b
          else Some (xbr_ml (cx_xbridge ctx), cx_wc ctx) of
       None \<Rightarrow> None
     | Some (ml, wc) \<Rightarrow> forward_normal in_b vlan (ctx\<lparr> cx_xbridge := (cx_xbridge ctx)\<lparr> xbr_ml := ml \<rparr>, cx_wc := wc \<rparr>))"
  by (simp add: learn_and_forward_def)

lemma learn_and_forward_masked:
  assumes "both_valid (cx_flow ctx) g" "wc_normal (cx_wc ctx)"
    and learn: "learn_and_forward now new in_b vlan ctx = Some ctx'" and agree: "wc_agree (cx_wc ctx') (cx_flow ctx) g"
  shows "wc_agree (cx_wc ctx) (cx_flow ctx) g"
    and "uses_priority_tags (cx_xbridge ctx) \<longrightarrow> fl_vlan_tci g = fl_vlan_tci (cx_flow ctx) \<Longrightarrow> uint vlan < 4096 \<Longrightarrow>
      cx_base_flow ctx = cx_flow ctx \<Longrightarrow>
      \<exists>y'. learn_and_forward now new in_b vlan (ctx\<lparr> cx_flow := g, cx_base_flow := g \<rparr>) = Some (retarget g y' ctx')"
proof -
  obtain ml wc where u: "(if cx_may_learn ctx
      then update_learning_table now new (xbr_ml (cx_xbridge ctx)) (cx_flow ctx) (cx_wc ctx) vlan in_b
      else Some (xbr_ml (cx_xbridge ctx), cx_wc ctx)) = Some (ml, wc)"
    using learn unfolding learn_and_forward_eq by (auto split: option.splits)
  define ctx1 where "ctx1 = ctx\<lparr> cx_xbridge := (cx_xbridge ctx)\<lparr> xbr_ml := ml \<rparr>, cx_wc := wc \<rparr>"
  have fwd: "forward_normal in_b vlan ctx1 = Some ctx'"
    using learn unfolding learn_and_forward_eq u by (simp add: ctx1_def)
  have ctx1: "cx_flow ctx1 = cx_flow ctx" "cx_wc ctx1 = wc" "cx_base_flow ctx1 = cx_base_flow ctx"
    "uses_priority_tags (cx_xbridge ctx1) = uses_priority_tags (cx_xbridge ctx)"
    by (simp_all add: ctx1_def uses_priority_tags_def)
  have a1: "wc_agree wc (cx_flow ctx) g" using forward_normal_mono [of ctx1 g, OF _ fwd] assms(1) agree by (simp add: ctx1)
  have m: "(if cx_may_learn ctx then update_learning_table now new (xbr_ml (cx_xbridge ctx)) g (cx_wc ctx) vlan in_b
      else Some (xbr_ml (cx_xbridge ctx), cx_wc ctx)) = Some (ml, wc) \<and> wc_agree (cx_wc ctx) (cx_flow ctx) g \<and> wc_normal wc"
    using u a1 assms(2) update_learning_table_masked [OF assms(2) _ a1] by (cases "cx_may_learn ctx") simp_all
  then show "wc_agree (cx_wc ctx) (cx_flow ctx) g" by blast
  assume p: "uses_priority_tags (cx_xbridge ctx) \<longrightarrow> fl_vlan_tci g = fl_vlan_tci (cx_flow ctx)" "uint vlan < 4096" "cx_base_flow ctx = cx_flow ctx"
  have "tags_related g (fl_vlan_tci g) ctx1" using p(3) by (simp add: tags_related_def ctx1)
  with forward_normal_masked [of ctx1 g vlan "fl_vlan_tci g" in_b ctx'] obtain y' where
    y': "forward_normal in_b vlan (retarget g (fl_vlan_tci g) ctx1) = Some (retarget g y' ctx')"
    using assms(1) m p(1,2) fwd agree by (auto simp: ctx1)
  have "learn_and_forward now new in_b vlan (ctx\<lparr> cx_flow := g, cx_base_flow := g \<rparr>) = forward_normal in_b vlan (retarget g (fl_vlan_tci g) ctx1)"
  proof -
    let ?c = "ctx\<lparr> cx_flow := g, cx_base_flow := g \<rparr>"
    have sel: "cx_may_learn ?c = cx_may_learn ctx" "cx_xbridge ?c = cx_xbridge ctx" "cx_flow ?c = g" "cx_wc ?c = cx_wc ctx" by simp_all
    have "?c\<lparr> cx_xbridge := (cx_xbridge ctx)\<lparr> xbr_ml := ml \<rparr>, cx_wc := wc \<rparr> = retarget g (fl_vlan_tci g) ctx1"
      by (simp add: retarget_def ctx1_def)
    then show ?thesis unfolding learn_and_forward_eq sel conjunct1 [OF m] by simp
  qed
  with y' have "learn_and_forward now new in_b vlan (ctx\<lparr> cx_flow := g, cx_base_flow := g \<rparr>) = Some (retarget g y' ctx')" by simp
  then show "\<exists>y'. learn_and_forward now new in_b vlan (ctx\<lparr> cx_flow := g, cx_base_flow := g \<rparr>) = Some (retarget g y' ctx')" by blast
qed

text \<open>
  The VLAN of a bundle that is not a trunk, which the configuration of a bundle puts into the range of 12 bits.
\<close>

definition vlans_ok :: "xbridge \<Rightarrow> bool" where
  "vlans_ok xbridge \<longleftrightarrow>
    list_all (\<lambda>b. xb_vlan_mode b \<noteq> PORT_VLAN_TRUNK \<longrightarrow> 0 \<le> xb_vlan b \<and> xb_vlan b < 4096) (xbr_xbundles xbridge)"

lemma input_vlan_range:
  assumes "vlans_ok xbridge" "lookup_input_bundle xbridge p = (Some b, in_port)"
  shows "uint (input_vid_to_vlan b (vlan_tci_to_vid tci)) < 4096"
proof -
  have vid: "uint (vlan_tci_to_vid tci) < 4096"
  proof -
    have "uint (vlan_tci_to_vid tci) = uint tci AND 0xfff" by (simp add: vlan_tci_to_vid_def VLAN_VID_MASK_def unsigned_and_eq)
    then show ?thesis using AND_upper2 [of "0xfff" "uint tci"] by simp
  qed
  have "xb_vlan_mode b \<noteq> PORT_VLAN_TRUNK \<longrightarrow> 0 \<le> xb_vlan b \<and> xb_vlan b < 4096"
    using assms
    by (auto simp: vlans_ok_def list_all_iff lookup_input_bundle_def xbundle_lookup_def find_Some_iff ofpp_none_bundle_def Let_def
      bind_eq_Some_conv split: option.splits if_splits)
  then show ?thesis using vid
    by (auto simp: input_vid_to_vlan_def uint_word_of_int take_bit_eq_mod split: port_vlan_mode.split)
qed

definition normal_masks :: "flow_wildcards \<Rightarrow> flow_wildcards" where
  "normal_masks wc = wc\<lparr> wc_dl_src := True, wc_dl_dst := True, wc_vlan_tci := wc_vlan_tci wc OR (VLAN_VID_MASK OR VLAN_CFI) \<rparr>"

lemma wc_normal_masks:
  assumes "wc_in_port wc" "wc_dl_type wc"
  shows "wc_normal (normal_masks wc)"
proof -
  have "(m OR n) AND n = n" for m n :: u16 by (rule bit_eqI) (auto simp: bit_and_iff bit_or_iff)
  then show ?thesis using assms by (simp add: wc_normal_def normal_masks_def)
qed

text \<open>What \<open>xlate_normal\<close> does after its first checks, for all packets that agree on what these look at.\<close>

definition same_input :: "xlate_ctx \<Rightarrow> xlate_ctx \<Rightarrow> bool" where
  "same_input ctx c \<longleftrightarrow> cx_xbridge c = cx_xbridge ctx \<and> fl_in_port (cx_flow c) = fl_in_port (cx_flow ctx) \<and>
    fl_dl_type (cx_flow c) = fl_dl_type (cx_flow ctx) \<and>
    fl_vlan_tci (cx_flow c) AND VLAN_VID_MASK = fl_vlan_tci (cx_flow ctx) AND VLAN_VID_MASK \<and>
    fl_vlan_tci (cx_flow c) AND VLAN_CFI = fl_vlan_tci (cx_flow ctx) AND VLAN_CFI"

lemma xlate_normal_cases:
  assumes "vlans_ok (cx_xbridge ctx)"
  obtains "\<And>c. same_input ctx c \<Longrightarrow> xlate_normal now new c = Some (c\<lparr> cx_wc := normal_masks (cx_wc c) \<rparr>)"
  | in_b vlan where "uint vlan < 4096"
      "\<And>c. same_input ctx c \<Longrightarrow> xlate_normal now new c = learn_and_forward now new in_b vlan (c\<lparr> cx_wc := normal_masks (cx_wc c) \<rparr>)"
  | in_port in_b vlan where "uint vlan < 4096"
      "\<And>c. same_input ctx c \<Longrightarrow> xlate_normal now new c =
        (case is_admissible now (c\<lparr> cx_wc := normal_masks (cx_wc c) \<rparr>) in_port vlan of
           None \<Rightarrow> None
         | Some (ok, wc) \<Rightarrow> if ok then learn_and_forward now new in_b vlan (c\<lparr> cx_wc := wc \<rparr>) else Some (c\<lparr> cx_wc := wc \<rparr>))"
proof -
  let ?f = "cx_flow ctx"
  define vid where "vid = vlan_tci_to_vid (fl_vlan_tci ?f)"
  have same: "cx_xbridge c = cx_xbridge ctx" "fl_in_port (cx_flow c) = fl_in_port ?f" "fl_dl_type (cx_flow c) = fl_dl_type ?f"
    "vlan_tci_to_vid (fl_vlan_tci (cx_flow c)) = vid" "fl_vlan_tci (cx_flow c) AND VLAN_CFI = fl_vlan_tci ?f AND VLAN_CFI"
    if "same_input ctx c" for c
    using that by (simp_all add: same_input_def vid_def vlan_tci_to_vid_def)
  obtain ob op where l: "lookup_input_bundle (cx_xbridge ctx) (fl_in_port ?f) = (ob, op)" by fastforce
  show ?thesis
  proof (cases ob)
    case None
    show ?thesis by (rule that(1)) (simp add: xlate_normal_def same l None normal_masks_def)
  next
    case (Some b)
    note range = input_vlan_range [OF assms l [unfolded Some], of "fl_vlan_tci ?f", folded vid_def]
    show ?thesis
    proof (cases "fl_dl_type ?f = ETH_TYPE_VLAN \<and> fl_vlan_tci ?f AND VLAN_CFI = 0 \<or> xbundle_mirror_out (cx_xbridge ctx) b \<noteq> 0 \<or>
        \<not> input_vid_is_valid vid b")
      case True
      show ?thesis by (rule that(1)) (use True in \<open>auto simp: xlate_normal_def same l Some normal_masks_def Let_def\<close>)
    next
      case go: False
      show ?thesis
      proof (cases op)
        case None
        show ?thesis
          by (rule that(2) [OF range, where in_b = b]) (use go in \<open>auto simp: xlate_normal_def same l Some None normal_masks_def Let_def\<close>)
      next
        case p: (Some p)
        show ?thesis
          by (rule that(3) [OF range, where in_port = p and in_b = b])
            (use go in \<open>auto simp: xlate_normal_def same l Some p normal_masks_def Let_def split: option.split prod.split\<close>)
      qed
    qed
  qed
qed

lemma agree_same_input:
  assumes "wc_normal (normal_masks wc)" "wc_agree (normal_masks wc) (cx_flow ctx) g"
  shows "same_input ctx (ctx\<lparr> cx_flow := g, cx_base_flow := g \<rparr>)" "same_input ctx ctx"
  using agree_normal [OF assms] by (simp_all add: same_input_def)

lemma agree_tag:
  assumes "wc_normal wc" "wc_agree wc f g" "fl_vlan_tci g AND VLAN_PCP_MASK = fl_vlan_tci f AND VLAN_PCP_MASK"
  shows "fl_vlan_tci g = fl_vlan_tci f"
  using agree_normal(5,6) [OF assms(1,2)] assms(3) tci_split [of "fl_vlan_tci f"] tci_split [of "fl_vlan_tci g"] by simp

lemma is_admissible_normal:
  assumes "wc_normal (cx_wc ctx)" "is_admissible now ctx in_port vlan = Some (ok, wc)"
  shows "wc_normal wc"
  using is_admissible_masked [OF assms, of "cx_flow ctx"] by (simp add: wc_agree_def)

lemma admitted_masked:
  assumes valid: "both_valid (cx_flow ctx) g" and normal: "wc_normal (cx_wc ctx)" and "cx_base_flow ctx = cx_flow ctx" "uint vlan < 4096"
    and tag: "wc_agree (cx_wc ctx) (cx_flow ctx) g \<Longrightarrow> uses_priority_tags (cx_xbridge ctx) \<longrightarrow> fl_vlan_tci g = fl_vlan_tci (cx_flow ctx)"
    and adm: "is_admissible now ctx in_port vlan = Some (ok, wc)"
    and x: "(if ok then learn_and_forward now new in_b vlan (ctx\<lparr> cx_wc := wc \<rparr>) else Some (ctx\<lparr> cx_wc := wc \<rparr>)) = Some ctx'"
    and agree: "wc_agree (cx_wc ctx') (cx_flow ctx) g"
  shows "wc_agree (cx_wc ctx) (cx_flow ctx) g" "is_admissible now (ctx\<lparr> cx_flow := g, cx_base_flow := g \<rparr>) in_port vlan = Some (ok, wc)"
    and "\<exists>y'. (if ok then learn_and_forward now new in_b vlan (ctx\<lparr> cx_wc := wc, cx_flow := g, cx_base_flow := g \<rparr>)
      else Some (ctx\<lparr> cx_wc := wc, cx_flow := g, cx_base_flow := g \<rparr>)) = Some (retarget g y' ctx')"
proof -
  let ?c = "ctx\<lparr> cx_wc := wc \<rparr>"
  have wc: "wc_normal wc" by (rule is_admissible_normal [OF normal adm])
  have a: "wc_agree wc (cx_flow ctx) g"
  proof (cases ok)
    case True
    then show ?thesis using learn_and_forward_masked(1) [of ?c g now new in_b vlan ctx'] valid agree wc x by simp
  next
    case False
    then have "ctx' = ?c" using x by simp
    then show ?thesis using agree by simp
  qed
  note m = is_admissible_masked [OF normal adm a]
  from m [THEN conjunct2, THEN conjunct1] show a0: "wc_agree (cx_wc ctx) (cx_flow ctx) g" .
  from m show "is_admissible now (ctx\<lparr> cx_flow := g, cx_base_flow := g \<rparr>) in_port vlan = Some (ok, wc)" by blast
  show "\<exists>y'. (if ok then learn_and_forward now new in_b vlan (?c\<lparr> cx_flow := g, cx_base_flow := g \<rparr>)
      else Some (?c\<lparr> cx_flow := g, cx_base_flow := g \<rparr>)) = Some (retarget g y' ctx')"
  proof (cases ok)
    case True
    then show ?thesis
      using learn_and_forward_masked(2) [of ?c g now new in_b vlan ctx'] valid agree wc x tag [OF a0] assms(3,4) by simp
  next
    case False
    then have "ctx' = ?c" using x by simp
    then show ?thesis using False by (intro exI [of _ "fl_vlan_tci g"]) (simp add: retarget_def)
  qed
qed

lemma xlate_normal_masked:
  assumes valid: "both_valid (cx_flow ctx) g" and base: "cx_base_flow ctx = cx_flow ctx" and "vlans_ok (cx_xbridge ctx)"
    and masks: "wc_in_port (cx_wc ctx)" "wc_dl_type (cx_wc ctx)"
    and prio: "uses_priority_tags (cx_xbridge ctx) \<longrightarrow> fl_vlan_tci g AND VLAN_PCP_MASK = fl_vlan_tci (cx_flow ctx) AND VLAN_PCP_MASK"
    and x: "xlate_normal now new ctx = Some ctx'" and agree: "wc_agree (cx_wc ctx') (cx_flow ctx) g"
  shows "wc_agree (normal_masks (cx_wc ctx)) (cx_flow ctx) g \<and>
    (\<exists>y'. xlate_normal now new (ctx\<lparr> cx_flow := g, cx_base_flow := g \<rparr>) = Some (retarget g y' ctx'))"
proof -
  let ?g = "ctx\<lparr> cx_flow := g, cx_base_flow := g \<rparr>"
  let ?wc = "normal_masks (cx_wc ctx)"
  note normal = wc_normal_masks [OF masks]
  have tag: "uses_priority_tags (cx_xbridge ctx) \<longrightarrow> fl_vlan_tci g = fl_vlan_tci (cx_flow ctx)" if "wc_agree ?wc (cx_flow ctx) g"
    using agree_tag [OF normal that] prio by blast
  have self: "same_input ctx ctx" by (simp add: same_input_def)
  have wcs: "?g\<lparr> cx_wc := wc \<rparr> = (ctx\<lparr> cx_wc := wc \<rparr>)\<lparr> cx_flow := g, cx_base_flow := g \<rparr>" for wc by simp
  from assms(3) show ?thesis
  proof (cases rule: xlate_normal_cases [of ctx now new])
    case 1
    then have c: "ctx' = ctx\<lparr> cx_wc := ?wc \<rparr>" using x self by simp
    with agree have a: "wc_agree ?wc (cx_flow ctx) g" by simp
    from 1 [OF agree_same_input(1) [OF normal a]] have "xlate_normal now new ?g = Some (retarget g (fl_vlan_tci g) ctx')"
      using c by (simp add: retarget_def)
    then show ?thesis using a by blast
  next
    case (2 in_b vlan)
    let ?c = "ctx\<lparr> cx_wc := ?wc \<rparr>"
    have l: "learn_and_forward now new in_b vlan ?c = Some ctx'" using x 2(2) [OF self] by simp
    have a: "wc_agree ?wc (cx_flow ctx) g" using learn_and_forward_masked(1) [of ?c g, OF _ _ l] valid agree normal by simp
    have "\<exists>y'. learn_and_forward now new in_b vlan (?c\<lparr> cx_flow := g, cx_base_flow := g \<rparr>) = Some (retarget g y' ctx')"
      using learn_and_forward_masked(2) [of ?c g, OF _ _ l] valid agree normal tag [OF a] 2(1) base by simp
    then show ?thesis using a 2(2) [OF agree_same_input(1) [OF normal a]] by (auto simp: wcs)
  next
    case (3 in_port in_b vlan)
    let ?c = "ctx\<lparr> cx_wc := ?wc \<rparr>"
    obtain ok wc where adm: "is_admissible now ?c in_port vlan = Some (ok, wc)" using x 3(2) [OF self] by (auto split: option.splits)
    have x': "(if ok then learn_and_forward now new in_b vlan (?c\<lparr> cx_wc := wc \<rparr>) else Some (?c\<lparr> cx_wc := wc \<rparr>)) = Some ctx'"
      using x 3(2) [OF self] adm by (cases ok) simp_all
    have c: "both_valid (cx_flow ?c) g" "wc_normal (cx_wc ?c)" "cx_base_flow ?c = cx_flow ?c" "wc_agree (cx_wc ctx') (cx_flow ?c) g"
      "wc_agree (cx_wc ?c) (cx_flow ?c) g \<Longrightarrow> uses_priority_tags (cx_xbridge ?c) \<longrightarrow> fl_vlan_tci g = fl_vlan_tci (cx_flow ?c)"
      using valid normal base agree tag by simp_all
    note m = admitted_masked [OF c(1-3) 3(1) c(5) adm x' c(4)]
    have a: "wc_agree ?wc (cx_flow ctx) g" using m(1) by simp
    obtain y' where "(if ok then learn_and_forward now new in_b vlan (?c\<lparr> cx_wc := wc, cx_flow := g, cx_base_flow := g \<rparr>)
      else Some (?c\<lparr> cx_wc := wc, cx_flow := g, cx_base_flow := g \<rparr>)) = Some (retarget g y' ctx')" using m(3) by blast
    then have "xlate_normal now new ?g = Some (retarget g y' ctx')"
      using m(2) 3(2) [OF agree_same_input(1) [OF normal a]] by (cases ok) (simp_all add: wcs)
    then show ?thesis using a by blast
  qed
qed

text \<open>What \<open>xlate_process_normal\<close> does once the input port is found and special packets are sorted out.\<close>

definition translate_from :: "int \<Rightarrow> addr \<Rightarrow> xport option \<Rightarrow> xlate_ctx \<Rightarrow> xlate_ctx option" where
  "translate_from now new in_port ctx =
    (case in_port of
       None \<Rightarrow> xlate_normal now new ctx
     | Some in_port \<Rightarrow>
         if may_receive in_port ctx
         then map_option (\<lambda>ctx. if \<not> xport_stp_forward_state (cx_xbridge ctx) in_port
                                then ctx\<lparr> cx_odp_actions := [] \<rparr> else ctx) (xlate_normal now new ctx)
         else Some ctx)"

definition start_ctx :: "xlate_ctx \<Rightarrow> xlate_ctx" where
  "start_ctx ctx = ctx\<lparr> cx_base_flow := cx_flow ctx, cx_slow := False, cx_odp_actions := [],
    cx_wc := snd (process_special (cx_xbridge ctx) (cx_flow ctx) (get_ofp_port (cx_xbridge ctx) (fl_in_port (cx_flow ctx))) xlate_wc_init) \<rparr>"

lemma xlate_process_eq:
  "xlate_process_normal now new ctx =
    (if fst (process_special (cx_xbridge ctx) (cx_flow ctx) (get_ofp_port (cx_xbridge ctx) (fl_in_port (cx_flow ctx))) xlate_wc_init)
     then Some ((start_ctx ctx)\<lparr> cx_slow := True \<rparr>)
     else translate_from now new (get_ofp_port (cx_xbridge ctx) (fl_in_port (cx_flow ctx))) (start_ctx ctx))"
proof -
  let ?port = "get_ofp_port (cx_xbridge ctx) (fl_in_port (cx_flow ctx))"
  obtain special wc where special: "process_special (cx_xbridge ctx) (cx_flow ctx) ?port xlate_wc_init = (special, wc)" by fastforce
  let ?i = "ctx\<lparr> cx_base_flow := cx_flow ctx, cx_wc := xlate_wc_init, cx_slow := False, cx_odp_actions := [] \<rparr>"
  have sel: "cx_xbridge ?i = cx_xbridge ctx" "cx_wc ?i = xlate_wc_init" by simp_all
  have "start_ctx ctx = ?i\<lparr> cx_wc := wc \<rparr>" by (simp add: start_ctx_def special)
  then show ?thesis unfolding xlate_process_normal_def translate_from_def Let_def sel special prod.case fst_conv by (simp only:)
qed

text \<open>
  On a bridge without spanning tree, the flag that stops packets from a port and the one that stops BPDUs are set
  together.
\<close>

definition receive_flags_ok :: "xbridge \<Rightarrow> bool" where
  "receive_flags_ok xbridge \<longleftrightarrow> xbr_stp xbridge \<noteq> None \<or>
    list_all (\<lambda>p. xp_config p AND OFPUTIL_PC_NO_RECV = 0 \<longleftrightarrow> xp_config p AND OFPUTIL_PC_NO_RECV_STP = 0) (xbr_xports xbridge)"

lemma start_masks:
  "wc_in_port (cx_wc (start_ctx ctx))" "wc_dl_type (cx_wc (start_ctx ctx))"
  "get_ofp_port (cx_xbridge ctx) (fl_in_port (cx_flow ctx)) \<noteq> None \<Longrightarrow> xbr_stp (cx_xbridge ctx) \<noteq> None \<Longrightarrow> wc_dl_dst (cx_wc (start_ctx ctx))"
  by (auto simp: start_ctx_def process_special_def stp_should_process_flow_def xlate_wc_init_def)

text \<open>Two packets that agree on the first masks are treated alike up to the translation proper.\<close>

lemma agree_start:
  assumes "wc_agree (cx_wc (start_ctx ctx)) (cx_flow ctx) g" "receive_flags_ok (cx_xbridge ctx)"
  shows "fl_in_port g = fl_in_port (cx_flow ctx)" "fl_dl_type g = fl_dl_type (cx_flow ctx)"
    and "start_ctx (ctx\<lparr> cx_flow := g \<rparr>) = (start_ctx ctx)\<lparr> cx_flow := g, cx_base_flow := g \<rparr>"
    and "get_ofp_port (cx_xbridge ctx) (fl_in_port (cx_flow ctx)) = Some p \<Longrightarrow> xbr_stp (cx_xbridge ctx) \<noteq> None \<Longrightarrow> is_stp g = is_stp (cx_flow ctx)"
    and "get_ofp_port (cx_xbridge ctx) (fl_in_port (cx_flow ctx)) = Some p \<Longrightarrow>
      may_receive p (start_ctx (ctx\<lparr> cx_flow := g \<rparr>)) = may_receive p (start_ctx ctx)"
proof -
  let ?port = "get_ofp_port (cx_xbridge ctx) (fl_in_port (cx_flow ctx))"
  show same: "fl_in_port g = fl_in_port (cx_flow ctx)" "fl_dl_type g = fl_dl_type (cx_flow ctx)"
    using assms(1) start_masks(1,2) [of ctx] by (simp_all add: wc_agree_def)
  show start: "start_ctx (ctx\<lparr> cx_flow := g \<rparr>) = (start_ctx ctx)\<lparr> cx_flow := g, cx_base_flow := g \<rparr>"
    using same(1) by (simp add: start_ctx_def process_special_def stp_should_process_flow_def)
  show stp: "is_stp g = is_stp (cx_flow ctx)" if "?port = Some p" "xbr_stp (cx_xbridge ctx) \<noteq> None"
    using assms(1) start_masks(3) [of ctx] that same(2) by (simp add: wc_agree_def is_stp_def)
  assume p: "?port = Some p"
  then have member: "p \<in> set (xbr_xports (cx_xbridge ctx))" by (auto simp: get_ofp_port_def find_Some_iff)
  show "may_receive p (start_ctx (ctx\<lparr> cx_flow := g \<rparr>)) = may_receive p (start_ctx ctx)"
  proof (cases "xbr_stp (cx_xbridge ctx) = None")
    case True
    then have "xp_config p AND OFPUTIL_PC_NO_RECV = 0 \<longleftrightarrow> xp_config p AND OFPUTIL_PC_NO_RECV_STP = 0"
      using assms(2) member by (simp add: receive_flags_ok_def list_all_iff)
    then show ?thesis by (simp add: may_receive_def start_ctx_def)
  next
    case False
    then show ?thesis using stp p by (simp add: may_receive_def start_ctx_def)
  qed
qed

lemma normal_masks_mono:
  assumes "wc_agree (normal_masks wc) f g"
  shows "wc_agree wc f g"
proof -
  have "fl_vlan_tci f AND wc_vlan_tci wc = fl_vlan_tci g AND wc_vlan_tci wc"
  proof (rule and_mask_mono)
    show "fl_vlan_tci f AND wc_vlan_tci (normal_masks wc) = fl_vlan_tci g AND wc_vlan_tci (normal_masks wc)"
      using assms by (simp add: wc_agree_def)
    show "wc_vlan_tci (normal_masks wc) AND wc_vlan_tci wc = wc_vlan_tci wc"
      unfolding normal_masks_def by (rule bit_eqI) (auto simp: bit_and_iff bit_or_iff)
  qed
  then show ?thesis using assms by (simp add: wc_agree_def normal_masks_def)
qed

lemma translate_from_masked:
  assumes valid: "both_valid (cx_flow ctx) g" and base: "cx_base_flow ctx = cx_flow ctx" and vlans: "vlans_ok (cx_xbridge ctx)"
    and masks: "wc_in_port (cx_wc ctx)" "wc_dl_type (cx_wc ctx)"
    and prio: "uses_priority_tags (cx_xbridge ctx) \<longrightarrow> fl_vlan_tci g AND VLAN_PCP_MASK = fl_vlan_tci (cx_flow ctx) AND VLAN_PCP_MASK"
    and receive: "\<And>p. in_port = Some p \<Longrightarrow> wc_agree (cx_wc ctx) (cx_flow ctx) g \<Longrightarrow>
      may_receive p (ctx\<lparr> cx_flow := g, cx_base_flow := g \<rparr>) = may_receive p ctx"
    and x: "translate_from now new in_port ctx = Some ctx'" and agree: "wc_agree (cx_wc ctx') (cx_flow ctx) g"
  shows "wc_agree (cx_wc ctx) (cx_flow ctx) g \<and>
    (\<exists>y'. translate_from now new in_port (ctx\<lparr> cx_flow := g, cx_base_flow := g \<rparr>) = Some (retarget g y' ctx'))"
proof (cases "\<exists>p. in_port = Some p \<and> \<not> may_receive p ctx")
  case True
  then have c: "ctx' = ctx" using x by (auto simp: translate_from_def)
  then have "translate_from now new in_port (ctx\<lparr> cx_flow := g, cx_base_flow := g \<rparr>) = Some (retarget g (fl_vlan_tci g) ctx')"
    using True receive agree by (auto simp: translate_from_def retarget_def)
  then show ?thesis using agree c by blast
next
  case False
  let ?f = "\<lambda>ctx. case in_port of Some p \<Rightarrow> if \<not> xport_stp_forward_state (cx_xbridge ctx) p then ctx\<lparr> cx_odp_actions := [] \<rparr> else ctx
    | None \<Rightarrow> ctx"
  have f: "translate_from now new in_port c = map_option ?f (xlate_normal now new c)"
    if "\<And>p. in_port = Some p \<Longrightarrow> may_receive p c" for c
    using that by (cases in_port) (simp_all add: translate_from_def option.map_ident)
  have "map_option ?f (xlate_normal now new ctx) = Some ctx'" using x f [of ctx] False by auto
  then obtain c where c: "xlate_normal now new ctx = Some c" "ctx' = ?f c" unfolding map_option_eq_Some by blast
  have wc: "cx_wc ctx' = cx_wc c" using c(2) by (auto split: option.splits)
  from xlate_normal_masked [OF valid base vlans masks prio c(1) agree [unfolded wc]] obtain y' where
    m: "wc_agree (normal_masks (cx_wc ctx)) (cx_flow ctx) g"
    "xlate_normal now new (ctx\<lparr> cx_flow := g, cx_base_flow := g \<rparr>) = Some (retarget g y' c)" by blast
  have a: "wc_agree (cx_wc ctx) (cx_flow ctx) g" by (rule normal_masks_mono [OF m(1)])
  have "?f (retarget g y' c) = retarget g y' ctx'" using c(2) by (cases in_port) (simp_all add: retarget_def)
  moreover have "translate_from now new in_port (ctx\<lparr> cx_flow := g, cx_base_flow := g \<rparr>) =
      map_option ?f (xlate_normal now new (ctx\<lparr> cx_flow := g, cx_base_flow := g \<rparr>))"
    by (rule f) (use receive a False in blast)
  ultimately show ?thesis using a m(2) by auto
qed

lemma xlate_process_masked:
  assumes "flow_valid (cx_flow ctx)" "flow_valid g" "vlans_ok (cx_xbridge ctx)" "receive_flags_ok (cx_xbridge ctx)"
    and "uses_priority_tags (cx_xbridge ctx) \<longrightarrow> fl_vlan_tci g AND VLAN_PCP_MASK = fl_vlan_tci (cx_flow ctx) AND VLAN_PCP_MASK"
    and "xlate_process_normal now new ctx = Some ctx'" "wc_agree (cx_wc ctx') (cx_flow ctx) g"
  shows "\<exists>c. xlate_process_normal now new (ctx\<lparr> cx_flow := g \<rparr>) = Some c \<and> cx_odp_actions c = cx_odp_actions ctx' \<and>
    cx_wc c = cx_wc ctx' \<and> cx_slow c = cx_slow ctx' \<and> cx_xbridge c = cx_xbridge ctx'"
proof -
  let ?s = "start_ctx ctx" and ?port = "get_ofp_port (cx_xbridge ctx) (fl_in_port (cx_flow ctx))"
  have sel: "cx_flow ?s = cx_flow ctx" "cx_base_flow ?s = cx_flow ctx" "cx_xbridge ?s = cx_xbridge ctx" by (simp_all add: start_ctx_def)
  have g: "xlate_process_normal now new (ctx\<lparr> cx_flow := g \<rparr>) =
      (if fst (process_special (cx_xbridge ctx) (cx_flow ctx) ?port xlate_wc_init)
       then Some (?s\<lparr> cx_flow := g, cx_base_flow := g, cx_slow := True \<rparr>)
       else translate_from now new ?port (?s\<lparr> cx_flow := g, cx_base_flow := g \<rparr>))"
    if "wc_agree (cx_wc ?s) (cx_flow ctx) g"
  proof -
    note start = agree_start [OF that assms(4)]
    have "process_special (cx_xbridge ctx) g ?port xlate_wc_init = process_special (cx_xbridge ctx) (cx_flow ctx) ?port xlate_wc_init"
      using start(4) by (cases ?port; cases "xbr_stp (cx_xbridge ctx)") (simp_all add: process_special_def stp_should_process_flow_def)
    then show ?thesis using start(1,3) by (simp add: xlate_process_eq)
  qed
  show ?thesis
  proof (cases "fst (process_special (cx_xbridge ctx) (cx_flow ctx) ?port xlate_wc_init)")
    case True
    then have c: "ctx' = ?s\<lparr> cx_slow := True \<rparr>" using assms(6) by (simp add: xlate_process_eq)
    with assms(7) have "wc_agree (cx_wc ?s) (cx_flow ctx) g" by simp
    from g [OF this] True c show ?thesis by simp
  next
    case False
    have x: "translate_from now new ?port ?s = Some ctx'" using assms(6) False by (simp add: xlate_process_eq)
    have "may_receive p (?s\<lparr> cx_flow := g, cx_base_flow := g \<rparr>) = may_receive p ?s"
      if "?port = Some p" "wc_agree (cx_wc ?s) (cx_flow ?s) g" for p
      using agree_start(3,5) [of ctx g] that assms(4) sel by simp
    from translate_from_masked [of ?s g, OF _ _ _ start_masks(1,2) _ this x] obtain y' where
      "wc_agree (cx_wc ?s) (cx_flow ctx) g" "translate_from now new ?port (?s\<lparr> cx_flow := g, cx_base_flow := g \<rparr>) = Some (retarget g y' ctx')"
      using assms(1-3,5,7) by (auto simp: sel both_valid_def)
    then show ?thesis using g False by (auto simp: retarget_def)
  qed
qed

text \<open>The transport ports are only masked together with the protocol, so that both of two flows are ICMP or none is.\<close>

definition ports_masked :: "flow_wildcards \<Rightarrow> bool" where
  "ports_masked wc \<longleftrightarrow> wc_dl_type wc \<and> (wc_nw_proto wc \<or> wc_tp_src wc = 0 \<and> wc_tp_dst wc = 0)"

lemma arp_ports: "ports_masked wc \<Longrightarrow> is_gratuitous_arp f wc = (arp, wc') \<Longrightarrow> ports_masked wc'"
  by (auto simp: is_gratuitous_arp_def ports_masked_def Let_def split: if_splits)

lemma update_ports:
  assumes "update_learning_table now new ml f wc vlan b = Some (ml', wc')" "ports_masked wc"
  shows "ports_masked wc'"
proof -
  have need: "ports_masked wc1" if "is_mac_learning_update_needed now ml f wc vlan b = Some (need, wc1)" for need wc1
    using that assms(2) by (auto simp: is_mac_learning_update_needed_def Let_def dest: arp_ports split: option.splits if_splits prod.splits)
  have locked: "ports_masked wc2" if "update_learning_table_locked now new ml f wc1 vlan b = Some (ml', wc2)" "ports_masked wc1" for wc1 wc2
    using that by (auto simp: update_learning_table_locked_def Let_def dest: arp_ports split: option.splits if_splits prod.splits)
  show ?thesis using assms need locked by (auto simp: update_learning_table_def split: option.splits if_splits)
qed

lemma admissible_ports:
  assumes "is_admissible now ctx in_port vlan = Some (ok, wc')" "ports_masked (cx_wc ctx)"
  shows "ports_masked wc'"
proof -
  have moved: "ports_masked wc'" if "admissible_unless_moved now ml f wc vlan b = Some (ok, wc')" "ports_masked wc" for ml f wc b
    using that by (auto simp: admissible_unless_moved_def Let_def dest: arp_ports split: option.splits if_splits prod.splits)
  show ?thesis using assms moved by (auto simp: is_admissible_def Let_def split: option.splits if_splits bond_verdict.splits)
qed

lemma output_ports:
  assumes "output_normal ctx b vlan = Some ctx'" "ports_masked (cx_wc ctx)"
  shows "ports_masked (cx_wc ctx')"
proof -
  have x: "ports_masked (cx_wc (output_to_xport c b vid xport))" if "ports_masked (cx_wc c)" for c vid xport
    using that by (auto simp: output_to_xport_eq commit_vlan_action_def pop_vlan_def ports_masked_def Let_def split: option.split)
  have hash: "ports_masked (flow_mask_hash_fields f hf wc)" if "ports_masked wc" for f hf wc
    using that by (cases hf) (simp_all add: ports_masked_def flow_unwildcard_tp_ports_def Let_def)
  show ?thesis using assms(1)
  proof (cases rule: output_normal_cases)
    case (3 bond a wc bond' ctx1)
    have "ports_masked wc" using bond_masks [OF 3(1)] hash assms(2) by metis
    then show ?thesis using 3(2,3) x [of ctx1] by auto
  qed (use assms(2) x in auto)
qed

lemma flood_ports: "flood_normal as a vlan ctx = Some ctx' \<Longrightarrow> ports_masked (cx_wc ctx) \<Longrightarrow> ports_masked (cx_wc ctx')"
  by (induction as a vlan ctx rule: flood_normal.induct)
    (auto simp: bind_eq_Some_conv dest: output_ports split: option.splits if_splits)

lemma xlate_normal_ports:
  assumes "xlate_normal now new ctx = Some ctx'" "ports_masked (cx_wc ctx)" and vlans: "vlans_ok (cx_xbridge ctx)"
  shows "ports_masked (cx_wc ctx')"
proof -
  have forward: "ports_masked (cx_wc ctx')" if "forward_normal b vlan c = Some ctx'" "ports_masked (cx_wc c)" for b vlan c
    using that by (auto simp: forward_normal_def dest: output_ports flood_ports split: option.splits if_splits)
  have learn: "ports_masked (cx_wc ctx')" if "learn_and_forward now new b vlan c = Some ctx'" "ports_masked (cx_wc c)" for b vlan c
    using that forward by (auto simp: learn_and_forward_def dest: update_ports split: option.splits if_splits)
  let ?c = "ctx\<lparr> cx_wc := normal_masks (cx_wc ctx) \<rparr>"
  have c: "ports_masked (cx_wc ?c)" using assms(2) by (simp add: ports_masked_def normal_masks_def)
  have same: "same_input ctx ctx" by (simp add: same_input_def)
  show ?thesis
  proof (cases rule: xlate_normal_cases [OF vlans, where now = now and new = new])
    case 1
    then show ?thesis using assms(1) c same by simp
  next
    case (2 in_b vlan)
    then show ?thesis using assms(1) learn [OF _ c] same by simp
  next
    case (3 in_port in_b vlan)
    then obtain ok wc where adm: "is_admissible now ?c in_port vlan = Some (ok, wc)"
      and x: "(if ok then learn_and_forward now new in_b vlan (ctx\<lparr> cx_wc := wc \<rparr>) else Some (ctx\<lparr> cx_wc := wc \<rparr>)) = Some ctx'"
      using assms(1) 3(2) [OF same] by (auto split: option.splits)
    have "ports_masked (cx_wc (ctx\<lparr> cx_wc := wc \<rparr>))" using admissible_ports [OF adm c] by simp
    then show ?thesis using learn x by (cases ok) auto
  qed
qed

lemma xlate_process_ports:
  assumes "xlate_process_normal now new ctx = Some ctx'" "vlans_ok (cx_xbridge ctx)"
  shows "ports_masked (cx_wc ctx')"
proof -
  have "ports_masked (cx_wc (start_ctx ctx))" "cx_xbridge (start_ctx ctx) = cx_xbridge ctx"
    by (auto simp: start_ctx_def process_special_def stp_should_process_flow_def xlate_wc_init_def flow_wildcards_init_catchall_def ports_masked_def)
  then show ?thesis
    using assms xlate_normal_ports by (auto simp: xlate_process_eq translate_from_def split: if_splits option.splits)
qed

text \<open>Narrowing the masks of ICMP packets loses nothing.\<close>

lemma finish_masked:
  assumes "flow_valid f" "flow_valid g" "ports_masked wc" "wc_agree (xlate_wc_finish f wc) f g"
  shows "wc_agree wc f g" "xlate_wc_finish g wc = xlate_wc_finish f wc"
proof -
  have type: "fl_dl_type g = fl_dl_type f" using assms(3,4) by (auto simp: ports_masked_def wc_agree_def xlate_wc_finish_def split: if_splits)
  have zero: "xlate_wc_finish h wc = wc" if "\<not> wc_nw_proto wc" for h
    using that assms(3) by (cases wc) (simp add: ports_masked_def xlate_wc_finish_def)
  have proto: "fl_nw_proto g = fl_nw_proto f" if "wc_nw_proto wc"
    using that assms(4) by (auto simp: wc_agree_def xlate_wc_finish_def split: if_splits)
  show "xlate_wc_finish g wc = xlate_wc_finish f wc"
  proof (cases "wc_nw_proto wc")
    case True
    show ?thesis using proto [OF True] type by (simp add: xlate_wc_finish_def is_icmpv4_def is_icmpv6_def)
  qed (simp add: zero)
  have narrow: "x AND m = y AND m" if "x AND (m AND 0xff) = y AND (m AND 0xff)" "x AND 0xff = x" "y AND 0xff = y" for x y m :: u16
    using that by (metis and.assoc and.commute)
  show "wc_agree wc f g"
  proof (cases "wc_nw_proto wc \<and> (is_icmpv4 f \<or> is_icmpv6 f)")
    case True
    then have "fl_nw_proto f \<in> {IPPROTO_ICMP, IPPROTO_ICMPV6}" "fl_nw_proto g = fl_nw_proto f" "is_icmpv4 f \<or> is_icmpv6 f"
      using proto by (auto simp: is_icmpv4_def is_icmpv6_def)
    then show ?thesis using assms(1,2,4) narrow [of "fl_tp_src f" "wc_tp_src wc" "fl_tp_src g"] narrow [of "fl_tp_dst f" "wc_tp_dst wc" "fl_tp_dst g"]
      by (simp add: wc_agree_def xlate_wc_finish_def flow_valid_def)
  next
    case False
    then have "xlate_wc_finish f wc = wc" by (cases "wc_nw_proto wc") (simp add: xlate_wc_finish_def, simp add: zero)
    then show ?thesis using assms(4) by simp
  qed
qed

text \<open>
  C40.  The masks that a translation reports are enough.  Let \<open>OFPP_NORMAL\<close> be translated for one packet, and let
  another packet agree with it on all masked fields.  Then the translation for the other packet has the
  same datapath actions and the same masks, goes to the slow path or not alike, and leaves the bridge (its MAC
  table and its bonds) in the same state.  So the datapath may cache the actions under these masks.

  The conditions are that both flows are as they come from a packet, that the VLANs of the configuration have 12 bits,
  and two conditions without which the code is wrong: packets sent out with priority tags must have the same priority,
  which is not masked, and on a bridge without spanning tree the flags against reception of packets and of BPDUs
  agree, since the destination is looked at there without being masked.
\<close>

theorem xlate_actions_masked:
  assumes "flow_valid (cx_flow ctx)" "flow_valid g" "vlans_ok (cx_xbridge ctx)" "receive_flags_ok (cx_xbridge ctx)"
    and "uses_priority_tags (cx_xbridge ctx) \<longrightarrow> fl_vlan_tci g AND VLAN_PCP_MASK = fl_vlan_tci (cx_flow ctx) AND VLAN_PCP_MASK"
    and "xlate_actions_normal now new ctx = Some ctx'" "wc_agree (cx_wc ctx') (cx_flow ctx) g"
  shows "\<exists>c. xlate_actions_normal now new (ctx\<lparr> cx_flow := g \<rparr>) = Some c \<and> cx_odp_actions c = cx_odp_actions ctx' \<and>
    cx_wc c = cx_wc ctx' \<and> cx_slow c = cx_slow ctx' \<and> cx_xbridge c = cx_xbridge ctx'"
proof -
  from assms(6) obtain c1 where c1: "xlate_process_normal now new ctx = Some c1" "ctx' = c1\<lparr> cx_wc := xlate_wc_finish (cx_flow ctx) (cx_wc c1) \<rparr>"
    by (auto simp: xlate_actions_normal_def)
  note finish = finish_masked [OF assms(1,2) xlate_process_ports [OF c1(1) assms(3)]]
  have "wc_agree (xlate_wc_finish (cx_flow ctx) (cx_wc c1)) (cx_flow ctx) g" using assms(7) c1(2) by simp
  from xlate_process_masked [OF assms(1-5) c1(1) finish(1) [OF this]] finish(2) [OF this] c1(2) show ?thesis
    by (auto simp: xlate_actions_normal_def)
qed

text \<open>
  A broadcast packet on the sample bridge, with or without learning, priority tags on its ports, and the flags of its ports.
\<close>

definition broadcast_flow :: "u16 \<Rightarrow> flow" where
  "broadcast_flow tci = sample_flow\<lparr> fl_dl_dst := replicate 6 0xff, fl_vlan_tci := tci \<rparr>"

definition broadcast_ctx :: "bool \<Rightarrow> bool \<Rightarrow> u32 \<Rightarrow> flow \<Rightarrow> xlate_ctx" where
  "broadcast_ctx learn priority_tags config flow =
    (let ctx = sample_ctx (mac_learning_create 7 300) flow; xbridge = cx_xbridge ctx
     in ctx\<lparr> cx_may_learn := learn,
              cx_xbridge := xbridge\<lparr> xbr_forward_bpdu := True,
                xbr_xbundles := map (\<lambda>b. b\<lparr> xb_use_priority_tags := priority_tags \<rparr>) (xbr_xbundles xbridge),
                xbr_xports := map (\<lambda>p. p\<lparr> xp_config := config \<rparr>) (xbr_xports xbridge) \<rparr> \<rparr>)"

lemma broadcast_ctx_flow [simp]:
  "cx_flow (broadcast_ctx l p c f) = f"
  by (simp add: broadcast_ctx_def sample_ctx_def Let_def)

theorem xlate_actions_masked_witness:
  "map_option cx_odp_actions (xlate_actions_normal 100 3 (broadcast_ctx True False 0 (broadcast_flow 0x1009))) = Some [OVS_ACTION_ATTR_OUTPUT 102] \<and>
   map_option cx_odp_actions (xlate_actions_normal 100 3 ((broadcast_ctx True False 0 (broadcast_flow 0x1009))
     \<lparr> cx_flow := (broadcast_flow 0xb009)\<lparr> fl_tp_src := 99 \<rparr> \<rparr>)) = Some [OVS_ACTION_ATTR_OUTPUT 102]"
proof -
  let ?c = "broadcast_ctx True False 0 (broadcast_flow 0x1009)" and ?g = "(broadcast_flow 0xb009)\<lparr> fl_tp_src := 99 \<rparr>"
  have "map_option (\<lambda>c. (cx_odp_actions c, cx_wc c)) (xlate_actions_normal 100 3 ?c) =
      Some ([OVS_ACTION_ATTR_OUTPUT 102], normal_masks xlate_wc_init)" by code_simp
  then obtain c where c: "xlate_actions_normal 100 3 ?c = Some c" "cx_odp_actions c = [OVS_ACTION_ATTR_OUTPUT 102]" "cx_wc c = normal_masks xlate_wc_init"
    by auto
  have "flow_valid (broadcast_flow 0x1009)" "flow_valid ?g" "vlans_ok (cx_xbridge ?c)" "receive_flags_ok (cx_xbridge ?c)"
    "\<not> uses_priority_tags (cx_xbridge ?c)" "wc_agree (normal_masks xlate_wc_init) (broadcast_flow 0x1009) ?g" by code_simp+
  then show ?thesis using xlate_actions_masked [of ?c ?g 100 3 c] c by auto
qed

text \<open>
  The two conditions cannot be dropped.  A packet with priority 5 in VLAN 0 keeps its tag on a port with priority tags,
  and the priority is not masked; but a packet with priority 0, which agrees on the masks, is to lose its tag.
\<close>

lemma priority_not_masked:
  "map_option (\<lambda>c. (cx_odp_actions c, wc_agree (cx_wc c) (broadcast_flow 0xb000) (broadcast_flow 0x1000)))
     (xlate_actions_normal 100 3 (broadcast_ctx False True 0 (broadcast_flow 0xb000))) = Some ([OVS_ACTION_ATTR_OUTPUT 102], True)"
  "map_option cx_odp_actions (xlate_actions_normal 100 3 (broadcast_ctx False True 0 (broadcast_flow 0x1000))) =
     Some [OVS_ACTION_ATTR_POP_VLAN, OVS_ACTION_ATTR_OUTPUT 102]"
  by code_simp+

text \<open>
  A port that receives only BPDUs drops another packet with masks that a BPDU agrees with, while the BPDU itself, on
  a bridge that forwards BPDUs, is flooded.
\<close>

lemma receive_not_masked:
  fixes f :: flow
  defines "f \<equiv> (broadcast_flow 0)\<lparr> fl_dl_type := FLOW_DL_TYPE_NONE \<rparr>"
  shows "map_option (\<lambda>c. (cx_odp_actions c, wc_agree (cx_wc c) f (f\<lparr> fl_dl_dst := eth_addr_stp \<rparr>)))
      (xlate_actions_normal 100 3 (broadcast_ctx False False OFPUTIL_PC_NO_RECV f)) = Some ([], True)"
    and "map_option cx_odp_actions (xlate_actions_normal 100 3 (broadcast_ctx False False OFPUTIL_PC_NO_RECV (f\<lparr> fl_dl_dst := eth_addr_stp \<rparr>))) =
      Some [OVS_ACTION_ATTR_OUTPUT 102]"
  unfolding f_def by code_simp+

end
