(* ===== verification/Spec2Isabelle.thy ===== *)
theory Spec2Isabelle
  imports Heap Reconnect Popcount Bitwise Trie Stp_Protocol Masks
begin

text \<open>
  A verification development for the data structures, protocol machines and the learning bridge of the
  Open vSwitch 2.3.0 tree under \<open>src/openvswitch-2.3.0\<close> (paths below are relative to it).

  \<^bold>\<open>The program.\<close>  Open vSwitch is a software switch.  The daemon keeps sessions to its controllers and its
  database alive with a reconnection machine (\<open>lib/reconnect.c\<close>), runs one spanning tree entity per bridge
  (\<open>lib/stp.c\<close>), and translates the actions of flows into datapath actions
  (\<open>ofproto/ofproto-dpif-xlate.c\<close>).  The action \<open>OFPP_NORMAL\<close> makes a bridge behave as a traditional learning
  switch: it finds the bundle and the VLAN of a packet, asks the spanning tree state of the port and the bond of
  the bundle (\<open>ofproto/bond.c\<close>) whether the packet is admissible, learns its source address in the MAC table
  (\<open>lib/mac-learning.c\<close>, on \<open>lib/hmap.c\<close> and \<open>lib/hash.c\<close>), and forwards or floods it, over a bond by a hash
  of the flow.  Every field of the packet that a decision looks at is put into a wildcard mask, so that the result
  can be cached for all packets that agree on the mask; the classifier's prefix trees (\<open>lib/classifier.c\<close>)
  compute how many bits of an address such a mask needs.  The heap (\<open>lib/heap.c\<close>) orders the
  ports that the monitor of \<open>ofproto/ofproto-dpif-monitor.c\<close> serves by the time they are due.

  \<^bold>\<open>Conventions.\<close>  A \<open>uintN_t\<close> is an \<open>N word\<close>, so that its arithmetic wraps as in C.  A \<open>struct\<close> is a record
  whose fields carry a prefix of its name, an \<open>enum\<close> a datatype.  Objects that the code links by pointers
  from several places (nodes of a heap, entries of the MAC table) live in a store, a map from addresses to
  records; chains that only one object points to are lists.  A function that dereferences a pointer or asserts returns an
  \<open>option\<close>: \<open>None\<close> is a null or dangling pointer or a failed assertion.  Time, callbacks (the carrier status
  and the LACP status of a device, the transmission of a BPDU, randomness) are arguments.

  \<^bold>\<open>The theories.\<close>

  \<^item> \<open>Prelude\<close>: word types, rule collections and shared lemmas.

  \<^item> \<open>Heap\<close>, for \<open>lib/heap.c\<close> and \<open>lib/heap.h\<close>.  The array with its unused element 0 and the embedded nodes
    with their indexes.  The operations refine a map from nodes to priorities, \<open>heap_max\<close> is a maximum, and
    \<open>heap_rebuild\<close> restores the order after raw insertions.  The locale \<open>max_priority_queue\<close> is the contract a
    client relies on.

  \<^item> \<open>Reconnect\<close>, for \<open>lib/reconnect.c\<close>.  The machine, its calls as an inductive step relation, the invariant
    of reachable states, exponential backoff, the limit on tries, keep-alive probes and exact time-outs.

  \<^item> \<open>Bits\<close>, \<open>Popcount\<close>, \<open>Bitwise\<close>, for the bit functions of \<open>lib/util.h\<close> and \<open>lib/util.c\<close> and for
    \<open>lib/sat-math.h\<close>.  Scans, counts and logarithms against their mathematical meaning, and bit strings in byte
    buffers: \<open>bitwise_copy\<close>, \<open>bitwise_zero\<close>, \<open>bitwise_one\<close>, \<open>bitwise_put\<close> and \<open>bitwise_get\<close> change and read the bits they name.

  \<^item> \<open>Trie\<close>, for the prefix trees of \<open>lib/classifier.c\<close>.  Nodes hold up to 32 bits of a prefix.  Insertion and
    removal refine a multiset of prefixes, \<open>trie_lookup_value\<close> finds the longest match, the number of bits it reports
    suffices to repeat the decision for every other address, and removing every prefix empties the tree.

  \<^item> \<open>Stp\<close>, \<open>Stp_Inv\<close>, \<open>Stp_Props\<close>, \<open>Stp_Protocol\<close>, for \<open>lib/stp.c\<close>.  The entity, its timers and BPDUs;
    the invariant that every client call keeps; safety of roles and states, bounds on configured times,
    progress of ticks; the choice of the root port, BPDUs on the wire, malformed BPDUs, changed ports.

  \<^item> \<open>Hash\<close> and \<open>Hmap\<close>, for \<open>lib/hash.c\<close> and \<open>lib/hmap.c\<close>.  A bucket is the list of the nodes
    in its chain.  A map implements a set of nodes through every insertion, removal, replacement and resize;
    iteration visits every node once and ends; the load stays bounded.

  \<^item> \<open>Packets\<close>, \<open>Mac_Learning\<close>, \<open>Mac_Table\<close>, for the addresses of \<open>lib/packets.h\<close> and for
    \<open>lib/mac-learning.c\<close>.  In every reachable state the table refines a list of entries with distinct keys in order of
    use: lookup, insertion with eviction of the least recently used entry, expiry, flush and resizing.  The client side
    of the hash map is proved in the locale \<open>node_table\<close> and rests on its interpretation by \<open>Hmap\<close>.

  \<^item> \<open>Flow\<close>, for \<open>lib/flow.c\<close> and \<open>lib/jhash.c\<close>: flows, masks and flow hashes.  \<open>flow_mask_hash_fields\<close> covers every field the hashes
    read.

  \<^item> \<open>Bond\<close>, for \<open>ofproto/bond.c\<close>: a packet leaves only through an enabled slave, \<open>bond_run\<close> leaves an active slave
    whenever an enabled one exists, and the mask returned with an output slave covers the choice.

  \<^item> \<open>Xlate_Normal\<close> and \<open>Bridge\<close>, for \<open>xlate_normal\<close> and its helpers.  A learned address is forwarded to the
    port that it was learned on and to no other, the lock-free test before learning is exact, and the VLAN of a packet
    survives the way out of one switch and into the next.

  \<^bold>\<open>Bounds and fuel.\<close>  No definition takes fuel.  Loops are structural recursions over the list or the tree that
  the code walks, or functions with a termination proof, as the sift loops of the heap, the loops over bit strings, the
  search for the next bucket and the flush and expiry loops of the MAC table.  The array of a spanning tree entity has its
  \<open>STP_MAX_PORTS\<close> (255) elements; every other size is arbitrary.

  \<^bold>\<open>Not modelled.\<close>  Locks, reference counts, logging, coverage counters and memory that is only freed have no
  counterpart.  Of bonds, rebalancing by load and recirculation are left out; of the translation, all actions
  but \<open>OFPP_NORMAL\<close>, patch ports, tunnels, mirrors (but for the bundles reserved as their output), statistics and
  the link monitors CFM, BFD and LACP.  The OpenFlow layer, upcalls and revalidation, the classifier above its prefix
  trees, the datapaths, OVSDB, the daemons and the tools are not modelled: input and output, concurrency, parsing, or
  generated code.  The Java controller and the laboratory scripts of the repository are separate programs.
\<close>

end
